(* ===== verification/Ltp_Prelude.thy ===== *)
theory Ltp_Prelude
  imports Main
begin

text \<open>
  Shared vocabulary of the development: the C characters and C-string routines the
  sources call (\<^verbatim>\<open>isspace\<close>, \<^verbatim>\<open>strncmp\<close>, \<^verbatim>\<open>strstr\<close>, \<^verbatim>\<open>strchr\<close>), the flags of a test
  result, and the lemma collections the component theories use.

  A C string is the list of its characters before the terminating NUL, and a pointer into
  it is the suffix that starts there. Reading one character past the terminator is not a
  value of the model: a function that may do so returns an \<open>option\<close> or an error constructor.
\<close>

named_theorems cstr \<open>C-string routines as list functions\<close>
named_theorems wf_intros \<open>introduction rules of the well-formedness predicates\<close>

type_synonym cstr = string

abbreviation NUL :: char where "NUL \<equiv> CHR 0x00"
abbreviation TAB :: char where "TAB \<equiv> CHR 0x09"
abbreviation NEWLINE :: char where "NEWLINE \<equiv> CHR 0x0A"
abbreviation SPACE :: char where "SPACE \<equiv> CHR 0x20"
abbreviation DQUOTE :: char where "DQUOTE \<equiv> CHR 0x22"

text \<open>The result types of \<^verbatim>\<open>include/tst_res_flags.h\<close>.\<close>

datatype ttype = TPASS | TFAIL | TBROK | TWARN | TINFO | TCONF

type_synonym log = "(ttype \<times> cstr) list"

definition squoted :: "cstr \<Rightarrow> cstr" where
  "squoted s = [CHR 0x27] @ s @ [CHR 0x27]"

definition isspace :: "char \<Rightarrow> bool" where
  "isspace c = (c \<in> set [SPACE, TAB, NEWLINE, CHR 0x0B, CHR 0x0C, CHR 0x0D])"

definition isupper :: "char \<Rightarrow> bool" where
  "isupper c = (65 \<le> (of_char c :: nat) \<and> (of_char c :: nat) \<le> 90)"

definition islower :: "char \<Rightarrow> bool" where
  "islower c = (97 \<le> (of_char c :: nat) \<and> (of_char c :: nat) \<le> 122)"

definition isdigit :: "char \<Rightarrow> bool" where
  "isdigit c = (48 \<le> (of_char c :: nat) \<and> (of_char c :: nat) \<le> 57)"

definition isalnum :: "char \<Rightarrow> bool" where
  "isalnum c = (isupper c \<or> islower c \<or> isdigit c)"

text \<open>\<^verbatim>\<open>*p\<close>: the character a pointer points at, NUL at the end of the string.\<close>

definition deref :: "cstr \<Rightarrow> char" where
  "deref p = (case p of [] \<Rightarrow> NUL | c # _ \<Rightarrow> c)"

text \<open>\<^verbatim>\<open>strncmp(a, b, n) == 0\<close>: both strings end at their NUL.\<close>

fun strncmp0 :: "cstr \<Rightarrow> cstr \<Rightarrow> nat \<Rightarrow> bool" where
  "strncmp0 a b 0 = True"
| "strncmp0 [] [] (Suc n) = True"
| "strncmp0 [] (y # b) (Suc n) = False"
| "strncmp0 (x # a) [] (Suc n) = False"
| "strncmp0 (x # a) (y # b) (Suc n) = (x = y \<and> strncmp0 a b n)"

fun starts_with :: "cstr \<Rightarrow> cstr \<Rightarrow> bool" where
  "starts_with [] s = True"
| "starts_with (x # p) [] = False"
| "starts_with (x # p) (y # s) = (x = y \<and> starts_with p s)"

text \<open>\<^verbatim>\<open>strstr\<close> and \<^verbatim>\<open>strchr\<close>: the suffix at the first match.\<close>

fun strstr :: "cstr \<Rightarrow> cstr \<Rightarrow> cstr option" where
  "strstr [] p = (if p = [] then Some [] else None)"
| "strstr (c # s) p = (if starts_with p (c # s) then Some (c # s) else strstr s p)"

fun strchr :: "cstr \<Rightarrow> char \<Rightarrow> cstr option" where
  "strchr [] c = None"
| "strchr (x # s) c = (if x = c then Some (x # s) else strchr s c)"

text \<open>\<^verbatim>\<open>s[i]\<close> for an index at or before the terminator.\<close>

definition c_at :: "cstr \<Rightarrow> nat \<Rightarrow> char" where
  "c_at s i = (if i < length s then s ! i else NUL)"

text \<open>\<^verbatim>\<open>snprintf(buf, n, ...)\<close> keeps the first \<open>n - 1\<close> characters.\<close>

definition snprintf :: "nat \<Rightarrow> cstr \<Rightarrow> cstr" where
  "snprintf n s = take (n - 1) s"

text \<open>\<^verbatim>\<open>fgets(buf, n, fp)\<close> on the rest of a file: the next chunk, which ends after a newline or after
  \<open>n - 1\<close> characters, and what follows it. At the end of the file there is no chunk.\<close>

fun chunk :: "nat \<Rightarrow> cstr \<Rightarrow> cstr \<times> cstr" where
  "chunk 0 s = ([], s)"
| "chunk (Suc n) [] = ([], [])"
| "chunk (Suc n) (c # s) =
     (if c = NEWLINE then ([c], s) else let (a, b) = chunk n s in (c # a, b))"

lemma chunk_append: "chunk n s = (a, b) \<Longrightarrow> s = a @ b"
  by (induction n s arbitrary: a b rule: chunk.induct) (auto split: if_splits prod.splits)

lemma chunk_progress: "chunk (Suc n) (c # s) = (a, b) \<Longrightarrow> length b < length (c # s)"
proof -
  assume "chunk (Suc n) (c # s) = (a, b)"
  then have "c # s = a @ b" "a \<noteq> []"
    by (auto dest: chunk_append split: if_splits prod.splits)
  then show ?thesis by (metis length_append length_greater_0_conv less_add_same_cancel2)
qed

lemma chunk_line: "NEWLINE \<notin> set l \<Longrightarrow> length l < n \<Longrightarrow> chunk n (l @ NEWLINE # s) = (l @ [NEWLINE], s)"
proof (induction l arbitrary: n)
  case Nil
  then show ?case by (cases n) auto
next
  case (Cons c l)
  then show ?case by (cases n) auto
qed

function fgets_all :: "nat \<Rightarrow> cstr \<Rightarrow> cstr list" where
  "fgets_all n s =
     (if n \<le> 1 \<or> s = [] then []
      else let (a, b) = chunk (n - 1) s in a # fgets_all n b)"
  by pat_completeness auto
termination
proof (relation "measure (\<lambda>(n, s). length s)")
  fix n :: nat and s x a b
  assume "\<not> (n \<le> 1 \<or> s = [])" "x = chunk (n - 1) s" "(a, b) = x"
  then show "((n, b), n, s) \<in> measure (\<lambda>(n, s). length s)"
    using chunk_progress [of "n - 2" "hd s" "tl s" a b] by (simp add: numeral_2_eq_2 Suc_diff_Suc)
qed simp

declare fgets_all.simps [simp del]

lemma strncmp0_take [cstr]: "strncmp0 a b n = (take n a = take n b)"
  by (induction a b n rule: strncmp0.induct) auto

lemma starts_with_append [simp]: "starts_with p (p @ s)"
  by (induction p) auto

lemma starts_with_iff [cstr]: "starts_with p s = (\<exists>r. s = p @ r)"
  by (induction p s rule: starts_with.induct) auto

lemma strstr_SomeD: "strstr s p = Some r \<Longrightarrow> \<exists>q. s = q @ r \<and> starts_with p r"
  by (induction s p rule: strstr.induct) (auto split: if_splits intro: exI [of _ "_ # _"])

lemma strstr_at_start [simp]: "starts_with p s \<Longrightarrow> strstr s p = Some s"
  by (cases s; cases p) auto

lemma deref_simps [simp]: "deref [] = NUL" "deref (c # s) = c"
  by (simp_all add: deref_def)

lemma not_isspace_NUL [simp]: "\<not> isspace NUL"
  by (simp add: isspace_def)

end
