(* ===== verification/Bool_Expr.thy ===== *)
theory Bool_Expr
  imports Ltp_Prelude
begin

text \<open>
  \<^verbatim>\<open>lib/tst_bool_expr.c\<close> and \<^verbatim>\<open>include/tst_bool_expr.h\<close>: boolean expressions over named
  variables. A string is split into tokens, the tokens are brought into postfix order by the
  shunting-yard algorithm, which also rejects malformed expressions, and the postfix list is
  evaluated on a stack of 16 integers.

  A token keeps what the C structure keeps: the operation, the pointer into the expression
  (the suffix of the string that starts at the token) and the token's length. The \<open>next\<close>
  links are the order of the returned list. Every array access whose index could leave the
  array is guarded: \<open>SY_Overrun\<close> and \<open>None\<close> stand for the undefined behaviour.
\<close>

section \<open>Data\<close>

datatype tst_op = TST_OP_NOT | TST_OP_AND | TST_OP_OR | TST_OP_VAR | TST_OP_LPAR | TST_OP_RPAR

record tst_expr_tok =
  op :: tst_op
  tok :: cstr
  tok_len :: nat

definition tok_text :: "tst_expr_tok \<Rightarrow> cstr" where
  "tok_text t = take (tok_len t) (tok t)"

section \<open>Tokenizer\<close>

definition char_to_op :: "char \<Rightarrow> tst_op" where
  "char_to_op c =
     (if c = CHR ''('' then TST_OP_LPAR
      else if c = CHR '')'' then TST_OP_RPAR
      else if c = CHR ''&'' then TST_OP_AND
      else if c = CHR ''|'' then TST_OP_OR
      else if c = CHR ''!'' then TST_OP_NOT
      else TST_OP_VAR)"

text \<open>The first argument is \<^verbatim>\<open>*last\<close>: \<open>None\<close> for the counting pass (a null pointer), otherwise
  the tokens written to the buffer so far. The result is the new \<^verbatim>\<open>*last\<close> and the count.\<close>

definition new_tok ::
    "tst_expr_tok list option \<Rightarrow> cstr \<Rightarrow> nat \<Rightarrow> tst_expr_tok list option \<times> nat" where
  "new_tok lastp t n =
     (if n = 0 then (lastp, 0)
      else case lastp of
             None \<Rightarrow> (None, 1)
           | Some buf \<Rightarrow>
               (Some (buf @ [\<lparr>op = char_to_op (deref t), tok = t, tok_len = n\<rparr>]), 1))"

definition is_op_char :: "char \<Rightarrow> bool" where
  "is_op_char c = (c \<in> set [CHR ''('', CHR '')'', CHR ''!'', CHR ''&'', CHR ''|''])"

definition is_blank_char :: "char \<Rightarrow> bool" where
  "is_blank_char c = (c \<in> set [TAB, SPACE])"

text \<open>How far the loop index moves inside a quoted string: up to and including the closing
  quote, or to the end of the expression.\<close>

fun skip_quoted :: "cstr \<Rightarrow> nat" where
  "skip_quoted [] = 0"
| "skip_quoted (c # s) = (if c = DQUOTE then 1 else Suc (skip_quoted s))"

text \<open>The loop of \<^verbatim>\<open>tokenize\<close>: \<open>p\<close> is \<^verbatim>\<open>&expr[j]\<close>, \<open>n\<close> is \<^verbatim>\<open>i - j\<close> and the last-but-one argument is
  \<^verbatim>\<open>&expr[i]\<close>.\<close>

function tokenize_loop ::
    "tst_expr_tok list option \<Rightarrow> cstr \<Rightarrow> nat \<Rightarrow> cstr \<Rightarrow> nat
     \<Rightarrow> tst_expr_tok list option \<times> nat" where
  "tokenize_loop lastp p n [] cnt =
     (let (lastp, k) = new_tok lastp p n in (lastp, cnt + k))"
| "tokenize_loop lastp p n (c # s) cnt =
     (if is_op_char c then
        let (lastp, k1) = new_tok lastp p n;
            (lastp, k2) = new_tok lastp (c # s) 1
        in tokenize_loop lastp s 0 s (cnt + k1 + k2)
      else if is_blank_char c then
        let (lastp, k) = new_tok lastp p n
        in tokenize_loop lastp s 0 s (cnt + k)
      else if c = DQUOTE then
        tokenize_loop lastp p (n + 1 + skip_quoted s) (drop (skip_quoted s) s) cnt
      else tokenize_loop lastp p (n + 1) s cnt)"
  by pat_completeness auto
termination
  by (relation "measure (\<lambda>(lastp, p, n, s, cnt). length s)") auto

definition tokenize :: "cstr \<Rightarrow> tst_expr_tok list option \<Rightarrow> tst_expr_tok list option \<times> nat" where
  "tokenize expr lastp = tokenize_loop lastp expr 0 expr 0"

section \<open>Shunting yard\<close>

text \<open>The two fixed-size pointer stacks. A push beyond the capacity is undefined behaviour.\<close>

definition stack_push :: "nat \<Rightarrow> 'a list \<Rightarrow> 'a \<Rightarrow> 'a list option" where
  "stack_push cap stk x = (if length stk < cap then Some (x # stk) else None)"

definition stack_empty :: "'a list \<Rightarrow> bool" where
  "stack_empty stk = (stk = [])"

definition stack_pop :: "'a list \<Rightarrow> ('a \<times> 'a list) option" where
  "stack_pop stk = (case stk of [] \<Rightarrow> None | x # r \<Rightarrow> Some (x, r))"

text \<open>\<open>None\<close> is \<^verbatim>\<open>TST_OP_NONE\<close>.\<close>

definition stack_peek_op :: "tst_expr_tok list \<Rightarrow> tst_op option" where
  "stack_peek_op stk = (case stk of [] \<Rightarrow> None | x # _ \<Rightarrow> Some (op x))"

definition check_one :: "tst_op option \<Rightarrow> bool" where
  "check_one o1 =
     (case o1 of
        None \<Rightarrow> False
      | Some TST_OP_AND \<Rightarrow> False | Some TST_OP_OR \<Rightarrow> False
      | Some TST_OP_NOT \<Rightarrow> False | Some TST_OP_LPAR \<Rightarrow> False
      | _ \<Rightarrow> True)"

definition check_two :: "tst_op option \<Rightarrow> bool" where
  "check_two o1 = (case o1 of Some TST_OP_VAR \<Rightarrow> True | Some TST_OP_RPAR \<Rightarrow> True | _ \<Rightarrow> False)"

text \<open>\<open>SY_Error i m\<close>: the token with index \<open>i\<close> got the message \<open>m\<close> as its \<^verbatim>\<open>priv\<close>.\<close>

datatype 'a sy_result = SY_Ok 'a | SY_Error nat cstr | SY_Overrun

definition out_push :: "nat \<Rightarrow> 'a list \<Rightarrow> 'a \<Rightarrow> 'a list option" where
  "out_push cap out x = map_option rev (stack_push cap (rev out) x)"

text \<open>\<^verbatim>\<open>while (stack_peek_op(op_stack) == TST_OP_NOT) stack_push(out, stack_pop(op_stack))\<close>; the
  output array has room for one token more than the operator stack.\<close>

fun pop_nots :: "nat \<Rightarrow> tst_expr_tok list \<Rightarrow> tst_expr_tok list
     \<Rightarrow> (tst_expr_tok list \<times> tst_expr_tok list) sy_result" where
  "pop_nots cnt [] out = SY_Ok ([], out)"
| "pop_nots cnt (t # stk) out =
     (if stack_peek_op (t # stk) = Some TST_OP_NOT then
        case out_push (cnt + 1) out t of
          None \<Rightarrow> SY_Overrun
        | Some out' \<Rightarrow> pop_nots cnt stk out'
      else SY_Ok (t # stk, out))"

text \<open>Pop everything till the left parenthesis.\<close>

fun pop_till_lpar :: "nat \<Rightarrow> nat \<Rightarrow> tst_expr_tok list \<Rightarrow> tst_expr_tok list
     \<Rightarrow> (tst_expr_tok list \<times> tst_expr_tok list) sy_result" where
  "pop_till_lpar cnt i [] out = SY_Error i ''Missing (''"
| "pop_till_lpar cnt i (t # stk) out =
     (if op t = TST_OP_LPAR then SY_Ok (stk, out)
      else case out_push (cnt + 1) out t of
             None \<Rightarrow> SY_Overrun
           | Some out' \<Rightarrow> pop_till_lpar cnt i stk out')"

text \<open>One iteration of the loop over the tokens, for the token \<open>t\<close> with index \<open>i\<close>.\<close>

definition sy_step :: "nat \<Rightarrow> nat \<Rightarrow> tst_expr_tok \<Rightarrow> tst_op option
     \<Rightarrow> tst_expr_tok list \<times> tst_expr_tok list
     \<Rightarrow> (tst_expr_tok list \<times> tst_expr_tok list) sy_result" where
  "sy_step cnt i t prev st =
     (case st of (stk, out) \<Rightarrow>
       (case op t of
          TST_OP_VAR \<Rightarrow>
            (if check_one prev then SY_Error i ''Expected operation''
             else case out_push (cnt + 1) out t of
                    None \<Rightarrow> SY_Overrun
                  | Some out' \<Rightarrow> pop_nots cnt stk out')
        | TST_OP_LPAR \<Rightarrow>
            (if check_one prev then SY_Error i ''Expected operation''
             else case stack_push cnt stk t of
                    None \<Rightarrow> SY_Overrun | Some stk' \<Rightarrow> SY_Ok (stk', out))
        | TST_OP_RPAR \<Rightarrow>
            (if \<not> check_two prev then SY_Error i ''Expected variable or )''
             else case pop_till_lpar cnt i stk out of
                    SY_Ok (stk', out') \<Rightarrow> pop_nots cnt stk' out'
                  | r \<Rightarrow> r)
        | TST_OP_NOT \<Rightarrow>
            (if check_one prev then SY_Error i ''Expected operation''
             else case stack_push cnt stk t of
                    None \<Rightarrow> SY_Overrun | Some stk' \<Rightarrow> SY_Ok (stk', out))
        | _ \<Rightarrow>
            (if \<not> check_two prev then SY_Error i ''Expected variable or (''
             else
               case (if stack_peek_op stk = Some TST_OP_AND \<or> stack_peek_op stk = Some TST_OP_OR
                     then case stack_pop stk of
                            None \<Rightarrow> None
                          | Some (b, stk') \<Rightarrow>
                              map_option (Pair stk') (out_push (cnt + 1) out b)
                     else Some (stk, out)) of
                 None \<Rightarrow> SY_Overrun
               | Some (stk', out') \<Rightarrow>
                   (case stack_push cnt stk' t of
                      None \<Rightarrow> SY_Overrun
                    | Some stk'' \<Rightarrow> SY_Ok (stk'', out')))))"

fun sy_loop :: "nat \<Rightarrow> nat \<Rightarrow> tst_op option \<Rightarrow> tst_expr_tok list
     \<Rightarrow> tst_expr_tok list \<times> tst_expr_tok list
     \<Rightarrow> (tst_expr_tok list \<times> tst_expr_tok list) sy_result" where
  "sy_loop cnt i prev [] st = SY_Ok st"
| "sy_loop cnt i prev (t # ts) st =
     (case sy_step cnt i t prev st of
        SY_Ok st' \<Rightarrow> sy_loop cnt (i + 1) (Some (op t)) ts st'
      | r \<Rightarrow> r)"

text \<open>Pop the remaining operations. The index of a left parenthesis left on the stack is the
  index its token has in the buffer.\<close>

fun index_of :: "tst_expr_tok \<Rightarrow> tst_expr_tok list \<Rightarrow> nat" where
  "index_of t [] = 0"
| "index_of t (x # xs) = (if x = t then 0 else Suc (index_of t xs))"

fun pop_rest :: "nat \<Rightarrow> tst_expr_tok list \<Rightarrow> tst_expr_tok list \<Rightarrow> tst_expr_tok list
     \<Rightarrow> tst_expr_tok list sy_result" where
  "pop_rest cnt buf [] out = SY_Ok out"
| "pop_rest cnt buf (t # stk) out =
     (if op t = TST_OP_LPAR then SY_Error (index_of t buf) ''Missing )''
      else case out_push (cnt + 1) out t of
             None \<Rightarrow> SY_Overrun
           | Some out' \<Rightarrow> pop_rest cnt buf stk out')"

text \<open>\<^verbatim>\<open>out[out_pos] = NULL\<close> needs one more free cell of the output array.\<close>

definition shunting_yard :: "tst_expr_tok list \<Rightarrow> tst_expr_tok list sy_result" where
  "shunting_yard buf =
     (let cnt = length buf in
      case sy_loop cnt 0 None buf ([], []) of
        SY_Ok (stk, out) \<Rightarrow>
          (if \<not> check_two (Some (op (last buf)))
           then SY_Error (cnt - 1) ''Unfinished expression''
           else case pop_rest cnt buf stk out of
                  SY_Ok out' \<Rightarrow> if length out' < cnt + 1 then SY_Ok out' else SY_Overrun
                | r \<Rightarrow> r)
      | SY_Error i m \<Rightarrow> SY_Error i m
      | SY_Overrun \<Rightarrow> SY_Overrun)"


section \<open>Parsing, printing and evaluation\<close>

text \<open>\<^verbatim>\<open>tst_bool_expr_parse\<close>: the counting pass sizes the buffer and the second pass fills it. The
  parameter \<open>mem\<close> says whether \<^verbatim>\<open>malloc\<close> of that many tokens succeeds. \<open>Parsed None\<close> is the null
  pointer; \<open>Parse_UB\<close> marks a write outside an array.\<close>

datatype parse_result = Parsed "tst_expr_tok list option" | Parse_UB

definition tst_bool_expr_parse :: "(nat \<Rightarrow> bool) \<Rightarrow> cstr \<Rightarrow> parse_result" where
  "tst_bool_expr_parse mem expr =
     (let tok_cnt = snd (tokenize expr None) in
      if tok_cnt = 0 then Parsed None
      else if \<not> mem tok_cnt then Parsed None
      else case fst (tokenize expr (Some [])) of
             None \<Rightarrow> Parse_UB
           | Some buf \<Rightarrow>
               (if length buf > tok_cnt then Parse_UB
                else case shunting_yard buf of
                       SY_Ok rpn \<Rightarrow> Parsed (Some rpn)
                     | SY_Error i m \<Rightarrow> Parsed None
                     | SY_Overrun \<Rightarrow> Parse_UB))"

fun tst_bool_expr_print :: "tst_expr_tok list \<Rightarrow> cstr" where
  "tst_bool_expr_print [] = []"
| "tst_bool_expr_print [t] = tok_text t"
| "tst_bool_expr_print (t # ts) = tok_text t @ SPACE # tst_bool_expr_print ts"

definition print_spaces :: "nat \<Rightarrow> cstr" where
  "print_spaces n = replicate n SPACE"

text \<open>\<^verbatim>\<open>tst_bool_expr_err\<close>: the text written to the stream for a buffer whose \<^verbatim>\<open>priv\<close> fields are \<open>privs\<close>.
  \<open>None\<close> when no field is set, where the C code would read past the buffer.\<close>

fun first_priv :: "cstr option list \<Rightarrow> nat \<Rightarrow> (nat \<times> cstr) option" where
  "first_priv [] i = None"
| "first_priv (None # ps) i = first_priv ps (Suc i)"
| "first_priv (Some m # ps) i = Some (i, m)"

definition tst_bool_expr_err :: "tst_expr_tok list \<Rightarrow> cstr option list \<Rightarrow> cstr option" where
  "tst_bool_expr_err buf privs =
     (case first_priv privs 0 of
        None \<Rightarrow> None
      | Some (i, err) \<Rightarrow>
          (let spaces = length (tok (buf ! 0)) - length (tok (buf ! i));
               err_len = length err
           in Some (tok (buf ! 0) @ [NEWLINE] @ print_spaces spaces @ ''^'' @ [NEWLINE]
                    @ (if err_len < spaces then print_spaces (spaces - err_len + 1) else [])
                    @ err @ [NEWLINE])))"

definition MAX_STACK :: nat where "MAX_STACK = 16"

text \<open>The evaluation loop. The head of the list is \<^verbatim>\<open>stack[pos]\<close>. \<open>None\<close> is an access below
  \<^verbatim>\<open>stack[0]\<close> or of an element never written.\<close>

fun eval_loop :: "tst_expr_tok list \<Rightarrow> (tst_expr_tok \<Rightarrow> int) \<Rightarrow> int list \<Rightarrow> int option" where
  "eval_loop [] mapf stack = (if stack = [] then None else Some (last stack))"
| "eval_loop (t # ts) mapf stack =
     (case op t of
        TST_OP_NOT \<Rightarrow>
          (case stack of
             v # r \<Rightarrow> eval_loop ts mapf ((if v = 0 then 1 else 0) # r)
           | [] \<Rightarrow> None)
      | TST_OP_OR \<Rightarrow>
          (case stack of
             v # w # r \<Rightarrow> eval_loop ts mapf ((if v \<noteq> 0 \<or> w \<noteq> 0 then 1 else 0) # r)
           | _ \<Rightarrow> None)
      | TST_OP_AND \<Rightarrow>
          (case stack of
             v # w # r \<Rightarrow> eval_loop ts mapf ((if v \<noteq> 0 \<and> w \<noteq> 0 then 1 else 0) # r)
           | _ \<Rightarrow> None)
      | TST_OP_VAR \<Rightarrow>
          (if length stack \<ge> MAX_STACK then Some (- 1)
           else if mapf t = - 1 then Some (- 1)
           else eval_loop ts mapf (mapf t # stack))
      | _ \<Rightarrow> eval_loop ts mapf stack)"

definition tst_bool_expr_eval :: "tst_expr_tok list \<Rightarrow> (tst_expr_tok \<Rightarrow> int) \<Rightarrow> int option" where
  "tst_bool_expr_eval rpn mapf = eval_loop rpn mapf []"

section \<open>Reference grammar\<close>

text \<open>
  The expressions the code accepts, as trees over the tokens:
  \<open>E ::= F | E (& or |) F\<close> and \<open>F ::= VAR | ! F | ( E )\<close>. Both binary operations have the
  same precedence and group to the left. \<open>src_e\<close> lists the tokens in the order of the
  source string, \<open>rpn_e\<close> in evaluation order.
\<close>

datatype fac = Var tst_expr_tok | Neg tst_expr_tok fac | Par tst_expr_tok exp tst_expr_tok
and exp = Fac fac | Bin exp tst_expr_tok fac

primrec src_f :: "fac \<Rightarrow> tst_expr_tok list" and src_e :: "exp \<Rightarrow> tst_expr_tok list" where
  "src_f (Var t) = [t]"
| "src_f (Neg t f) = t # src_f f"
| "src_f (Par l e r) = l # src_e e @ [r]"
| "src_e (Fac f) = src_f f"
| "src_e (Bin e t f) = src_e e @ t # src_f f"

primrec rpn_f :: "fac \<Rightarrow> tst_expr_tok list" and rpn_e :: "exp \<Rightarrow> tst_expr_tok list" where
  "rpn_f (Var t) = [t]"
| "rpn_f (Neg t f) = rpn_f f @ [t]"
| "rpn_f (Par l e r) = rpn_e e"
| "rpn_e (Fac f) = rpn_f f"
| "rpn_e (Bin e t f) = rpn_e e @ rpn_f f @ [t]"

definition is_binop :: "tst_op \<Rightarrow> bool" where
  "is_binop o1 = (o1 = TST_OP_AND \<or> o1 = TST_OP_OR)"

primrec wf_f :: "fac \<Rightarrow> bool" and wf_e :: "exp \<Rightarrow> bool" where
  "wf_f (Var t) = (op t = TST_OP_VAR)"
| "wf_f (Neg t f) = (op t = TST_OP_NOT \<and> wf_f f)"
| "wf_f (Par l e r) = (op l = TST_OP_LPAR \<and> op r = TST_OP_RPAR \<and> wf_e e)"
| "wf_e (Fac f) = wf_f f"
| "wf_e (Bin e t f) = (wf_e e \<and> is_binop (op t) \<and> wf_f f)"

text \<open>The value of an expression, the variables it reads and the stack cells it needs.\<close>

primrec sem_f :: "(tst_expr_tok \<Rightarrow> int) \<Rightarrow> fac \<Rightarrow> int"
    and sem_e :: "(tst_expr_tok \<Rightarrow> int) \<Rightarrow> exp \<Rightarrow> int" where
  "sem_f m (Var t) = m t"
| "sem_f m (Neg t f) = of_bool (sem_f m f = 0)"
| "sem_f m (Par l e r) = sem_e m e"
| "sem_e m (Fac f) = sem_f m f"
| "sem_e m (Bin e t f) =
     (if op t = TST_OP_AND then of_bool (sem_e m e \<noteq> 0 \<and> sem_f m f \<noteq> 0)
      else of_bool (sem_e m e \<noteq> 0 \<or> sem_f m f \<noteq> 0))"

primrec vars_f :: "fac \<Rightarrow> tst_expr_tok set" and vars_e :: "exp \<Rightarrow> tst_expr_tok set" where
  "vars_f (Var t) = {t}"
| "vars_f (Neg t f) = vars_f f"
| "vars_f (Par l e r) = vars_e e"
| "vars_e (Fac f) = vars_f f"
| "vars_e (Bin e t f) = vars_e e \<union> vars_f f"

primrec need_f :: "fac \<Rightarrow> nat" and need_e :: "exp \<Rightarrow> nat" where
  "need_f (Var t) = 1"
| "need_f (Neg t f) = need_f f"
| "need_f (Par l e r) = need_e e"
| "need_e (Fac f) = need_f f"
| "need_e (Bin e t f) = max (need_e e) (1 + need_f f)"

section \<open>Stacks\<close>

lemma out_push_eq [simp]: "out_push cap out x = (if length out < cap then Some (out @ [x]) else None)"
  by (simp add: out_push_def stack_push_def)

lemma stack_push_eq [simp]: "stack_push cap stk x = (if length stk < cap then Some (x # stk) else None)"
  by (simp add: stack_push_def)

lemma stack_peek_op_simps [simp]:
  "stack_peek_op [] = None" "stack_peek_op (t # stk) = Some (op t)"
  by (simp_all add: stack_peek_op_def)

lemma stack_pop_simps [simp]: "stack_pop [] = None" "stack_pop (t # stk) = Some (t, stk)"
  by (simp_all add: stack_pop_def)

lemma check_one_simps [simp]:
  "\<not> check_one None" "\<not> check_one (Some TST_OP_AND)" "\<not> check_one (Some TST_OP_OR)"
  "\<not> check_one (Some TST_OP_NOT)" "\<not> check_one (Some TST_OP_LPAR)"
  "check_one (Some TST_OP_VAR)" "check_one (Some TST_OP_RPAR)"
  by (simp_all add: check_one_def)

lemma check_two_simps [simp]:
  "\<not> check_two None" "\<not> check_two (Some TST_OP_AND)" "\<not> check_two (Some TST_OP_OR)"
  "\<not> check_two (Some TST_OP_NOT)" "\<not> check_two (Some TST_OP_LPAR)"
  "check_two (Some TST_OP_VAR)" "check_two (Some TST_OP_RPAR)"
  by (simp_all add: check_two_def)

lemma check_one_two: "check_one p \<longleftrightarrow> check_two p"
  by (cases p; cases "the p") auto

abbreviation is_not :: "tst_expr_tok \<Rightarrow> bool" where
  "is_not t \<equiv> op t = TST_OP_NOT"

text \<open>With room for the tokens the operator stack holds, popping is list surgery.\<close>

lemma pop_nots_eq:
  "length out + length stk \<le> cnt + 1 \<Longrightarrow>
   pop_nots cnt stk out = SY_Ok (dropWhile is_not stk, out @ takeWhile is_not stk)"
  by (induction cnt stk out rule: pop_nots.induct) auto

lemma pop_till_lpar_eq:
  "length out + length ts \<le> cnt + 1 \<Longrightarrow> \<forall>t \<in> set ts. op t \<noteq> TST_OP_LPAR \<Longrightarrow>
   pop_till_lpar cnt i (ts @ stk) out =
     (case stk of
        [] \<Rightarrow> SY_Error i ''Missing (''
      | l # stk' \<Rightarrow> if op l = TST_OP_LPAR then SY_Ok (stk', out @ ts)
                   else pop_till_lpar cnt i stk (out @ ts))"
  by (induction ts arbitrary: out) (auto split: list.splits)

lemma pop_rest_eq:
  "length out + length ts \<le> cnt + 1 \<Longrightarrow> \<forall>t \<in> set ts. op t \<noteq> TST_OP_LPAR \<Longrightarrow>
   pop_rest cnt buf (ts @ stk) out =
     (case stk of
        [] \<Rightarrow> SY_Ok (out @ ts)
      | l # stk' \<Rightarrow> if op l = TST_OP_LPAR then SY_Error (index_of l buf) ''Missing )''
                   else pop_rest cnt buf stk (out @ ts))"
  by (induction ts arbitrary: out) (auto split: list.splits)

section \<open>Tokens\<close>

text \<open>The tokens a scan produces, independent of the pass: \<open>p\<close>, \<open>n\<close> and \<open>s\<close> as in the loop.\<close>

definition tok_at :: "cstr \<Rightarrow> nat \<Rightarrow> tst_expr_tok list" where
  "tok_at p n = (if n = 0 then [] else [\<lparr>op = char_to_op (deref p), tok = p, tok_len = n\<rparr>])"

function scan :: "cstr \<Rightarrow> nat \<Rightarrow> cstr \<Rightarrow> tst_expr_tok list" where
  "scan p n [] = tok_at p n"
| "scan p n (c # s) =
     (if is_op_char c then tok_at p n @ tok_at (c # s) 1 @ scan s 0 s
      else if is_blank_char c then tok_at p n @ scan s 0 s
      else if c = DQUOTE then scan p (n + 1 + skip_quoted s) (drop (skip_quoted s) s)
      else scan p (n + 1) s)"
  by pat_completeness auto
termination
  by (relation "measure (\<lambda>(p, n, s). length s)") auto

abbreviation tokens :: "cstr \<Rightarrow> tst_expr_tok list" where
  "tokens expr \<equiv> scan expr 0 expr"

lemma new_tok_eq:
  "new_tok (Some b) p n = (Some (b @ tok_at p n), length (tok_at p n))"
  "new_tok None p n = (None, length (tok_at p n))"
  by (auto simp: new_tok_def tok_at_def)

lemma tokenize_loop_eq:
  "tokenize_loop (Some b) p n s cnt = (Some (b @ scan p n s), cnt + length (scan p n s))"
  "tokenize_loop None p n s cnt = (None, cnt + length (scan p n s))"
  by (induction p n s arbitrary: b cnt and cnt rule: scan.induct) (auto simp: new_tok_eq)

lemma tokenize_eq:
  "tokenize expr (Some b) = (Some (b @ tokens expr), length (tokens expr))"
  "tokenize expr None = (None, length (tokens expr))"
  by (simp_all add: tokenize_def tokenize_loop_eq)

lemma tst_bool_expr_parse_eq:
  "tst_bool_expr_parse mem expr =
     (if tokens expr = [] \<or> \<not> mem (length (tokens expr)) then Parsed None
      else case shunting_yard (tokens expr) of
             SY_Ok rpn \<Rightarrow> Parsed (Some rpn) | SY_Error i m \<Rightarrow> Parsed None | SY_Overrun \<Rightarrow> Parse_UB)"
  by (auto simp: tst_bool_expr_parse_def tokenize_eq Let_def)

text \<open>Every token is a non-empty piece of the expression.\<close>

definition tok_in :: "cstr \<Rightarrow> tst_expr_tok \<Rightarrow> bool" where
  "tok_in expr t = ((\<exists>q. expr = q @ tok t) \<and> 0 < tok_len t \<and> tok_len t \<le> length (tok t)
     \<and> op t = char_to_op (hd (tok t)))"

lemma tok_in_suffix: "tok_in s t \<Longrightarrow> tok_in (q @ s) t"
  by (force simp: tok_in_def)

lemma skip_quoted_le: "skip_quoted s \<le> length s"
  by (induction s) auto

lemma tok_at_in: "t \<in> set (tok_at p n) \<Longrightarrow> n \<le> length p \<Longrightarrow> tok_in p t"
  by (cases p) (auto simp: tok_at_def tok_in_def split: if_splits)

lemma special_chars [simp]:
  "\<not> is_op_char SPACE" "is_blank_char SPACE" "\<not> is_op_char DQUOTE" "\<not> is_blank_char DQUOTE"
  by (simp_all add: is_op_char_def is_blank_char_def)

text \<open>Scanning from the suffix \<open>s\<close> with the part \<open>q\<close> of the current token already read.\<close>

lemma scan_cases [consumes 1, case_names Nil op blank quote other]:
  assumes "t \<in> set (scan (q @ s) (length q) s)"
    and "s = [] \<Longrightarrow> t \<in> set (tok_at q (length q)) \<Longrightarrow> P"
    and "\<And>c r. s = c # r \<Longrightarrow> is_op_char c \<Longrightarrow>
      t \<in> set (tok_at (q @ s) (length q)) \<union> set (tok_at s 1) \<union> set (tokens r) \<Longrightarrow> P"
    and "\<And>c r. s = c # r \<Longrightarrow> is_blank_char c \<Longrightarrow>
      t \<in> set (tok_at (q @ s) (length q)) \<union> set (tokens r) \<Longrightarrow> P"
    and "\<And>r u v. s = DQUOTE # r \<Longrightarrow> u = take (skip_quoted r) r \<Longrightarrow> v = drop (skip_quoted r) r \<Longrightarrow>
      t \<in> set (scan ((q @ DQUOTE # u) @ v) (length (q @ DQUOTE # u)) v) \<Longrightarrow> P"
    and "\<And>c r. s = c # r \<Longrightarrow> \<not> is_op_char c \<Longrightarrow> \<not> is_blank_char c \<Longrightarrow> c \<noteq> DQUOTE \<Longrightarrow>
      t \<in> set (scan ((q @ [c]) @ r) (length (q @ [c])) r) \<Longrightarrow> P"
  shows P
proof (cases s)
  case (Cons c r)
  consider "is_op_char c" | "is_blank_char c" "\<not> is_op_char c"
    | "c = DQUOTE" | "\<not> is_op_char c" "\<not> is_blank_char c" "c \<noteq> DQUOTE" by blast
  then show ?thesis
  proof cases
    case 3
    with Cons assms(1) have "t \<in> set (scan ((q @ DQUOTE # take (skip_quoted r) r) @ drop (skip_quoted r) r)
        (length (q @ DQUOTE # take (skip_quoted r) r)) (drop (skip_quoted r) r))"
      by (simp add: skip_quoted_le min_absorb2)
    with 3 Cons assms(5) show ?thesis by blast
  qed (use Cons assms in auto)
qed (use assms in auto)

lemma scan_in: "t \<in> set (scan (q @ s) (length q) s) \<Longrightarrow> tok_in (q @ s) t"
proof (induction s arbitrary: q rule: length_induct)
  case (1 s)
  note IH = 1(1) [rule_format]
  from 1(2) show ?case
  proof (cases rule: scan_cases)
    case (op c r)
    then show ?thesis
      using IH [of r "[]"] tok_in_suffix [of r t "q @ [c]"] tok_in_suffix [of s t q]
      by (auto dest: tok_at_in)
  next
    case (blank c r)
    then show ?thesis
      using IH [of r "[]"] tok_in_suffix [of r t "q @ [c]"] by (auto dest: tok_at_in)
  next
    case (quote r u v)
    then show ?thesis using IH [of v "q @ DQUOTE # u"] by auto
  next
    case (other c r)
    then show ?thesis using IH [of r "q @ [c]"] by auto
  qed (auto dest: tok_at_in)
qed

lemma tokens_in: "t \<in> set (tokens expr) \<Longrightarrow> tok_in expr t"
  using scan_in [of t "[]" expr] by simp

section \<open>Printing and tokenizing again\<close>

text \<open>A word the tokenizer keeps whole: one operation character, or a non-empty run of other
  characters in which quoted strings are closed.\<close>

function plain_word :: "cstr \<Rightarrow> bool" where
  "plain_word [] = True"
| "plain_word (c # s) =
     (if c = DQUOTE then DQUOTE \<in> set s \<and> plain_word (drop (skip_quoted s) s)
      else \<not> is_op_char c \<and> \<not> is_blank_char c \<and> plain_word s)"
  by pat_completeness auto
termination
  by (relation "measure length") auto

definition valid_word :: "cstr \<Rightarrow> bool" where
  "valid_word w = (w \<noteq> [] \<and> plain_word w \<or> (\<exists>c. w = [c] \<and> is_op_char c))"

fun join_words :: "cstr list \<Rightarrow> cstr" where
  "join_words [] = []"
| "join_words [w] = w"
| "join_words (w # ws) = w @ SPACE # join_words ws"

lemma print_join: "tst_bool_expr_print ts = join_words (map tok_text ts)"
  by (induction ts rule: tst_bool_expr_print.induct) auto

lemma skip_quoted_append: "DQUOTE \<in> set s \<Longrightarrow> skip_quoted (s @ r) = skip_quoted s"
  by (induction s) auto

lemma scan_plain: "plain_word w \<Longrightarrow> scan p n (w @ s) = scan p (n + length w) s"
proof (induction w arbitrary: n rule: plain_word.induct)
  case (2 c w)
  then show ?case
    using skip_quoted_le [of w] by (auto simp: skip_quoted_append split: if_splits)
qed simp

lemma scan_word:
  assumes "valid_word w"
  shows "map tok_text (tokens (w @ SPACE # s)) = w # map tok_text (tokens s)"
    and "map tok_text (tokens w) = [w]"
proof -
  show "map tok_text (tokens (w @ SPACE # s)) = w # map tok_text (tokens s)"
    using assms scan_plain [of w "w @ SPACE # s" 0 "SPACE # s"]
    by (auto simp: valid_word_def tok_at_def tok_text_def)
  show "map tok_text (tokens w) = [w]"
    using assms scan_plain [of w w 0 "[]"]
    by (auto simp: valid_word_def tok_at_def tok_text_def)
qed

lemma tokens_join: "\<forall>w \<in> set ws. valid_word w \<Longrightarrow> map tok_text (tokens (join_words ws)) = ws"
  by (induction ws rule: join_words.induct) (auto simp: scan_word tok_at_def)

text \<open>In an expression whose quoted strings are closed every token is such a word.\<close>

function quotes_closed :: "cstr \<Rightarrow> bool" where
  "quotes_closed [] = True"
| "quotes_closed (c # s) =
     (if c = DQUOTE then DQUOTE \<in> set s \<and> quotes_closed (drop (skip_quoted s) s)
      else quotes_closed s)"
  by pat_completeness auto
termination
  by (relation "measure length") auto

lemma plain_word_append: "plain_word v \<Longrightarrow> plain_word w \<Longrightarrow> plain_word (v @ w)"
  by (induction v rule: plain_word.induct)
    (use skip_quoted_le in \<open>auto simp: skip_quoted_append split: if_splits\<close>)

lemma skip_quoted_closed:
  "DQUOTE \<in> set s \<Longrightarrow> drop (skip_quoted s) (take (skip_quoted s) s) = [] \<and> DQUOTE \<in> set (take (skip_quoted s) s)
     \<and> skip_quoted (take (skip_quoted s) s) = skip_quoted s"
  by (induction s) auto

lemma tok_at_valid: "plain_word (take n p) \<Longrightarrow> n \<le> length p \<Longrightarrow> t \<in> set (tok_at p n) \<Longrightarrow> valid_word (tok_text t)"
  by (auto simp: tok_at_def tok_text_def valid_word_def split: if_splits)

lemma scan_valid:
  "t \<in> set (scan (q @ s) (length q) s) \<Longrightarrow> plain_word q \<Longrightarrow> quotes_closed s \<Longrightarrow> valid_word (tok_text t)"
proof (induction s arbitrary: q rule: length_induct)
  case (1 s)
  note IH = 1(1) [rule_format]
  have here: "t \<in> set (tok_at (q @ s) (length q)) \<Longrightarrow> valid_word (tok_text t)"
    using 1(3) tok_at_valid [of "length q" "q @ s" t] by simp
  from 1(2) show ?case
  proof (cases rule: scan_cases)
    case (op c r)
    then have "c \<noteq> DQUOTE" by auto
    moreover have "t \<in> set (tok_at s 1) \<Longrightarrow> valid_word (tok_text t)"
      using op by (auto simp: tok_at_def tok_text_def valid_word_def)
    ultimately show ?thesis
      using IH [of r "[]"] 1(4) here op by auto
  next
    case (blank c r)
    then show ?thesis
      using IH [of r "[]"] 1(4) here by (cases "c = DQUOTE") auto
  next
    case (quote r u v)
    then have "plain_word (DQUOTE # u)"
      using 1(4) skip_quoted_closed [of r] by auto
    with quote show ?thesis
      using IH [of v "q @ DQUOTE # u"] 1(3,4) plain_word_append [of q "DQUOTE # u"] by auto
  next
    case (other c r)
    then show ?thesis
      using IH [of r "q @ [c]"] 1(3,4) plain_word_append [of q "[c]"] by auto
  qed (use here in auto)
qed

lemma tokens_valid: "quotes_closed expr \<Longrightarrow> t \<in> set (tokens expr) \<Longrightarrow> valid_word (tok_text t)"
  using scan_valid [of t "[]" expr] by simp

section \<open>The algorithm accepts every expression of the grammar\<close>

text \<open>After reading \<open>e\<close>, the tokens of \<open>done_e e\<close> are in the output and those of \<open>pend_e e\<close>, at most one
  binary operation, wait on the operator stack.\<close>

primrec pend_e :: "exp \<Rightarrow> tst_expr_tok list" where
  "pend_e (Fac f) = []"
| "pend_e (Bin e t f) = [t]"

primrec done_e :: "exp \<Rightarrow> tst_expr_tok list" where
  "done_e (Fac f) = rpn_f f"
| "done_e (Bin e t f) = rpn_e e @ rpn_f f"

lemma done_pend [simp]: "done_e e @ pend_e e = rpn_e e"
  by (cases e) auto

lemma pend_not_par: "wf_e e \<Longrightarrow> t \<in> set (pend_e e) \<Longrightarrow> op t \<noteq> TST_OP_LPAR \<and> op t \<noteq> TST_OP_NOT"
  by (cases e) (auto simp: is_binop_def)

lemma src_nonempty [simp]: "src_f f \<noteq> []" "src_e e \<noteq> []"
  by (induction f and e) auto

definition last_op :: "tst_expr_tok list \<Rightarrow> tst_op option" where
  "last_op ts = Some (op (last ts))"

lemma check_two_last: "wf_f f \<Longrightarrow> check_two (last_op (src_f f))" "wf_e e \<Longrightarrow> check_two (last_op (src_e e))"
  by (induction f and e) (auto simp: last_op_def)

definition closed_top :: "tst_expr_tok list \<Rightarrow> bool" where
  "closed_top stk = (stk = [] \<or> op (hd stk) = TST_OP_LPAR)"

lemma length_src: "length (rpn_f f) \<le> length (src_f f)" "length (rpn_e e) \<le> length (src_e e)"
  by (induction f and e) auto

lemma length_done_pend: "length (done_e e) + length (pend_e e) = length (rpn_e e)"
  by (metis done_pend length_append)

lemma closed_top_nots [simp]:
  "closed_top stk \<Longrightarrow> dropWhile is_not stk = stk" "closed_top stk \<Longrightarrow> takeWhile is_not stk = []"
  by (cases stk; simp add: closed_top_def)+

lemma sy_binop_step:
  assumes "is_binop (op t)" "check_two prev" "wf_e e" "closed_top stk"
    and "length stk + length out + length (rpn_e e) < cnt"
  shows "sy_step cnt i t prev (pend_e e @ stk, out @ done_e e) = SY_Ok (t # stk, out @ rpn_e e)"
  using assms length_done_pend [of e]
  by (cases e; cases stk) (auto simp: sy_step_def is_binop_def closed_top_def)

lemma sy_run:
  "wf_f f \<Longrightarrow> \<not> check_one prev \<Longrightarrow> length stk + length out + length (src_f f) \<le> cnt \<Longrightarrow>
   sy_loop cnt i prev (src_f f @ ts) (stk, out) =
   sy_loop cnt (i + length (src_f f)) (last_op (src_f f)) ts
     (dropWhile is_not stk, out @ rpn_f f @ takeWhile is_not stk)"
  "wf_e e \<Longrightarrow> \<not> check_one prev \<Longrightarrow> closed_top stk \<Longrightarrow>
   length stk + length out + length (src_e e) \<le> cnt \<Longrightarrow>
   sy_loop cnt i prev (src_e e @ ts) (stk, out) =
   sy_loop cnt (i + length (src_e e)) (last_op (src_e e)) ts (pend_e e @ stk, out @ done_e e)"
proof (induction f and e arbitrary: prev stk out i ts and prev stk out i ts)
  case (Var t)
  then show ?case by (simp add: sy_step_def pop_nots_eq last_op_def)
next
  case (Neg t f)
  have "sy_loop cnt (Suc i) (Some TST_OP_NOT) (src_f f @ ts) (t # stk, out) =
    sy_loop cnt (Suc i + length (src_f f)) (last_op (src_f f)) ts
     (dropWhile is_not (t # stk), out @ rpn_f f @ takeWhile is_not (t # stk))"
    using Neg.prems by (intro Neg.IH) auto
  with Neg.prems show ?case by (simp add: sy_step_def last_op_def)
next
  case (Par l e r)
  have run: "sy_loop cnt (Suc i) (Some TST_OP_LPAR) (src_e e @ r # ts) (l # stk, out) =
    sy_loop cnt (Suc i + length (src_e e)) (last_op (src_e e)) (r # ts)
      (pend_e e @ l # stk, out @ done_e e)"
    using Par.prems by (intro Par.IH) (auto simp: closed_top_def)
  have two: "check_two (last_op (src_e e))"
    using Par.prems by (simp add: check_two_last)
  have len: "length (rpn_e e) \<le> length (src_e e)" by (rule length_src)
  have "pop_till_lpar cnt j (pend_e e @ l # stk) (out @ done_e e) = SY_Ok (stk, out @ rpn_e e)" for j
    using Par.prems len length_done_pend [of e]
    by (subst pop_till_lpar_eq) (auto dest: pend_not_par)
  moreover have "pop_nots cnt stk (out @ rpn_e e) =
      SY_Ok (dropWhile is_not stk, (out @ rpn_e e) @ takeWhile is_not stk)"
    using Par.prems len by (intro pop_nots_eq) simp
  ultimately show ?case
    using Par.prems run two by (simp add: sy_step_def last_op_def)
next
  case (Fac f)
  then show ?case by (simp add: Fac.IH)
next
  case (Bin e t f)
  have len: "length (rpn_e e) \<le> length (src_e e)" by (rule length_src)
  have "sy_loop cnt i prev (src_e e @ t # src_f f @ ts) (stk, out) =
    sy_loop cnt (i + length (src_e e)) (last_op (src_e e)) (t # src_f f @ ts)
      (pend_e e @ stk, out @ done_e e)"
    using Bin.prems by (intro Bin.IH(1)) auto
  also have "\<dots> = sy_loop cnt (Suc (i + length (src_e e))) (Some (op t)) (src_f f @ ts)
      (t # stk, out @ rpn_e e)"
    using Bin.prems len by (simp add: sy_binop_step check_two_last)
  also have "\<dots> = sy_loop cnt (Suc (i + length (src_e e)) + length (src_f f)) (last_op (src_f f)) ts
      (t # stk, out @ rpn_e e @ rpn_f f)"
    using Bin.prems len by (subst Bin.IH(2)) (auto simp: is_binop_def)
  finally show ?case by (simp add: last_op_def add.assoc)
qed

lemma shunting_yard_complete:
  assumes "wf_e e"
  shows "shunting_yard (src_e e) = SY_Ok (rpn_e e)"
proof -
  let ?cnt = "length (src_e e)"
  have len: "length (rpn_e e) \<le> ?cnt" by (rule length_src)
  have "sy_loop ?cnt 0 None (src_e e @ []) ([], []) =
    sy_loop ?cnt (0 + ?cnt) (last_op (src_e e)) [] (pend_e e @ [], [] @ done_e e)"
    using assms by (intro sy_run(2)) (auto simp: closed_top_def)
  then have "sy_loop ?cnt 0 None (src_e e) ([], []) = SY_Ok (pend_e e, done_e e)" by simp
  moreover have "pop_rest ?cnt (src_e e) (pend_e e @ []) (done_e e) = SY_Ok (rpn_e e)"
    using assms len length_done_pend [of e]
    by (subst pop_rest_eq) (auto dest: pend_not_par)
  moreover have "check_two (Some (op (last (src_e e))))"
    using check_two_last(2) [OF assms] by (simp add: last_op_def)
  ultimately show ?thesis
    using len by (simp add: shunting_yard_def)
qed


section \<open>Everything the algorithm accepts is an expression of the grammar\<close>

text \<open>
  A level is what has been read inside one pair of open parentheses while an operand is
  expected: a finished left operand with its operation, then the negations read after it. The
  state of a run is a stack of levels, innermost first, each with the parenthesis that closed it
  off, and either an unfinished level or a finished expression on top.
\<close>

type_synonym level = "(exp \<times> tst_expr_tok) option \<times> tst_expr_tok list"

fun lv_src :: "level \<Rightarrow> tst_expr_tok list" where
  "lv_src (None, ns) = ns"
| "lv_src (Some (e, t), ns) = src_e e @ t # ns"

fun lv_stk :: "level \<Rightarrow> tst_expr_tok list" where
  "lv_stk (None, ns) = rev ns"
| "lv_stk (Some (e, t), ns) = rev ns @ [t]"

fun lv_out :: "level \<Rightarrow> tst_expr_tok list" where
  "lv_out (None, ns) = []"
| "lv_out (Some (e, t), ns) = rpn_e e"

fun wf_lv :: "level \<Rightarrow> bool" where
  "wf_lv (None, ns) = (\<forall>t \<in> set ns. is_not t)"
| "wf_lv (Some (e, t), ns) = (wf_e e \<and> is_binop (op t) \<and> (\<forall>t \<in> set ns. is_not t))"

fun ctx_src :: "(level \<times> tst_expr_tok) list \<Rightarrow> tst_expr_tok list" where
  "ctx_src [] = []"
| "ctx_src ((l, p) # c) = ctx_src c @ lv_src l @ [p]"

fun ctx_stk :: "(level \<times> tst_expr_tok) list \<Rightarrow> tst_expr_tok list" where
  "ctx_stk [] = []"
| "ctx_stk ((l, p) # c) = p # lv_stk l @ ctx_stk c"

fun ctx_out :: "(level \<times> tst_expr_tok) list \<Rightarrow> tst_expr_tok list" where
  "ctx_out [] = []"
| "ctx_out ((l, p) # c) = ctx_out c @ lv_out l"

fun wf_ctx :: "(level \<times> tst_expr_tok) list \<Rightarrow> bool" where
  "wf_ctx [] = True"
| "wf_ctx ((l, p) # c) = (wf_lv l \<and> op p = TST_OP_LPAR \<and> wf_ctx c)"

text \<open>The operand \<open>f\<close> completes a level: its negations apply to \<open>f\<close>, then its operation.\<close>

fun lv_finish :: "level \<Rightarrow> fac \<Rightarrow> exp" where
  "lv_finish (None, ns) f = Fac (foldr Neg ns f)"
| "lv_finish (Some (e, t), ns) f = Bin e t (foldr Neg ns f)"

inductive sy_inv :: "tst_expr_tok list \<Rightarrow> tst_op option \<Rightarrow> tst_expr_tok list \<Rightarrow> tst_expr_tok list \<Rightarrow> bool" where
  operand: "wf_ctx c \<Longrightarrow> wf_lv l \<Longrightarrow> \<not> check_one prev \<Longrightarrow> read = ctx_src c @ lv_src l \<Longrightarrow>
     stk = lv_stk l @ ctx_stk c \<Longrightarrow> out = ctx_out c @ lv_out l \<Longrightarrow> sy_inv read prev stk out"
| finished: "wf_ctx c \<Longrightarrow> wf_e e \<Longrightarrow> check_two prev \<Longrightarrow> read = ctx_src c @ src_e e \<Longrightarrow>
     stk = pend_e e @ ctx_stk c \<Longrightarrow> out = ctx_out c @ done_e e \<Longrightarrow> sy_inv read prev stk out"

lemma src_foldr_Neg: "src_f (foldr Neg ns f) = ns @ src_f f"
  by (induction ns) auto

lemma rpn_foldr_Neg: "rpn_f (foldr Neg ns f) = rpn_f f @ rev ns"
  by (induction ns) auto

lemma wf_foldr_Neg: "wf_f (foldr Neg ns f) \<longleftrightarrow> (\<forall>t \<in> set ns. is_not t) \<and> wf_f f"
  by (induction ns) auto

lemma lv_finish_simps:
  "src_e (lv_finish l f) = lv_src l @ src_f f"
  "wf_lv l \<Longrightarrow> wf_f f \<Longrightarrow> wf_e (lv_finish l f)"
  by (cases l rule: lv_src.cases; simp add: src_foldr_Neg wf_foldr_Neg)+

lemma closed_ctx [simp]: "wf_ctx c \<Longrightarrow> closed_top (ctx_stk c)"
  by (cases c rule: wf_ctx.cases) (auto simp: closed_top_def)

lemma takeWhile_nots: "\<forall>t \<in> set ns. is_not t \<Longrightarrow> closed_top stk \<or> (stk \<noteq> [] \<and> \<not> is_not (hd stk)) \<Longrightarrow>
   takeWhile is_not (rev ns @ stk) = rev ns \<and> dropWhile is_not (rev ns @ stk) = stk"
  by (cases stk) (auto simp: takeWhile_append dropWhile_append closed_top_def)

lemma pop_nots_level:
  assumes "wf_lv l" "wf_ctx c"
    and "length (out @ lv_out l @ rpn_f f) + length (lv_stk l @ ctx_stk c) \<le> cnt + 1"
  shows "pop_nots cnt (lv_stk l @ ctx_stk c) (out @ lv_out l @ rpn_f f) =
     SY_Ok (pend_e (lv_finish l f) @ ctx_stk c, out @ done_e (lv_finish l f))"
proof (cases l rule: lv_src.cases)
  case (1 ns)
  with assms takeWhile_nots [of ns "ctx_stk c"] show ?thesis
    by (subst pop_nots_eq) (auto simp: rpn_foldr_Neg)
next
  case (2 e t ns)
  with assms takeWhile_nots [of ns "t # ctx_stk c"] show ?thesis
    by (subst pop_nots_eq) (auto simp: rpn_foldr_Neg is_binop_def)
qed

text \<open>The two places where an operand is complete: a variable, and a closing parenthesis.\<close>

lemma sy_inv_operand_done:
  assumes "wf_ctx c" "wf_lv l" "wf_f f" "check_two prev"
    and "length (ctx_out c @ lv_out l @ rpn_f f) + length (lv_stk l @ ctx_stk c) \<le> cnt + 1"
    and "pop_nots cnt (lv_stk l @ ctx_stk c) (ctx_out c @ lv_out l @ rpn_f f) = SY_Ok (stk', out')"
  shows "sy_inv (ctx_src c @ lv_src l @ src_f f) prev stk' out'"
  using assms pop_nots_level [of l c "ctx_out c" f cnt]
  by (intro sy_inv.finished [of c "lv_finish l f"]) (auto simp: lv_finish_simps)

lemma sy_inv_step:
  assumes inv: "sy_inv read prev stk out"
    and room: "length stk + length out < cnt"
    and step: "sy_step cnt i t prev (stk, out) = SY_Ok (stk', out')"
  shows "sy_inv (read @ [t]) (Some (op t)) stk' out'"
  using inv
proof cases
  case (operand c l)
  show ?thesis
  proof (cases "op t")
    case TST_OP_VAR
    with operand room step show ?thesis
      using sy_inv_operand_done [of c l "Var t" "Some (op t)" cnt stk' out']
      by (auto simp: sy_step_def)
  next
    case TST_OP_LPAR
    with operand room step show ?thesis
      by (intro sy_inv.operand [of "(l, t) # c" "(None, [])"]) (auto simp: sy_step_def)
  next
    case TST_OP_NOT
    obtain lft ns where l: "l = (lft, ns)" by (cases l)
    from TST_OP_NOT operand room step l show ?thesis
      by (intro sy_inv.operand [of c "(lft, ns @ [t])"]; cases lft)
        (auto simp: sy_step_def split: prod.splits)
  qed (use operand step in \<open>auto simp: sy_step_def check_one_two\<close>)
next
  case (finished c e)
  show ?thesis
  proof (cases "op t")
    case TST_OP_RPAR
    with finished step have pops: "(case pop_till_lpar cnt i (pend_e e @ ctx_stk c) (ctx_out c @ done_e e) of
        SY_Ok (s, q) \<Rightarrow> pop_nots cnt s q | r \<Rightarrow> r) = SY_Ok (stk', out')"
      by (simp add: sy_step_def)
    have till: "pop_till_lpar cnt i (pend_e e @ ctx_stk c) (ctx_out c @ done_e e) =
        (case ctx_stk c of [] \<Rightarrow> SY_Error i ''Missing (''
         | l # s \<Rightarrow> if op l = TST_OP_LPAR then SY_Ok (s, (ctx_out c @ done_e e) @ pend_e e)
                   else pop_till_lpar cnt i (ctx_stk c) ((ctx_out c @ done_e e) @ pend_e e))"
      using finished room by (intro pop_till_lpar_eq) (auto dest: pend_not_par)
    show ?thesis
    proof (cases c rule: wf_ctx.cases)
      case 1
      with till pops show ?thesis by simp
    next
      case (2 l p c')
      with finished till have "pop_till_lpar cnt i (pend_e e @ ctx_stk c) (ctx_out c @ done_e e) =
          SY_Ok (lv_stk l @ ctx_stk c', ctx_out c' @ lv_out l @ rpn_f (Par p e t))"
        by simp
      with pops have "pop_nots cnt (lv_stk l @ ctx_stk c') (ctx_out c' @ lv_out l @ rpn_f (Par p e t)) =
          SY_Ok (stk', out')"
        by simp
      with finished 2 room length_done_pend [of e] TST_OP_RPAR
      have "sy_inv (ctx_src c' @ lv_src l @ src_f (Par p e t)) (Some (op t)) stk' out'"
        by (intro sy_inv_operand_done [of c' l "Par p e t" _ cnt]) auto
      with finished 2 show ?thesis by simp
    qed
  next
    case TST_OP_AND
    with finished room step sy_binop_step [of t prev e "ctx_stk c" "ctx_out c" cnt i]
      length_done_pend [of e] show ?thesis
      by (intro sy_inv.operand [of c "(Some (e, t), [])"]) (auto simp: is_binop_def)
  next
    case TST_OP_OR
    with finished room step sy_binop_step [of t prev e "ctx_stk c" "ctx_out c" cnt i]
      length_done_pend [of e] show ?thesis
      by (intro sy_inv.operand [of c "(Some (e, t), [])"]) (auto simp: is_binop_def)
  qed (use finished step in \<open>auto simp: sy_step_def check_one_two\<close>)
qed


lemma pop_till_lpar_bound:
  "length out + length stk \<le> cnt + 1 \<Longrightarrow>
   case pop_till_lpar cnt i stk out of
     SY_Ok (stk', out') \<Rightarrow> length stk' + length out' < length stk + length out
   | SY_Error j m \<Rightarrow> True
   | SY_Overrun \<Rightarrow> False"
proof (induction stk arbitrary: out)
  case (Cons t stk)
  from Cons.IH [of "out @ [t]"] Cons.prems show ?case
    by (auto split: sy_result.splits)
qed simp

lemma pop_nots_length:
  "length out + length stk \<le> cnt + 1 \<Longrightarrow>
   \<exists>stk' out'. pop_nots cnt stk out = SY_Ok (stk', out')
     \<and> length stk' + length out' = length stk + length out"
  by (induction cnt stk out rule: pop_nots.induct) auto

text \<open>Reading a token adds at most one token to the two arrays, so neither is ever overrun.\<close>

lemma sy_step_bound:
  assumes "length stk + length out < cnt"
  shows "case sy_step cnt i t prev (stk, out) of
     SY_Ok (stk', out') \<Rightarrow> length stk' + length out' \<le> Suc (length stk + length out)
   | SY_Error j m \<Rightarrow> True
   | SY_Overrun \<Rightarrow> False"
proof (cases "op t")
  case TST_OP_VAR
  with assms pop_nots_length [of "out @ [t]" stk cnt] show ?thesis by (auto simp: sy_step_def)
next
  case TST_OP_RPAR
  have "length out + length stk \<le> cnt + 1" using assms by simp
  note bound = pop_till_lpar_bound [OF this, of i]
  show ?thesis
  proof (cases "pop_till_lpar cnt i stk out")
    case (SY_Ok p)
    with bound pop_nots_length [of "snd p" "fst p" cnt] assms TST_OP_RPAR show ?thesis
      by (auto simp: sy_step_def split: prod.splits)
  qed (use bound TST_OP_RPAR in \<open>auto simp: sy_step_def\<close>)
qed (use assms in \<open>cases stk; auto simp: sy_step_def split: if_splits\<close>)+

lemma sy_inv_loop:
  "sy_inv read prev stk out \<Longrightarrow> length stk + length out + length ts \<le> cnt \<Longrightarrow>
   sy_loop cnt i prev ts (stk, out) = SY_Ok (stk', out') \<Longrightarrow>
   \<exists>prev'. (ts \<noteq> [] \<longrightarrow> prev' = last_op ts) \<and> (ts = [] \<longrightarrow> prev' = prev) \<and> sy_inv (read @ ts) prev' stk' out'
     \<and> length stk' + length out' \<le> length stk + length out + length ts"
proof (induction ts arbitrary: read prev stk out i)
  case Nil
  then show ?case by auto
next
  case (Cons t ts)
  from Cons.prems(3) obtain s q where step: "sy_step cnt i t prev (stk, out) = SY_Ok (s, q)"
    and rest: "sy_loop cnt (i + 1) (Some (op t)) ts (s, q) = SY_Ok (stk', out')"
    by (auto split: sy_result.splits)
  have "sy_inv (read @ [t]) (Some (op t)) s q"
    using Cons.prems step by (intro sy_inv_step) auto
  moreover have "length s + length q + length ts \<le> cnt"
    using Cons.prems sy_step_bound [of stk out cnt i t prev] step by simp
  ultimately show ?case
    using Cons.IH [OF _ _ rest] sy_step_bound [of stk out cnt i t prev] step Cons.prems
    by (fastforce simp: last_op_def)
qed

lemma shunting_yard_sound:
  assumes "buf \<noteq> []" "shunting_yard buf = SY_Ok rpn"
  shows "\<exists>e. wf_e e \<and> src_e e = buf \<and> rpn_e e = rpn"
proof -
  let ?cnt = "length buf"
  from assms(2) obtain stk out where loop: "sy_loop ?cnt 0 None buf ([], []) = SY_Ok (stk, out)"
    and two: "check_two (last_op buf)" and pop: "pop_rest ?cnt buf stk out = SY_Ok rpn"
    by (auto simp: shunting_yard_def Let_def last_op_def split: sy_result.splits if_splits)
  have "sy_inv [] None [] []"
    by (intro sy_inv.operand [of "[]" "(None, [])"]) auto
  from sy_inv_loop [OF this _ loop] assms(1)
  have "sy_inv buf (last_op buf) stk out" and len: "length stk + length out \<le> ?cnt" by auto
  from this(1) show ?thesis
  proof cases
    case (operand c l)
    with two show ?thesis by (simp add: check_one_two)
  next
    case (finished c e)
    show ?thesis
    proof (cases c rule: wf_ctx.cases)
      case 1
      with finished have "rpn_e e = rpn"
        using pop len pop_rest_eq [of out "pend_e e" ?cnt buf "[]"] by (auto dest: pend_not_par)
      with 1 finished show ?thesis by auto
    next
      case (2 l p c')
      with finished have False
        using pop len pop_rest_eq [of out "pend_e e" ?cnt buf "ctx_stk c"] by (auto dest: pend_not_par)
      then show ?thesis ..
    qed
  qed
qed


lemma sy_loop_no_overrun:
  "length stk + length out + length ts \<le> cnt \<Longrightarrow>
   case sy_loop cnt i prev ts (stk, out) of
     SY_Ok (stk', out') \<Rightarrow> length stk' + length out' \<le> length stk + length out + length ts
   | SY_Error j m \<Rightarrow> True
   | SY_Overrun \<Rightarrow> False"
proof (induction ts arbitrary: stk out i prev)
  case (Cons t ts)
  then have bound: "case sy_step cnt i t prev (stk, out) of
     SY_Ok (stk', out') \<Rightarrow> length stk' + length out' \<le> Suc (length stk + length out)
   | SY_Error j m \<Rightarrow> True
   | SY_Overrun \<Rightarrow> False"
    by (intro sy_step_bound) simp
  show ?case
  proof (cases "sy_step cnt i t prev (stk, out)")
    case (SY_Ok p)
    with bound Cons.prems Cons.IH [of "fst p" "snd p" "i + 1" "Some (op t)"] show ?thesis
      by (auto split: sy_result.splits)
  qed (use bound in auto)
qed simp

lemma pop_rest_no_overrun:
  "length out + length stk \<le> cnt + 1 \<Longrightarrow>
   case pop_rest cnt buf stk out of
     SY_Ok out' \<Rightarrow> length out' = length stk + length out
   | SY_Error j m \<Rightarrow> True
   | SY_Overrun \<Rightarrow> False"
proof (induction stk arbitrary: out)
  case (Cons t stk)
  from Cons.IH [of "out @ [t]"] Cons.prems show ?case
    by (auto split: sy_result.splits)
qed simp

lemma shunting_yard_no_overrun: "shunting_yard buf \<noteq> SY_Overrun"
proof -
  have bound: "case sy_loop (length buf) 0 None buf ([], []) of
     SY_Ok (stk', out') \<Rightarrow> length stk' + length out' \<le> length buf
   | SY_Error j m \<Rightarrow> True
   | SY_Overrun \<Rightarrow> False"
    using sy_loop_no_overrun [of "[]" "[]" buf "length buf" 0 None]
    by (auto split: sy_result.splits)
  show ?thesis
  proof (cases "sy_loop (length buf) 0 None buf ([], [])")
    case (SY_Ok p)
    with bound pop_rest_no_overrun [of "snd p" "fst p" "length buf" buf] show ?thesis
      by (cases p; cases "pop_rest (length buf) buf (fst p) (snd p)")
        (auto simp: shunting_yard_def Let_def split: if_splits)
  qed (use bound in \<open>auto simp: shunting_yard_def Let_def\<close>)
qed

section \<open>Evaluation\<close>

lemma eval_run:
  assumes def: "\<forall>t \<in> V. m t \<noteq> - 1"
  shows "wf_f f \<Longrightarrow> vars_f f \<subseteq> V \<Longrightarrow> length stack + need_f f \<le> MAX_STACK \<Longrightarrow>
     eval_loop (rpn_f f @ ts) m stack = eval_loop ts m (sem_f m f # stack)"
  and "wf_e e \<Longrightarrow> vars_e e \<subseteq> V \<Longrightarrow> length stack + need_e e \<le> MAX_STACK \<Longrightarrow>
     eval_loop (rpn_e e @ ts) m stack = eval_loop ts m (sem_e m e # stack)"
proof (induction f and e arbitrary: stack ts and stack ts)
  case (Bin e t f)
  have "eval_loop (rpn_e e @ rpn_f f @ t # ts) m stack = eval_loop (t # ts) m (sem_f m f # sem_e m e # stack)"
    using Bin.prems by (simp add: Bin.IH)
  then show ?case
    using Bin.prems by (auto simp: is_binop_def)
qed (use def in auto)

text \<open>An undefined variable or a full stack ends the evaluation with -1.\<close>

lemma eval_fail:
  "wf_f f \<Longrightarrow> \<not> ((\<forall>t \<in> vars_f f. m t \<noteq> - 1) \<and> length stack + need_f f \<le> MAX_STACK) \<Longrightarrow>
     eval_loop (rpn_f f @ ts) m stack = Some (- 1)"
  "wf_e e \<Longrightarrow> \<not> ((\<forall>t \<in> vars_e e. m t \<noteq> - 1) \<and> length stack + need_e e \<le> MAX_STACK) \<Longrightarrow>
     eval_loop (rpn_e e @ ts) m stack = Some (- 1)"
proof (induction f and e arbitrary: stack ts and stack ts)
  case (Bin e t f)
  show ?case
  proof (cases "(\<forall>t \<in> vars_e e. m t \<noteq> - 1) \<and> length stack + need_e e \<le> MAX_STACK")
    case True
    have "eval_loop (rpn_e e @ rpn_f f @ t # ts) m stack = eval_loop (rpn_f f @ t # ts) m (sem_e m e # stack)"
      using True Bin.prems by (intro eval_run(2) [where V = "vars_e e"]) auto
    also have "\<dots> = Some (- 1)"
      using True Bin.prems by (intro Bin.IH(2)) auto
    finally show ?thesis by simp
  next
    case False
    then have "eval_loop (rpn_e e @ rpn_f f @ t # ts) m stack = Some (- 1)"
      using Bin.prems by (intro Bin.IH(1)) auto
    then show ?thesis by simp
  qed
qed auto

lemma eval_rpn:
  assumes "wf_e e"
  shows "tst_bool_expr_eval (rpn_e e) m =
     Some (if (\<forall>t \<in> vars_e e. m t \<noteq> - 1) \<and> need_e e \<le> MAX_STACK then sem_e m e else - 1)"
  using assms eval_run(2) [of "vars_e e" m e "[]" "[]"] eval_fail(2) [of e m "[]" "[]"]
  by (auto simp: tst_bool_expr_eval_def)

lemma set_rpn_src: "set (rpn_f f) \<subseteq> set (src_f f)" "set (rpn_e e) \<subseteq> set (src_e e)"
  by (induction f and e) auto

primrec par_depth_f :: "fac \<Rightarrow> nat" and par_depth_e :: "exp \<Rightarrow> nat" where
  "par_depth_f (Var t) = 0"
| "par_depth_f (Neg t f) = par_depth_f f"
| "par_depth_f (Par l e r) = Suc (par_depth_e e)"
| "par_depth_e (Fac f) = par_depth_f f"
| "par_depth_e (Bin e t f) = max (par_depth_e e) (par_depth_f f)"

lemma need_le_depth: "need_f f \<le> par_depth_f f + 1" "need_e e \<le> par_depth_e e + 2"
  by (induction f and e) auto

text \<open>Reading a result that was computed for a concrete expression.\<close>

lemma sy_okE:
  assumes "case r of SY_Ok x \<Rightarrow> P x | _ \<Rightarrow> False"
  obtains x where "r = SY_Ok x" "P x"
  using assms by (cases r) auto

lemma parsedE:
  assumes "case r of Parsed (Some x) \<Rightarrow> P x | _ \<Rightarrow> False"
  obtains x where "r = Parsed (Some x)" "P x"
  using assms by (cases r) (auto split: option.splits)

declare scan.simps [simp del]

section \<open>Properties\<close>

text \<open>C1. The shunting-yard pass accepts a non-empty token sequence exactly when it is an expression
  of the grammar (balanced parentheses, operands and operations in the right places), and what it
  returns is the postfix order of that expression: the two binary operations group to the left with
  equal precedence and a negation applies to the operand that follows it.\<close>

theorem shunting_yard_iff_grammar:
  assumes "buf \<noteq> []"
  shows "shunting_yard buf = SY_Ok rpn \<longleftrightarrow> (\<exists>e. wf_e e \<and> src_e e = buf \<and> rpn_e e = rpn)"
  using shunting_yard_sound [OF assms] shunting_yard_complete by metis

theorem shunting_yard_iff_grammar_witness:
  "tokens ''!(A|B)&C'' \<noteq> [] \<and>
   (\<exists>e. wf_e e \<and> src_e e = tokens ''!(A|B)&C''
      \<and> map tok_text (rpn_e e) = [''A'', ''B'', ''|'', ''!'', ''C'', ''&''])"
proof -
  have ne: "tokens ''!(A|B)&C'' \<noteq> []" by code_simp
  have "case shunting_yard (tokens ''!(A|B)&C'') of
      SY_Ok rpn \<Rightarrow> map tok_text rpn = [''A'', ''B'', ''|'', ''!'', ''C'', ''&''] | _ \<Rightarrow> False"
    by code_simp
  then obtain rpn where "shunting_yard (tokens ''!(A|B)&C'') = SY_Ok rpn"
    and "map tok_text rpn = [''A'', ''B'', ''|'', ''!'', ''C'', ''&'']"
    by (rule sy_okE)
  then show ?thesis using ne shunting_yard_iff_grammar [OF ne] by metis
qed


text \<open>C2. Evaluating a parsed expression gives the value the grammar assigns to it under the variable
  map, without touching a cell outside the stack. The result is -1 exactly when some variable is
  undefined or the expression needs more than 16 stack cells.\<close>

theorem bool_expr_eval_correct:
  assumes "tst_bool_expr_parse mem expr = Parsed (Some rpn)"
  shows "\<exists>e. wf_e e \<and> src_e e = tokens expr \<and>
     (\<forall>m. tst_bool_expr_eval rpn m =
        Some (if (\<forall>t \<in> vars_e e. m t \<noteq> - 1) \<and> need_e e \<le> MAX_STACK then sem_e m e else - 1))"
proof -
  from assms have "tokens expr \<noteq> []" "shunting_yard (tokens expr) = SY_Ok rpn"
    by (auto simp: tst_bool_expr_parse_eq split: if_splits sy_result.splits)
  then obtain e where "wf_e e" "src_e e = tokens expr" "rpn_e e = rpn"
    by (auto dest: shunting_yard_sound)
  then show ?thesis using eval_rpn by blast
qed

definition demo_map :: "tst_expr_tok \<Rightarrow> int" where
  "demo_map t = (if tok_text t = ''B'' then 0 else 1)"

theorem bool_expr_eval_correct_witness:
  "\<exists>rpn. tst_bool_expr_parse (\<lambda>_. True) ''A & !B'' = Parsed (Some rpn) \<and>
     tst_bool_expr_eval rpn demo_map = Some 1 \<and>
     (\<exists>e. wf_e e \<and> src_e e = tokens ''A & !B'' \<and> sem_e demo_map e = 1)"
proof -
  have "case tst_bool_expr_parse (\<lambda>_. True) ''A & !B'' of
      Parsed (Some rpn) \<Rightarrow> tst_bool_expr_eval rpn demo_map = Some 1 | _ \<Rightarrow> False"
    by code_simp
  then obtain rpn where p: "tst_bool_expr_parse (\<lambda>_. True) ''A & !B'' = Parsed (Some rpn)"
    and v: "tst_bool_expr_eval rpn demo_map = Some 1"
    by (rule parsedE)
  from bool_expr_eval_correct [OF p] obtain e where e: "wf_e e" "src_e e = tokens ''A & !B''"
    and ev: "\<forall>m. tst_bool_expr_eval rpn m =
        Some (if (\<forall>t \<in> vars_e e. m t \<noteq> - 1) \<and> need_e e \<le> MAX_STACK then sem_e m e else - 1)"
    by blast
  have "(if (\<forall>t \<in> vars_e e. demo_map t \<noteq> - 1) \<and> need_e e \<le> MAX_STACK then sem_e demo_map e else - 1) = 1"
    using spec [OF ev, of demo_map] v by (simp only: option.inject)
  then have "sem_e demo_map e = 1" by (simp split: if_splits)
  with p v e show ?thesis by blast
qed


text \<open>C29. Printing the postfix form and tokenizing the printed text gives the same words back, for every
  parsed expression whose quoted strings are closed.\<close>

theorem bool_expr_print_roundtrip:
  assumes "tst_bool_expr_parse mem expr = Parsed (Some rpn)" and "quotes_closed expr"
  shows "\<exists>buf. tokenize (tst_bool_expr_print rpn) (Some []) = (Some buf, length buf)
     \<and> map tok_text buf = map tok_text rpn"
proof -
  from assms have ne: "tokens expr \<noteq> []" and sy: "shunting_yard (tokens expr) = SY_Ok rpn"
    by (auto simp: tst_bool_expr_parse_eq split: if_splits sy_result.splits)
  have "set rpn \<subseteq> set (tokens expr)"
    using shunting_yard_sound [OF ne sy] set_rpn_src(2) by metis
  then have "\<forall>w \<in> set (map tok_text rpn). valid_word w"
    using tokens_valid [OF assms(2)] by auto
  then show ?thesis by (simp add: tokenize_eq print_join tokens_join)
qed

theorem bool_expr_print_roundtrip_witness:
  "quotes_closed ''A|B=\"x y\"'' \<and>
   (\<exists>rpn. tst_bool_expr_parse (\<lambda>_. True) ''A|B=\"x y\"'' = Parsed (Some rpn) \<and>
      (\<exists>buf. tokenize (tst_bool_expr_print rpn) (Some []) = (Some buf, length buf)
         \<and> map tok_text buf = map tok_text rpn))"
proof -
  have q: "quotes_closed ''A|B=\"x y\"''" by code_simp
  have "case tst_bool_expr_parse (\<lambda>_. True) ''A|B=\"x y\"'' of Parsed (Some rpn) \<Rightarrow> True | _ \<Rightarrow> False"
    by code_simp
  then obtain rpn where p: "tst_bool_expr_parse (\<lambda>_. True) ''A|B=\"x y\"'' = Parsed (Some rpn)"
    by (rule parsedE)
  from bool_expr_print_roundtrip [OF p q] p q show ?thesis by blast
qed

text \<open>C31. The evaluation stack of 16 cells is only a limit on nesting: an expression with at most 14
  levels of parentheses whose variables are all defined never runs out of it, however long it is.\<close>

theorem bool_expr_stack_suffices:
  assumes "wf_e e" and "par_depth_e e \<le> 14" and "\<forall>t \<in> vars_e e. m t \<noteq> - 1"
  shows "tst_bool_expr_eval (rpn_e e) m = Some (sem_e m e)"
  using assms need_le_depth(2) [of e] by (simp add: eval_rpn MAX_STACK_def)

theorem bool_expr_stack_suffices_witness:
  "let t = \<lparr>op = TST_OP_VAR, tok = ''A'', tok_len = 1\<rparr>; e = Fac (Var t) in
   wf_e e \<and> par_depth_e e \<le> 14 \<and> (\<forall>t \<in> vars_e e. demo_map t \<noteq> - 1)
   \<and> tst_bool_expr_eval (rpn_e e) demo_map = Some (sem_e demo_map e)"
  using bool_expr_stack_suffices [of "Fac (Var \<lparr>op = TST_OP_VAR, tok = ''A'', tok_len = 1\<rparr>)" demo_map]
  by (simp add: Let_def demo_map_def)

end
