(* ===== verification/Kconfig.thy ===== *)
theory Kconfig
  imports Bool_Expr
begin

text \<open>
  \<^verbatim>\<open>lib/tst_kconfig.c\<close> and \<^verbatim>\<open>include/tst_kconfig.h\<close>: kernel configuration constraints. A test lists
  boolean expressions over \<^verbatim>\<open>CONFIG_\<close> variables; the library parses them, collects the variables,
  scans the kernel configuration file line by line for their values and evaluates the
  expressions.

  The environment a run sees (environment variable, files, kernel release) is the record \<open>kenv\<close>.
  A structure's \<^verbatim>\<open>val\<close> pointer that was never assigned is \<open>None\<close>. \<open>KC_UB\<close> stands for the
  undefined behaviour of reading such a pointer or characters behind the end of a line.
\<close>

section \<open>Data\<close>

record tst_kconfig_var =
  id :: cstr
  id_len :: nat
  choice :: char
  val :: "cstr option"

record kenv =
  KCONFIG_PATH :: "cstr option"
  file_exists :: "cstr \<Rightarrow> bool"
  release :: cstr
  open_file :: "cstr \<Rightarrow> cstr option"
  zcat_file :: "cstr \<Rightarrow> cstr option"

text \<open>How a call ends when it does not return: \<^verbatim>\<open>tst_brk\<close> with a result type and a message, or
  undefined behaviour. What was logged before is not part of it.\<close>

datatype kc_stop = KC_Brk ttype cstr | KC_UB

section \<open>Locating and reading the configuration\<close>

definition kconfig_path :: "kenv \<Rightarrow> nat \<Rightarrow> log \<times> cstr option" where
  "kconfig_path env path_buf_len =
     (let warn = (case KCONFIG_PATH env of
                    None \<Rightarrow> []
                  | Some path \<Rightarrow> [(TWARN, ''KCONFIG_PATH='' @ squoted path @ '' does not exist'')]);
          debian = snprintf path_buf_len (''/boot/config-'' @ release env);
          clear_linux = snprintf path_buf_len (''/lib/kernel/config-'' @ release env)
      in
      if (case KCONFIG_PATH env of None \<Rightarrow> False | Some path \<Rightarrow> file_exists env path)
      then ([], KCONFIG_PATH env)
      else if file_exists env ''/proc/config.gz'' then (warn, Some ''/proc/config.gz'')
      else if file_exists env debian then (warn, Some debian)
      else if file_exists env clear_linux then (warn, Some clear_linux)
      else (warn @ [(TINFO, ''Couldn'' @ [CHR 0x27] @ ''t locate kernel config!'')], None))"

text \<open>The stream \<^verbatim>\<open>open_kconfig\<close> returns is the text it delivers; \<open>Inr None\<close> is the null pointer.\<close>

definition open_kconfig :: "kenv \<Rightarrow> kc_stop + (log \<times> cstr option)" where
  "open_kconfig env =
     (case kconfig_path env 1024 of
        (l, None) \<Rightarrow> Inr (l, None)
      | (l, Some path) \<Rightarrow>
          (let is_gzip = (strstr path ''.gz'' \<noteq> None);
               fp = (if is_gzip then zcat_file env path else open_file env path)
           in case fp of
                None \<Rightarrow> Inl (KC_Brk TBROK (''Failed to open '' @ squoted path))
              | Some text \<Rightarrow> Inr (l @ [(TINFO, ''Parsing kernel config '' @ squoted path)], Some text)))"

definition is_var_char :: "char \<Rightarrow> bool" where
  "is_var_char c = (isupper c \<or> isdigit c \<or> c = CHR ''_'')"

text \<open>The value a line assigns, read from behind the variable's name. A value ends at white space; a
  line without any behind the value is read beyond its end.\<close>

datatype line_value = LV_None | LV_Overread | LV_y | LV_m | LV_val cstr

definition line_value :: "cstr \<Rightarrow> line_value" where
  "line_value r =
     (let p = dropWhile isspace r in
      if deref p \<noteq> CHR ''='' then LV_None
      else
        let q = dropWhile isspace (tl p);
            val_len = length (takeWhile (\<lambda>c. \<not> isspace c) q)
        in
        if val_len = length q then LV_Overread
        else if val_len = 1 \<and> q ! 0 = CHR ''y'' then LV_y
        else if val_len = 1 \<and> q ! 0 = CHR ''m'' then LV_m
        else LV_val (take val_len q))"

text \<open>The loop over the variables for a line that names the variable at \<open>var\<close>.\<close>

datatype parse_line_result = PL_Ret nat "tst_kconfig_var list" | PL_Overread

fun pl_cons :: "tst_kconfig_var \<Rightarrow> parse_line_result \<Rightarrow> parse_line_result" where
  "pl_cons v (PL_Ret r vs) = PL_Ret r (v # vs)"
| "pl_cons v PL_Overread = PL_Overread"

fun parse_line_vars :: "bool \<Rightarrow> cstr \<Rightarrow> nat \<Rightarrow> tst_kconfig_var list \<Rightarrow> parse_line_result" where
  "parse_line_vars is_not_set var var_len [] = PL_Ret 0 []"
| "parse_line_vars is_not_set var var_len (v # vars) =
     (if id_len v \<noteq> var_len then pl_cons v (parse_line_vars is_not_set var var_len vars)
      else if \<not> strncmp0 (id v) var var_len then pl_cons v (parse_line_vars is_not_set var var_len vars)
      else if is_not_set then PL_Ret 1 (v\<lparr>choice := CHR ''n''\<rparr> # vars)
      else
        case line_value (drop var_len var) of
          LV_None \<Rightarrow> PL_Ret 0 (v # vars)
        | LV_Overread \<Rightarrow> PL_Overread
        | LV_y \<Rightarrow> PL_Ret 1 (v\<lparr>choice := CHR ''y''\<rparr> # vars)
        | LV_m \<Rightarrow> PL_Ret 1 (v\<lparr>choice := CHR ''m''\<rparr> # vars)
        | LV_val x \<Rightarrow>
            pl_cons (v\<lparr>choice := CHR ''v'', val := Some x\<rparr>)
              (parse_line_vars is_not_set var var_len vars))"

definition kconfig_parse_line :: "cstr \<Rightarrow> tst_kconfig_var list \<Rightarrow> parse_line_result" where
  "kconfig_parse_line line0 vars =
     (let line = dropWhile isspace line0;
          is_not_set = (deref line = CHR ''#'')
      in
      if is_not_set \<and> strstr line ''is not set'' = None then PL_Ret 0 vars
      else case strstr line ''CONFIG_'' of
             None \<Rightarrow> PL_Ret 0 vars
           | Some var \<Rightarrow>
               parse_line_vars is_not_set var (length (takeWhile is_var_char var)) vars)"

fun read_loop :: "nat \<Rightarrow> cstr list \<Rightarrow> nat \<Rightarrow> tst_kconfig_var list \<Rightarrow> tst_kconfig_var list option" where
  "read_loop vars_len [] vars_found vars = Some vars"
| "read_loop vars_len (line # lines) vars_found vars =
     (case kconfig_parse_line line vars of
        PL_Overread \<Rightarrow> None
      | PL_Ret r vars' \<Rightarrow>
          (let found = (if r \<noteq> 0 then vars_found + 1 else vars_found) in
           if found = vars_len then Some vars'
           else read_loop vars_len lines found vars'))"

definition LINE_BUF :: nat where "LINE_BUF = 128"

definition tst_kconfig_read :: "kenv \<Rightarrow> tst_kconfig_var list \<Rightarrow> kc_stop + (log \<times> tst_kconfig_var list)" where
  "tst_kconfig_read env vars =
     (case open_kconfig env of
        Inl s \<Rightarrow> Inl s
      | Inr (l, None) \<Rightarrow> Inl (KC_Brk TBROK ''Cannot parse kernel .config'')
      | Inr (l, Some text) \<Rightarrow>
          (case read_loop (length vars) (fgets_all LINE_BUF text) 0 vars of
             None \<Rightarrow> Inl KC_UB
           | Some vars' \<Rightarrow> Inr (l, vars')))"

section \<open>Checking the variables of an expression\<close>

text \<open>\<^verbatim>\<open>kconfigs\<close> is the array before its null pointer. The loop starts at index 1, so an empty array is
  read beyond its end.\<close>

definition array_len :: "cstr list \<Rightarrow> nat option" where
  "array_len kconfigs = (if kconfigs = [] then None else Some (length kconfigs))"

text \<open>\<open>Some i\<close> is the pointer \<^verbatim>\<open>s + i\<close>.\<close>

fun strnchr :: "cstr \<Rightarrow> char \<Rightarrow> nat \<Rightarrow> nat option" where
  "strnchr s c 0 = None"
| "strnchr [] c (Suc n) = None"
| "strnchr (x # s) c (Suc n) = (if x = c then Some 0 else map_option Suc (strnchr s c n))"

definition get_len :: "cstr \<Rightarrow> nat \<Rightarrow> nat" where
  "get_len kconfig len = (case strnchr kconfig (CHR ''='') len of None \<Rightarrow> len | Some i \<Rightarrow> i)"

definition print_err :: "tst_expr_tok \<Rightarrow> nat \<Rightarrow> cstr \<Rightarrow> cstr" where
  "print_err var spaces err =
     tok_text var @ [NEWLINE] @ print_spaces spaces @ ''^'' @ [NEWLINE] @ err @ [NEWLINE, NEWLINE]"

text \<open>The first loop of \<^verbatim>\<open>validate_var\<close>: \<open>Inl\<close> when it returns, \<open>Inr i\<close> when it is left with index \<open>i\<close>.\<close>

function validate_name :: "tst_expr_tok \<Rightarrow> nat \<Rightarrow> (int \<times> cstr) + nat" where
  "validate_name var i =
     (if i \<ge> length (tok var) then Inr i
      else if i \<ge> tok_len var then Inl (0, [])
      else let c = tok var ! i in
        if isupper c \<or> c = CHR ''_'' then validate_name var (i + 1)
        else if isdigit c then validate_name var (i + 1)
        else if c = CHR ''='' then Inr (i + 1)
        else Inl (1, print_err var i ''Unexpected character in variable name''))"
  by pat_completeness auto
termination
  by (relation "measure (\<lambda>(var, i). length (tok var) - i)") auto

text \<open>\<^verbatim>\<open>do { i++; } while (i < var->tok_len && P(var->tok[i]))\<close>, entered with \<open>i\<close> already incremented.\<close>

function skip_while :: "(char \<Rightarrow> bool) \<Rightarrow> tst_expr_tok \<Rightarrow> nat \<Rightarrow> nat" where
  "skip_while P var i = (if i < tok_len var \<and> P (c_at (tok var) i) then skip_while P var (i + 1) else i)"
  by pat_completeness auto
termination
  by (relation "measure (\<lambda>(P, var, i). tok_len var - i)") auto

declare validate_name.simps [simp del] skip_while.simps [simp del]

text \<open>The returned number and the text written to the error stream.\<close>

definition validate_value :: "tst_expr_tok \<Rightarrow> nat \<Rightarrow> int \<times> cstr" where
  "validate_value var i =
     (if c_at (tok var) i = DQUOTE then
        let j = skip_while (\<lambda>c. c \<noteq> DQUOTE) var (i + 1) in
        if j < tok_len var - 1 then (1, print_err var j ''Garbage after a string'')
        else if c_at (tok var) j \<noteq> DQUOTE then (1, print_err var j ''Untermianted string'')
        else (0, [])
      else
        let j = skip_while isalnum var (i + 1) in
        if j < tok_len var then (1, print_err var j ''Invalid character in variable value'')
        else (0, []))"

definition validate_var :: "tst_expr_tok \<Rightarrow> int \<times> cstr" where
  "validate_var var =
     (if tok_len var < 7 \<or> \<not> strncmp0 (tok var) ''CONFIG_'' 7
      then (1, print_err var 0 ''Expected CONFIG_ prefix'')
      else case validate_name var 7 of
             Inl r \<Rightarrow> r
           | Inr i \<Rightarrow>
               (if i \<ge> tok_len var then
                  (if c_at (tok var) (i - 1) = CHR ''='' then (- 1, print_err var i ''Missing value'')
                   else (0, []))
                else validate_value var i))"

abbreviation is_var :: "tst_expr_tok \<Rightarrow> bool" where
  "is_var t \<equiv> op t = TST_OP_VAR"

text \<open>The bitwise or of the results is non-zero exactly when one of them is.\<close>

definition validate_vars :: "tst_expr_tok list list \<Rightarrow> bool \<times> cstr" where
  "validate_vars exprs =
     (let rs = map validate_var (filter is_var (concat exprs))
      in (\<exists>r \<in> set rs. fst r \<noteq> 0, concat (map snd rs)))"

definition get_var_cnt :: "tst_expr_tok list list \<Rightarrow> nat" where
  "get_var_cnt exprs = length (filter is_var (concat exprs))"

section \<open>Collecting the variables\<close>

fun find_var :: "tst_kconfig_var list \<Rightarrow> cstr \<Rightarrow> nat option" where
  "find_var [] var = None"
| "find_var (v # vars) var = (if id v = var then Some 0 else map_option Suc (find_var vars var))"

definition ID_SIZE :: nat where "ID_SIZE = 64"

text \<open>One variable token: the entry it is bound to and the array afterwards. \<open>var_cnt\<close> is the size of
  the array \<open>vars\<close>; the entry is written before it is known whether it stays.\<close>

definition populate_step :: "nat \<Rightarrow> tst_expr_tok \<Rightarrow> tst_kconfig_var list
     \<Rightarrow> kc_stop + (nat \<times> tst_kconfig_var list)" where
  "populate_step var_cnt j vars =
     (if length vars \<ge> var_cnt then Inl KC_UB
      else let n = get_len (tok j) (tok_len j) in
      if n + 1 \<ge> ID_SIZE then Inl (KC_Brk TBROK ''kconfig var id too long!'')
      else
        let v = \<lparr>id = take n (tok j), id_len = n, choice = NUL, val = None\<rparr> in
        case find_var vars (id v) of
          Some k \<Rightarrow> Inr (k, vars)
        | None \<Rightarrow> Inr (length vars, vars @ [v]))"

text \<open>All tokens of all expressions in order. The second component of the result pairs each variable
  token with the index of its entry, its \<^verbatim>\<open>priv\<close> pointer.\<close>

fun populate_toks :: "nat \<Rightarrow> tst_expr_tok list \<Rightarrow> tst_kconfig_var list
     \<Rightarrow> kc_stop + (tst_kconfig_var list \<times> (tst_expr_tok \<times> nat) list)" where
  "populate_toks var_cnt [] vars = Inr (vars, [])"
| "populate_toks var_cnt (j # js) vars =
     (if op j \<noteq> TST_OP_VAR then populate_toks var_cnt js vars
      else case populate_step var_cnt j vars of
             Inl s \<Rightarrow> Inl s
           | Inr (k, vars') \<Rightarrow>
               (case populate_toks var_cnt js vars' of
                  Inl s \<Rightarrow> Inl s
                | Inr (vars'', priv) \<Rightarrow> Inr (vars'', (j, k) # priv)))"

definition populate_vars :: "tst_expr_tok list list
     \<Rightarrow> kc_stop + (tst_kconfig_var list \<times> (tst_expr_tok \<times> nat) list)" where
  "populate_vars exprs = populate_toks (get_var_cnt exprs) (concat exprs) []"

section \<open>Evaluating the constraints\<close>

text \<open>The callback \<^verbatim>\<open>map\<close> for a variable token bound to \<open>v\<close>. \<open>None\<close> is the use of an unassigned pointer.\<close>

definition kmap :: "tst_kconfig_var \<Rightarrow> tst_expr_tok \<Rightarrow> int option" where
  "kmap v t =
     (if choice v = NUL then Some 0
      else case strnchr (tok t) (CHR ''='') (tok_len t) of
             None \<Rightarrow> Some (of_bool (choice v = CHR ''y'' \<or> choice v = CHR ''m''))
           | Some i \<Rightarrow>
               (let w = drop (i + 1) (tok t);
                    len = tok_len t - (i + 1);
                    c0 = CHR ''v'';
                    c1 = (if strncmp0 w ''n'' len then CHR ''n'' else c0);
                    c2 = (if strncmp0 w ''y'' len then CHR ''y'' else c1);
                    c3 = (if strncmp0 w ''m'' len then CHR ''m'' else c2)
                in
                if c3 \<noteq> CHR ''v'' then Some (of_bool (choice v = c3))
                else case val v of
                       None \<Rightarrow> None
                     | Some x \<Rightarrow>
                         (if length x \<noteq> len then Some 0 else Some (of_bool (strncmp0 w x len)))))"

text \<open>The variable tokens the evaluation calls back for: all of them, unless the stack is full before.\<close>

fun eval_calls :: "tst_expr_tok list \<Rightarrow> nat \<Rightarrow> tst_expr_tok list" where
  "eval_calls [] pos = []"
| "eval_calls (t # ts) pos =
     (case op t of
        TST_OP_VAR \<Rightarrow> (if pos \<ge> MAX_STACK then [] else t # eval_calls ts (pos + 1))
      | TST_OP_AND \<Rightarrow> eval_calls ts (pos - 1)
      | TST_OP_OR \<Rightarrow> eval_calls ts (pos - 1)
      | _ \<Rightarrow> eval_calls ts pos)"

definition bound_var :: "tst_kconfig_var list \<Rightarrow> (tst_expr_tok \<times> nat) list \<Rightarrow> tst_expr_tok
     \<Rightarrow> tst_kconfig_var option" where
  "bound_var vars priv t =
     (case map_of priv t of
        None \<Rightarrow> None
      | Some k \<Rightarrow> if k < length vars then Some (vars ! k) else None)"

definition kconfig_eval :: "tst_kconfig_var list \<Rightarrow> (tst_expr_tok \<times> nat) list \<Rightarrow> tst_expr_tok list
     \<Rightarrow> int option" where
  "kconfig_eval vars priv rpn =
     (let m = (\<lambda>t. Option.bind (bound_var vars priv t) (\<lambda>v. kmap v t)) in
      if \<exists>t \<in> set (eval_calls rpn 0). m t = None then None
      else tst_bool_expr_eval rpn (\<lambda>t. the (m t)))"

definition dump_vars :: "tst_kconfig_var list \<Rightarrow> (tst_expr_tok \<times> nat) list \<Rightarrow> tst_expr_tok list \<Rightarrow> log" where
  "dump_vars vars priv rpn =
     (TINFO, ''Variables:'') #
     map (\<lambda>t. case bound_var vars priv t of
                None \<Rightarrow> (TINFO, [])
              | Some v \<Rightarrow>
                  if choice v = NUL then (TINFO, '' '' @ id v @ '' Undefined'')
                  else if choice v = CHR ''v'' then (TINFO, '' '' @ id v @ ''='' @ the (val v))
                  else (TINFO, '' '' @ id v @ ''='' @ [choice v]))
         (filter is_var rpn)"

fun check_exprs :: "tst_kconfig_var list \<Rightarrow> (tst_expr_tok \<times> nat) list
     \<Rightarrow> (cstr \<times> tst_expr_tok list) list \<Rightarrow> bool \<Rightarrow> log \<Rightarrow> kc_stop + (log \<times> bool)" where
  "check_exprs vars priv [] abort_test l = Inr (l, abort_test)"
| "check_exprs vars priv ((s, rpn) # es) abort_test l =
     (case kconfig_eval vars priv rpn of
        None \<Rightarrow> Inl KC_UB
      | Some r \<Rightarrow>
          (if r \<noteq> 1
           then check_exprs vars priv es True
                  (l @ [(TINFO, ''Constrain '' @ squoted s @ '' not satisfied!'')] @ dump_vars vars priv rpn)
           else check_exprs vars priv es abort_test l))"

fun parse_all :: "(nat \<Rightarrow> bool) \<Rightarrow> cstr list \<Rightarrow> kc_stop + tst_expr_tok list list" where
  "parse_all mem [] = Inr []"
| "parse_all mem (s # ss) =
     (case tst_bool_expr_parse mem s of
        Parse_UB \<Rightarrow> Inl KC_UB
      | Parsed None \<Rightarrow> Inl (KC_Brk TBROK ''Invalid kconfig expression!'')
      | Parsed (Some rpn) \<Rightarrow>
          (case parse_all mem ss of Inl e \<Rightarrow> Inl e | Inr rs \<Rightarrow> Inr (rpn # rs)))"

definition tst_kconfig_check :: "kenv \<Rightarrow> (nat \<Rightarrow> bool) \<Rightarrow> cstr list \<Rightarrow> kc_stop + log" where
  "tst_kconfig_check env mem kconfigs =
     (if array_len kconfigs = None then Inl KC_UB
      else case parse_all mem kconfigs of
        Inl s \<Rightarrow> Inl s
      | Inr exprs \<Rightarrow>
          (if fst (validate_vars exprs) then Inl (KC_Brk TBROK ''Invalid kconfig variables!'')
           else case populate_vars exprs of
             Inl s \<Rightarrow> Inl s
           | Inr (vars, priv) \<Rightarrow>
               (case tst_kconfig_read env vars of
                  Inl s \<Rightarrow> Inl s
                | Inr (l, vars') \<Rightarrow>
                    (case check_exprs vars' priv (zip kconfigs exprs) False l of
                       Inl s \<Rightarrow> Inl s
                     | Inr (l', abort_test) \<Rightarrow>
                         (if abort_test
                          then Inl (KC_Brk TCONF
                                 ''Aborting due to unsuitable kernel config, see above!'')
                          else Inr l')))))"

definition tst_kconfig_get :: "kenv \<Rightarrow> cstr \<Rightarrow> kc_stop + char" where
  "tst_kconfig_get env confname =
     (if length confname \<ge> ID_SIZE
      then Inl (KC_Brk TBROK (''Kconfig var name '' @ [DQUOTE] @ confname @ [DQUOTE] @ '' too long''))
      else case tst_kconfig_read env
                  [\<lparr>id = confname, id_len = length confname, choice = NUL, val = None\<rparr>] of
             Inl s \<Rightarrow> Inl s
           | Inr (l, vars) \<Rightarrow> (case vars of v # _ \<Rightarrow> Inr (choice v) | [] \<Rightarrow> Inl KC_UB))"

section \<open>Shape of a constraint variable\<close>

definition value_ok :: "cstr \<Rightarrow> bool" where
  "value_ok v = ((\<exists>q. v = DQUOTE # q @ [DQUOTE] \<and> DQUOTE \<notin> set q)
     \<or> (\<exists>c r. v = c # r \<and> c \<noteq> DQUOTE \<and> (\<forall>x \<in> set r. isalnum x)))"

definition kconfig_word :: "cstr \<Rightarrow> bool" where
  "kconfig_word w = (\<exists>name. (\<forall>x \<in> set name. is_var_char x) \<and>
     (w = ''CONFIG_'' @ name \<or> (\<exists>v. w = ''CONFIG_'' @ name @ ''='' @ v \<and> value_ok v)))"

text \<open>What the tokenizer guarantees of a variable token: it lies inside its string, and the character
  behind it is not a quote.\<close>

definition tok_ok :: "tst_expr_tok \<Rightarrow> bool" where
  "tok_ok t = (tok_len t \<le> length (tok t) \<and>
     (tok_len t < length (tok t) \<longrightarrow> tok t ! tok_len t \<noteq> DQUOTE))"

lemma not_var_char_eq [simp]: "\<not> is_var_char (CHR ''='')"
  by (simp add: is_var_char_def isupper_def isdigit_def)

lemma c_at_text: "i < tok_len t \<Longrightarrow> tok_len t \<le> length (tok t) \<Longrightarrow> c_at (tok t) i = tok_text t ! i"
  by (simp add: c_at_def tok_text_def)

lemma drop_nth: "i < length w \<Longrightarrow> drop i w = w ! i # drop (Suc i) w"
  by (rule Cons_nth_drop_Suc [symmetric])

lemma length_tok_text: "tok_len t \<le> length (tok t) \<Longrightarrow> length (tok_text t) = tok_len t"
  by (simp add: tok_text_def)

lemma skip_while_eq:
  "tok_len t \<le> length (tok t) \<Longrightarrow> i \<le> tok_len t \<Longrightarrow>
   skip_while P t i = i + length (takeWhile P (drop i (tok_text t)))"
proof (induction P t i rule: skip_while.induct)
  case (1 P t i)
  show ?case
  proof (cases "i < tok_len t")
    case True
    then have d: "drop i (tok_text t) = tok_text t ! i # drop (Suc i) (tok_text t)"
      using 1(2) by (intro drop_nth) (simp add: length_tok_text)
    with 1 True show ?thesis
      by (subst skip_while.simps) (simp add: c_at_text)
  next
    case False
    with 1 show ?thesis
      by (subst skip_while.simps) (simp add: length_tok_text)
  qed
qed

lemma validate_name_eq:
  "tok_len t \<le> length (tok t) \<Longrightarrow> i \<le> tok_len t \<Longrightarrow>
   k = i + length (takeWhile is_var_char (drop i (tok_text t))) \<Longrightarrow>
   validate_name t i =
     (if k \<ge> tok_len t then (if tok_len t = length (tok t) then Inr k else Inl (0, []))
      else if tok_text t ! k = CHR ''='' then Inr (k + 1)
      else Inl (1, print_err t k ''Unexpected character in variable name''))"
proof (induction t i arbitrary: k rule: validate_name.induct)
  case (1 t i)
  show ?case
  proof (cases "i < tok_len t")
    case True
    with 1(3) have c: "tok t ! i = tok_text t ! i" by (simp add: tok_text_def)
    have d: "drop i (tok_text t) = tok_text t ! i # drop (Suc i) (tok_text t)"
      using 1(3) True by (intro drop_nth) (simp add: length_tok_text)
    have u: "validate_name t i =
        (if is_var_char (tok_text t ! i) then validate_name t (i + 1)
         else if tok_text t ! i = CHR ''='' then Inr (i + 1)
         else Inl (1, print_err t i ''Unexpected character in variable name''))"
      using True 1(3) by (subst validate_name.simps) (simp add: Let_def c is_var_char_def)
    show ?thesis
    proof (cases "is_var_char (tok_text t ! i)")
      case vc: True
      then have k: "k = (i + 1) + length (takeWhile is_var_char (drop (i + 1) (tok_text t)))"
        using 1(5) d by simp
      have le: "\<not> length (tok t) \<le> i" "\<not> tok_len t \<le> i" "i + 1 \<le> tok_len t"
        using True 1(3) by auto
      consider "isupper (tok t ! i) \<or> tok t ! i = CHR ''_''"
        | "\<not> (isupper (tok t ! i) \<or> tok t ! i = CHR ''_'')" "isdigit (tok t ! i)"
        using vc by (auto simp: c is_var_char_def)
      then have "validate_name t (i + 1) =
         (if k \<ge> tok_len t then (if tok_len t = length (tok t) then Inr k else Inl (0, []))
          else if tok_text t ! k = CHR ''='' then Inr (k + 1)
          else Inl (1, print_err t k ''Unexpected character in variable name''))"
      proof cases
        case up: 1
        show ?thesis by (rule 1(1) [OF le(1,2) refl up 1(3) le(3) k])
      next
        case dg: 2
        show ?thesis by (rule 1(2) [OF le(1,2) refl dg 1(3) le(3) k])
      qed
      with u vc show ?thesis by simp
    next
      case False
      with u d 1(5) True show ?thesis by simp
    qed
  next
    case False
    with 1(3-) show ?thesis
      by (subst validate_name.simps) (auto simp: length_tok_text)
  qed
qed

lemma takeWhile_less_iff: "length (takeWhile P xs) < length xs \<longleftrightarrow> \<not> (\<forall>x \<in> set xs. P x)"
  by (induction xs) auto

lemma takeWhile_butlast:
  "Suc (length (takeWhile (\<lambda>c. c \<noteq> a) u)) = length u \<longleftrightarrow> (\<exists>q. u = q @ [a] \<and> a \<notin> set q)"
proof (induction u)
  case (Cons c u)
  then show ?case by (cases "c = a") (auto simp: Cons_eq_append_conv)
qed simp

lemma validate_value_ok:
  assumes "tok_ok t" "i < tok_len t"
  shows "fst (validate_value t i) = 0 \<longleftrightarrow> value_ok (drop i (tok_text t))"
proof -
  let ?w = "tok_text t" let ?u = "drop (Suc i) ?w"
  have le: "tok_len t \<le> length (tok t)" using assms by (simp add: tok_ok_def)
  have v: "drop i ?w = ?w ! i # ?u" and lu: "length ?u = tok_len t - Suc i"
    using assms le by (simp_all add: drop_nth length_tok_text)
  have c: "c_at (tok t) i = ?w ! i" using assms le by (simp add: c_at_text)
  have sk: "skip_while P t (Suc i) = Suc i + length (takeWhile P ?u)" for P
    using assms le by (simp add: skip_while_eq)
  show ?thesis
  proof (cases "?w ! i = DQUOTE")
    case True
    let ?n = "length (takeWhile (\<lambda>c. c \<noteq> DQUOTE) ?u)"
    have end_quote: "c_at (tok t) (Suc i + ?n) = DQUOTE \<longleftrightarrow> ?n < length ?u"
    proof (cases "?n < length ?u")
      case True
      have "?u ! ?n = DQUOTE" using nth_length_takeWhile [OF True] by simp
      with True lu assms le show ?thesis by (simp add: c_at_text)
    next
      case False
      then have "?n = length ?u" using length_takeWhile_le [of "\<lambda>c. c \<noteq> DQUOTE" ?u] by linarith
      then have "Suc i + ?n = tok_len t" using lu assms by simp
      then show ?thesis using assms False by (auto simp: c_at_def tok_ok_def)
    qed
    have "fst (validate_value t i) = 0 \<longleftrightarrow> \<not> Suc i + ?n < tok_len t - 1 \<and> ?n < length ?u"
      using True c end_quote by (simp add: validate_value_def sk Let_def)
    also have "\<dots> \<longleftrightarrow> Suc ?n = length ?u" using lu assms by linarith
    also have "\<dots> \<longleftrightarrow> value_ok (drop i ?w)"
      unfolding takeWhile_butlast v value_ok_def using True by simp
    finally show ?thesis .
  next
    case False
    have "fst (validate_value t i) = 0 \<longleftrightarrow> \<not> Suc i + length (takeWhile isalnum ?u) < tok_len t"
      using False c by (simp add: validate_value_def sk Let_def)
    also have "\<dots> \<longleftrightarrow> \<not> length (takeWhile isalnum ?u) < length ?u" using lu assms by linarith
    also have "\<dots> \<longleftrightarrow> value_ok (drop i ?w)"
      unfolding takeWhile_less_iff v value_ok_def using False by simp
    finally show ?thesis .
  qed
qed

lemma config_prefix_var_char: "x \<in> set ''CONFIG_'' \<Longrightarrow> is_var_char x"
  by (auto simp: is_var_char_def isupper_def)

lemma takeWhile_name:
  "\<forall>x \<in> set name. is_var_char x \<Longrightarrow> takeWhile is_var_char name = name"
  "\<forall>x \<in> set name. is_var_char x \<Longrightarrow> takeWhile is_var_char (name @ CHR ''='' # v) = name"
  by (simp_all add: takeWhile_eq_all_conv [THEN iffD2] takeWhile_append2)

text \<open>The shape, read from left to right: the longest run of name characters, then nothing or a value.\<close>

lemma kconfig_word_scan:
  "kconfig_word w \<longleftrightarrow>
     (\<exists>r. w = ''CONFIG_'' @ r \<and>
        (let name = takeWhile is_var_char r; rest = dropWhile is_var_char r in
         rest = [] \<or> (hd rest = CHR ''='' \<and> value_ok (tl rest))))"
proof
  assume "kconfig_word w"
  then obtain name where n: "\<forall>x \<in> set name. is_var_char x"
    and w: "w = ''CONFIG_'' @ name \<or> (\<exists>v. w = ''CONFIG_'' @ name @ ''='' @ v \<and> value_ok v)"
    by (auto simp: kconfig_word_def)
  from w show "\<exists>r. w = ''CONFIG_'' @ r \<and>
        (let name = takeWhile is_var_char r; rest = dropWhile is_var_char r in
         rest = [] \<or> (hd rest = CHR ''='' \<and> value_ok (tl rest)))"
  proof
    assume "w = ''CONFIG_'' @ name"
    with n show ?thesis by (intro exI [of _ name]) (auto simp: Let_def dropWhile_eq_Nil_conv)
  next
    assume "\<exists>v. w = ''CONFIG_'' @ name @ ''='' @ v \<and> value_ok v"
    then obtain v where "w = ''CONFIG_'' @ name @ ''='' @ v" "value_ok v" by blast
    with n show ?thesis
      by (intro exI [of _ "name @ CHR ''='' # v"]) (simp add: Let_def dropWhile_append2)
  qed
next
  assume "\<exists>r. w = ''CONFIG_'' @ r \<and>
        (let name = takeWhile is_var_char r; rest = dropWhile is_var_char r in
         rest = [] \<or> (hd rest = CHR ''='' \<and> value_ok (tl rest)))"
  then obtain r where w: "w = ''CONFIG_'' @ r"
    and c: "dropWhile is_var_char r = [] \<or>
      (hd (dropWhile is_var_char r) = CHR ''='' \<and> value_ok (tl (dropWhile is_var_char r)))"
    by (auto simp: Let_def)
  have r: "r = takeWhile is_var_char r @ dropWhile is_var_char r" by simp
  have all: "\<forall>x \<in> set (takeWhile is_var_char r). is_var_char x" by (auto dest: set_takeWhileD)
  from c show "kconfig_word w"
  proof
    assume "dropWhile is_var_char r = []"
    with r have "w = ''CONFIG_'' @ takeWhile is_var_char r" using w by (metis append_Nil2)
    with all show ?thesis unfolding kconfig_word_def by blast
  next
    assume v: "hd (dropWhile is_var_char r) = CHR ''='' \<and> value_ok (tl (dropWhile is_var_char r))"
    show ?thesis
    proof (cases "dropWhile is_var_char r")
      case Nil
      with r have "w = ''CONFIG_'' @ takeWhile is_var_char r" using w by (metis append_Nil2)
      with all show ?thesis unfolding kconfig_word_def by blast
    next
      case (Cons e v')
      with v r have "w = ''CONFIG_'' @ takeWhile is_var_char r @ ''='' @ v'" "value_ok v'"
        using w by auto
      with all show ?thesis unfolding kconfig_word_def by blast
    qed
  qed
qed

lemma strncmp_prefix:
  assumes "tok_len t \<le> length (tok t)"
  shows "tok_len t < 7 \<or> \<not> strncmp0 (tok t) ''CONFIG_'' 7 \<longleftrightarrow> \<not> (\<exists>r. tok_text t = ''CONFIG_'' @ r)"
proof -
  have l7: "length ''CONFIG_'' = 7" by simp
  have "(\<exists>r. tok_text t = ''CONFIG_'' @ r) \<longleftrightarrow> take 7 (tok_text t) = ''CONFIG_''"
    by (metis append_eq_conv_conj append_take_drop_id l7)
  also have "\<dots> \<longleftrightarrow> 7 \<le> tok_len t \<and> take 7 (tok t) = ''CONFIG_''"
  proof
    assume a: "take 7 (tok_text t) = ''CONFIG_''"
    then have "7 \<le> length (tok_text t)" by (metis l7 length_take min.absorb_iff2 min.commute)
    then have "7 \<le> tok_len t" using assms by (simp add: length_tok_text)
    with a show "7 \<le> tok_len t \<and> take 7 (tok t) = ''CONFIG_''"
      by (simp add: tok_text_def min_absorb1)
  qed (simp add: tok_text_def min_def)
  also have "take 7 (tok t) = ''CONFIG_'' \<longleftrightarrow> strncmp0 (tok t) ''CONFIG_'' 7"
    by (simp add: strncmp0_take)
  finally show ?thesis by auto
qed

lemma drop_config: "drop (7 + n) (''CONFIG_'' @ r) = drop n r"
proof -
  have "drop (7 + n) (''CONFIG_'' @ r) = drop n (drop 7 (''CONFIG_'' @ r))"
    by (simp only: drop_drop add.commute)
  then show ?thesis by simp
qed

lemma validate_var_word:
  assumes ok: "tok_ok t"
  shows "fst (validate_var t) = 0 \<longleftrightarrow> kconfig_word (tok_text t)"
proof (cases "\<exists>r. tok_text t = ''CONFIG_'' @ r")
  case False
  then have "\<not> kconfig_word (tok_text t)" by (auto simp: kconfig_word_scan)
  with False show ?thesis
    using ok strncmp_prefix [of t] by (auto simp: validate_var_def tok_ok_def)
next
  case True
  then obtain r where r: "tok_text t = ''CONFIG_'' @ r" by blast
  have le: "tok_len t \<le> length (tok t)" using ok by (simp add: tok_ok_def)
  have len: "tok_len t = 7 + length r" using r length_tok_text [OF le] by simp
  let ?n = "length (takeWhile is_var_char r)" let ?rest = "dropWhile is_var_char r"
  have word: "kconfig_word (tok_text t) \<longleftrightarrow>
      ?rest = [] \<or> (hd ?rest = CHR ''='' \<and> value_ok (tl ?rest))"
    using r by (auto simp: kconfig_word_scan Let_def)
  have split: "length r = ?n + length ?rest" by (metis length_append takeWhile_dropWhile_id)
  have pre: "\<not> (tok_len t < 7 \<or> \<not> strncmp0 (tok t) ''CONFIG_'' 7)"
    using strncmp_prefix [OF le] True by blast
  have name: "validate_name t 7 =
     (if 7 + ?n \<ge> tok_len t then (if tok_len t = length (tok t) then Inr (7 + ?n) else Inl (0, []))
      else if tok_text t ! (7 + ?n) = CHR ''='' then Inr (7 + ?n + 1)
      else Inl (1, print_err t (7 + ?n) ''Unexpected character in variable name''))"
    by (rule validate_name_eq [OF le]) (simp_all add: len r)
  show ?thesis
  proof (cases "?rest = []")
    case True
    then have n: "7 + ?n = tok_len t" using len split by simp
    have "c_at (tok t) (7 + ?n - 1) \<noteq> CHR ''=''"
    proof -
      have vc: "\<forall>x \<in> set (tok_text t). is_var_char x"
        using r True config_prefix_var_char by (auto simp: dropWhile_eq_Nil_conv)
      have "7 + ?n - 1 < tok_len t" using n by simp
      then have "c_at (tok t) (7 + ?n - 1) \<in> set (tok_text t)"
        using le by (simp add: c_at_text length_tok_text)
      with vc show ?thesis by auto
    qed
    then have "fst (validate_var t) = 0"
      using n pre name by (cases "tok_len t = length (tok t)") (simp_all add: validate_var_def)
    then show ?thesis using True word by simp
  next
    case False
    have "drop (7 + ?n) (tok_text t) = ?rest"
      by (simp only: r drop_config dropWhile_eq_drop)
    then have nth: "tok_text t ! (7 + ?n) = hd ?rest" and dr: "drop (7 + ?n + 1) (tok_text t) = tl ?rest"
      using False by (metis hd_drop_conv_nth drop_eq_Nil2 not_le) (metis \<open>drop (7 + ?n) (tok_text t) = ?rest\<close> drop_Suc drop_drop tl_drop Suc_eq_plus1 add.commute)
    have lt: "7 + ?n < tok_len t" using False split len by simp
    show ?thesis
    proof (cases "hd ?rest = CHR ''=''")
      case True
      have "fst (validate_var t) = 0 \<longleftrightarrow> 7 + ?n + 1 < tok_len t \<and> value_ok (tl ?rest)"
      proof (cases "7 + ?n + 1 < tok_len t")
        case True
        then show ?thesis
          using validate_value_ok [OF ok True] pre name nth lt \<open>hd ?rest = CHR ''=''\<close> dr
          by (simp add: validate_var_def)
      next
        case False
        have "c_at (tok t) (7 + ?n) = CHR ''=''"
          using lt le nth \<open>hd ?rest = CHR ''=''\<close> by (simp add: c_at_text)
        then show ?thesis
          using False pre name nth lt \<open>hd ?rest = CHR ''=''\<close> by (simp add: validate_var_def)
      qed
      moreover have "value_ok (tl ?rest) \<Longrightarrow> 7 + ?n + 1 < tok_len t"
      proof -
        assume "value_ok (tl ?rest)"
        then have "tl ?rest \<noteq> []" by (auto simp: value_ok_def)
        then show "7 + ?n + 1 < tok_len t" using split len by (cases ?rest) (auto simp: neq_Nil_conv)
      qed
      ultimately show ?thesis using False True word by auto
    next
      case False
      then show ?thesis using \<open>?rest \<noteq> []\<close> pre name nth lt word by (simp add: validate_var_def)
    qed
  qed
qed


text \<open>Every variable token of the tokenizer has what \<open>tok_ok\<close> asks for.\<close>

lemma special_not_quote: "is_op_char c \<or> is_blank_char c \<Longrightarrow> c \<noteq> DQUOTE"
  by (auto simp: is_op_char_def is_blank_char_def)

lemma char_to_op_special: "is_op_char c \<Longrightarrow> char_to_op c \<noteq> TST_OP_VAR"
  by (auto simp: is_op_char_def char_to_op_def)

lemma tok_ok_at:
  "t \<in> set (tok_at (q @ s) (length q)) \<Longrightarrow> s = [] \<or> hd s \<noteq> DQUOTE \<Longrightarrow> tok_ok t"
  by (cases s) (auto simp: tok_at_def tok_ok_def nth_append split: if_splits)

lemma scan_tok_ok:
  "t \<in> set (scan (q @ s) (length q) s) \<Longrightarrow> op t = TST_OP_VAR \<Longrightarrow> tok_ok t"
proof (induction s arbitrary: q rule: length_induct)
  case (1 s)
  note IH = 1(1) [rule_format]
  from 1(2) show ?case
  proof (cases rule: scan_cases)
    case Nil
    then show ?thesis using tok_ok_at [of t q "[]"] by simp
  next
    case (op c r)
    moreover have "t \<notin> set (tok_at s 1)"
      using op 1(3) char_to_op_special [of c] by (auto simp: tok_at_def)
    ultimately show ?thesis
      using IH [of r "[]"] 1(3) tok_ok_at [of t q s] special_not_quote [of c] by auto
  next
    case (blank c r)
    then show ?thesis
      using IH [of r "[]"] 1(3) tok_ok_at [of t q s] special_not_quote [of c] by auto
  next
    case (quote r u v)
    then show ?thesis using IH [of v "q @ DQUOTE # u"] 1(3) by auto
  next
    case (other c r)
    then show ?thesis using IH [of r "q @ [c]"] 1(3) by auto
  qed
qed

lemma tokens_tok_ok: "t \<in> set (tokens expr) \<Longrightarrow> op t = TST_OP_VAR \<Longrightarrow> tok_ok t"
  using scan_tok_ok [of t "[]" expr] by simp

lemma parsed_tokens:
  assumes "tst_bool_expr_parse mem expr = Parsed (Some rpn)"
  shows "\<exists>e. wf_e e \<and> src_e e = tokens expr \<and> rpn_e e = rpn"
    and "set rpn \<subseteq> set (tokens expr)"
proof -
  from assms have ne: "tokens expr \<noteq> []" and sy: "shunting_yard (tokens expr) = SY_Ok rpn"
    by (auto simp: tst_bool_expr_parse_eq split: if_splits sy_result.splits)
  then show e: "\<exists>e. wf_e e \<and> src_e e = tokens expr \<and> rpn_e e = rpn"
    by (rule shunting_yard_sound)
  from e show "set rpn \<subseteq> set (tokens expr)"
    using set_rpn_src(2) by metis
qed

section \<open>The variable array\<close>

definition name_of :: "tst_expr_tok \<Rightarrow> cstr" where
  "name_of t = takeWhile (\<lambda>c. c \<noteq> CHR ''='') (tok_text t)"

lemma strnchr_eq:
  "strnchr s c n = (if c \<in> set (take n s) then Some (length (takeWhile (\<lambda>x. x \<noteq> c) (take n s))) else None)"
  by (induction s c n rule: strnchr.induct) auto

lemma get_len_eq: "tok_len t \<le> length (tok t) \<Longrightarrow> get_len (tok t) (tok_len t) = length (name_of t)"
proof (cases "CHR ''='' \<in> set (tok_text t)")
  case True
  then show ?thesis by (simp add: get_len_def strnchr_eq name_of_def tok_text_def)
next
  case False
  then have "name_of t = tok_text t" by (auto simp: name_of_def takeWhile_eq_all_conv)
  moreover assume "tok_len t \<le> length (tok t)"
  ultimately show ?thesis using False by (simp add: get_len_def strnchr_eq tok_text_def)
qed

lemma take_get_len:
  assumes "tok_len t \<le> length (tok t)"
  shows "take (get_len (tok t) (tok_len t)) (tok t) = name_of t"
proof -
  have "length (name_of t) \<le> tok_len t"
    using assms length_takeWhile_le [of _ "tok_text t"] by (simp add: name_of_def length_tok_text)
  then have "take (length (name_of t)) (tok t) = take (length (name_of t)) (tok_text t)"
    by (simp add: tok_text_def min_absorb1)
  also have "\<dots> = name_of t" by (simp add: name_of_def takeWhile_eq_take [symmetric])
  finally show ?thesis by (simp add: get_len_eq assms)
qed

lemma find_var_Some: "find_var vars n = Some k \<Longrightarrow> k < length vars \<and> id (vars ! k) = n"
  by (induction vars arbitrary: k) (auto split: if_splits)

lemma find_var_None: "find_var vars n = None \<longleftrightarrow> n \<notin> id ` set vars"
  by (induction vars) auto

definition wf_vars :: "tst_kconfig_var list \<Rightarrow> bool" where
  "wf_vars vars = (distinct (map id vars) \<and> (\<forall>v \<in> set vars. id_len v = length (id v)))"

definition fresh_vars :: "tst_kconfig_var list \<Rightarrow> bool" where
  "fresh_vars vars = (\<forall>v \<in> set vars. choice v = NUL \<and> val v = None)"

lemma populate_step_spec:
  assumes "tok_len j \<le> length (tok j)" "wf_vars vars" "fresh_vars vars" "length vars < n"
  shows "case populate_step n j vars of
     Inr (k, vars') \<Rightarrow> (\<exists>ext. vars' = vars @ ext) \<and> wf_vars vars' \<and> fresh_vars vars'
        \<and> length vars' \<le> length vars + 1
        \<and> k < length vars' \<and> id (vars' ! k) = name_of j
   | Inl s \<Rightarrow> s = KC_Brk TBROK ''kconfig var id too long!'' \<and> ID_SIZE \<le> length (name_of j) + 1"
proof (cases "length (name_of j) + 1 \<ge> ID_SIZE")
  case True
  with assms show ?thesis by (simp add: populate_step_def get_len_eq)
next
  case False
  have t: "take (length (name_of j)) (tok j) = name_of j"
    using take_get_len [OF assms(1)] by (simp add: get_len_eq assms(1))
  show ?thesis
  proof (cases "find_var vars (name_of j)")
    case None
    with False assms t find_var_None [of vars "name_of j"] show ?thesis
      by (auto simp: populate_step_def Let_def get_len_eq wf_vars_def fresh_vars_def nth_append)
  next
    case (Some k)
    with False assms t show ?thesis
      by (auto simp: populate_step_def Let_def get_len_eq dest: find_var_Some)
  qed
qed

text \<open>What \<open>populate_toks\<close> builds: a longer array without duplicate names in which every variable token
  is bound to the entry of its name.\<close>

definition bound_ok :: "tst_kconfig_var list \<Rightarrow> (tst_expr_tok \<times> nat) list \<Rightarrow> bool" where
  "bound_ok vars priv = (\<forall>(t, k) \<in> set priv. k < length vars \<and> id (vars ! k) = name_of t)"

lemma bound_ok_append: "bound_ok vars priv \<Longrightarrow> bound_ok (vars @ ext) priv"
  by (auto simp: bound_ok_def nth_append)

lemma populate_toks_spec:
  assumes "\<forall>j \<in> set js. is_var j \<longrightarrow> tok_len j \<le> length (tok j)" "wf_vars vars" "fresh_vars vars"
    and "length vars + length (filter is_var js) \<le> n"
  shows "case populate_toks n js vars of
     Inr (vars', priv) \<Rightarrow> (\<exists>ext. vars' = vars @ ext) \<and> wf_vars vars' \<and> fresh_vars vars'
        \<and> length vars' \<le> n \<and> map fst priv = filter is_var js \<and> bound_ok vars' priv
   | Inl s \<Rightarrow> s = KC_Brk TBROK ''kconfig var id too long!''
        \<and> (\<exists>j \<in> set js. is_var j \<and> ID_SIZE \<le> length (name_of j) + 1)"
  using assms
proof (induction js arbitrary: vars)
  case Nil
  then show ?case by (auto simp: bound_ok_def)
next
  case (Cons j js)
  show ?case
  proof (cases "is_var j")
    case False
    with Cons.prems have "\<forall>j \<in> set js. is_var j \<longrightarrow> tok_len j \<le> length (tok j)"
      "length vars + length (filter is_var js) \<le> n" by auto
    from Cons.IH [OF this(1) Cons.prems(2,3) this(2)] False show ?thesis
      by (cases "populate_toks n js vars") auto
  next
    case True
    with Cons.prems have room: "tok_len j \<le> length (tok j)" "length vars < n" by auto
    note step = populate_step_spec [OF room(1) Cons.prems(2,3) room(2)]
    show ?thesis
    proof (cases "populate_step n j vars")
      case (Inl s)
      with True step show ?thesis by auto
    next
      case (Inr p)
      obtain k vars' where p: "p = (k, vars')" by (cases p)
      with Inr step obtain ext where vars': "vars' = vars @ ext" "wf_vars vars'" "fresh_vars vars'"
        "length vars' \<le> length vars + 1" "k < length vars'" "id (vars' ! k) = name_of j" by auto
      have "\<forall>j \<in> set js. is_var j \<longrightarrow> tok_len j \<le> length (tok j)"
        "length vars' + length (filter is_var js) \<le> n"
        using Cons.prems True vars' by auto
      note IH = Cons.IH [OF this(1) vars'(2,3) this(2)]
      show ?thesis
      proof (cases "populate_toks n js vars'")
        case (Inl s)
        with IH True Inr p show ?thesis by auto
      next
        case q: (Inr q)
        obtain vars'' priv where q': "q = (vars'', priv)" by (cases q)
        with q IH True Inr p vars' show ?thesis
          by (auto simp: bound_ok_def nth_append)
      qed
    qed
  qed
qed

section \<open>Configuration files\<close>

text \<open>A setting of one variable and the line that states it, as the kernel build writes it.\<close>

datatype setting = Set_y | Set_m | Not_set | Set_val cstr

fun render_line :: "cstr \<times> setting \<Rightarrow> cstr" where
  "render_line (n, Set_y) = n @ ''=y'' @ [NEWLINE]"
| "render_line (n, Set_m) = n @ ''=m'' @ [NEWLINE]"
| "render_line (n, Not_set) = ''# '' @ n @ '' is not set'' @ [NEWLINE]"
| "render_line (n, Set_val x) = n @ ''='' @ x @ [NEWLINE]"

definition config_name :: "cstr \<Rightarrow> bool" where
  "config_name n = (\<exists>r. n = ''CONFIG_'' @ r \<and> (\<forall>x \<in> set r. is_var_char x))"

fun setting_ok :: "setting \<Rightarrow> bool" where
  "setting_ok (Set_val x) = (x \<noteq> [] \<and> x \<noteq> ''y'' \<and> x \<noteq> ''m'' \<and> (\<forall>c \<in> set x. \<not> isspace c))"
| "setting_ok s = True"

text \<open>What a setting leaves in the structure of its variable.\<close>

fun apply_setting :: "setting option \<Rightarrow> tst_kconfig_var \<Rightarrow> tst_kconfig_var" where
  "apply_setting None v = v"
| "apply_setting (Some Set_y) v = v\<lparr>choice := CHR ''y''\<rparr>"
| "apply_setting (Some Set_m) v = v\<lparr>choice := CHR ''m''\<rparr>"
| "apply_setting (Some Not_set) v = v\<lparr>choice := CHR ''n''\<rparr>"
| "apply_setting (Some (Set_val x)) v = v\<lparr>choice := CHR ''v'', val := Some x\<rparr>"

fun tristate :: "setting option \<Rightarrow> bool" where
  "tristate (Some (Set_val x)) = False"
| "tristate None = False"
| "tristate (Some s) = True"

lemma not_space_var_char: "is_var_char c \<Longrightarrow> \<not> isspace c"
  by (auto simp: is_var_char_def isupper_def isdigit_def isspace_def)

lemma not_var_char_space [simp]: "\<not> is_var_char SPACE" "\<not> is_var_char NEWLINE"
  by (simp_all add: is_var_char_def isupper_def isdigit_def)

lemma isspace_simps [simp]: "isspace SPACE" "isspace NEWLINE" "\<not> isspace (CHR ''='')" "\<not> isspace (CHR ''#'')"
  by (simp_all add: isspace_def)

lemma config_name_chars: "config_name n \<Longrightarrow> x \<in> set n \<Longrightarrow> is_var_char x"
proof -
  assume "config_name n" "x \<in> set n"
  then obtain r where "x \<in> set ''CONFIG_'' \<or> x \<in> set r" "\<forall>x \<in> set r. is_var_char x"
    unfolding config_name_def by (metis Un_iff set_append)
  with config_prefix_var_char show "is_var_char x" by blast
qed

lemma config_name_Cons: "config_name n \<Longrightarrow> \<exists>r. n = CHR ''C'' # r"
  by (auto simp: config_name_def)

text \<open>Variables are matched by their whole name.\<close>

lemma match_name:
  assumes "id_len v = length (id v)" "take (length n) var = n"
  shows "id_len v = length n \<and> strncmp0 (id v) var (length n) \<longleftrightarrow> id v = n"
  using assms by (auto simp: strncmp0_take)

text \<open>The text behind the name states \<open>s\<close>.\<close>

fun states_value :: "cstr \<Rightarrow> setting \<Rightarrow> bool" where
  "states_value r Set_y = (line_value r = LV_y)"
| "states_value r Set_m = (line_value r = LV_m)"
| "states_value r Not_set = False"
| "states_value r (Set_val x) = (line_value r = LV_val x)"

lemma parse_line_vars_hit:
  assumes "id_len v = length n" "strncmp0 (id v) var (length n)"
    and "if ns then s = Not_set else states_value (drop (length n) var) s"
  shows "parse_line_vars ns var (length n) (v # vars) =
     (if tristate (Some s) then PL_Ret 1 (apply_setting (Some s) v # vars)
      else pl_cons (apply_setting (Some s) v) (parse_line_vars ns var (length n) vars))"
  using assms by (cases s) (auto split: if_splits)

lemma parse_line_vars_miss:
  assumes "\<not> (id_len v = length n \<and> strncmp0 (id v) var (length n))"
  shows "parse_line_vars ns var (length n) (v # vars) = pl_cons v (parse_line_vars ns var (length n) vars)"
  using assms by auto

lemma parse_line_vars_eq:
  assumes "wf_vars vars" "take (length n) var = n"
    and hit: "if ns then s = Not_set else states_value (drop (length n) var) s"
  shows "parse_line_vars ns var (length n) vars =
     PL_Ret (if n \<in> id ` set vars \<and> tristate (Some s) then 1 else 0)
       (map (\<lambda>v. if id v = n then apply_setting (Some s) v else v) vars)"
  using assms(1)
proof (induction vars)
  case Nil
  then show ?case by simp
next
  case (Cons v vars)
  have IH: "parse_line_vars ns var (length n) vars =
     PL_Ret (if n \<in> id ` set vars \<and> tristate (Some s) then 1 else 0)
       (map (\<lambda>v. if id v = n then apply_setting (Some s) v else v) vars)"
    using Cons.IH Cons.prems by (simp add: wf_vars_def)
  have m: "id_len v = length n \<and> strncmp0 (id v) var (length n) \<longleftrightarrow> id v = n"
    using Cons.prems assms(2) by (intro match_name) (auto simp: wf_vars_def)
  show ?case
  proof (cases "id v = n")
    case False
    with m have "\<not> (id_len v = length n \<and> strncmp0 (id v) var (length n))" by blast
    from parse_line_vars_miss [OF this] False IH show ?thesis by simp
  next
    case True
    with Cons.prems have out: "n \<notin> id ` set vars" by (auto simp: wf_vars_def)
    then have rest: "map (\<lambda>v. if id v = n then apply_setting (Some s) v else v) vars = vars"
      by (auto intro!: map_idI)
    have "parse_line_vars ns var (length n) (v # vars) =
     (if tristate (Some s) then PL_Ret 1 (apply_setting (Some s) v # vars)
      else pl_cons (apply_setting (Some s) v) (parse_line_vars ns var (length n) vars))"
      using True m hit by (intro parse_line_vars_hit) blast+
    with True IH out rest show ?thesis by simp
  qed
qed

section \<open>Reading a configuration file\<close>

text \<open>A whole file: settings, and lines that name no variable.\<close>

datatype cline = Setting cstr setting | Comment cstr

fun line_text :: "cline \<Rightarrow> cstr" where
  "line_text (Setting n s) = render_line (n, s)"
| "line_text (Comment c) = c @ [NEWLINE]"

definition file_text :: "cline list \<Rightarrow> cstr" where
  "file_text f = concat (map line_text f)"

fun settings :: "cline list \<Rightarrow> (cstr \<times> setting) list" where
  "settings [] = []"
| "settings (Setting n s # f) = (n, s) # settings f"
| "settings (Comment c # f) = settings f"

fun line_ok :: "cline \<Rightarrow> bool" where
  "line_ok (Setting n s) = (config_name n \<and> setting_ok s \<and> length (render_line (n, s)) < LINE_BUF)"
| "line_ok (Comment c) = (NEWLINE \<notin> set c \<and> strstr (c @ [NEWLINE]) ''CONFIG_'' = None
     \<and> length c + 1 < LINE_BUF)"

definition config_ok :: "cline list \<Rightarrow> bool" where
  "config_ok f = (distinct (map fst (settings f)) \<and> (\<forall>l \<in> set f. line_ok l))"

lemma fgets_lines:
  "\<forall>l \<in> set ls. \<exists>l'. l = l' @ [NEWLINE] \<and> NEWLINE \<notin> set l' \<and> length l < n \<Longrightarrow>
   fgets_all n (concat ls) = ls"
proof (induction ls)
  case Nil
  then show ?case by (simp add: fgets_all.simps)
next
  case (Cons l ls)
  then obtain l' where l: "l = l' @ [NEWLINE]" "NEWLINE \<notin> set l'" "length l < n" by auto
  have "chunk (n - 1) (l' @ NEWLINE # concat ls) = (l' @ [NEWLINE], concat ls)"
    using l by (intro chunk_line) auto
  then show ?case
    using l Cons by (subst fgets_all.simps) auto
qed

lemma config_name_no_nl: "config_name n \<Longrightarrow> NEWLINE \<notin> set n"
  using config_name_chars [of n NEWLINE] by auto

lemma line_ends:
  assumes "line_ok l"
  shows "\<exists>l'. line_text l = l' @ [NEWLINE] \<and> NEWLINE \<notin> set l' \<and> length (line_text l) < LINE_BUF"
proof (cases l)
  case (Setting n s)
  have nl: "NEWLINE \<notin> set n" using assms Setting by (intro config_name_no_nl) simp
  show ?thesis
  proof (cases s)
    case (Set_val x)
    then have "NEWLINE \<notin> set x" using assms Setting isspace_simps(2) by auto
    with nl Set_val Setting assms show ?thesis by (intro exI [of _ "n @ ''='' @ x"]) simp
  qed (use nl Setting assms in \<open>simp_all add: exI [of _ "n @ ''=y''"]\<close>)
next
  case (Comment c)
  with assms show ?thesis by simp
qed

lemma fgets_file: "config_ok f \<Longrightarrow> fgets_all LINE_BUF (file_text f) = map line_text f"
  unfolding file_text_def by (rule fgets_lines) (auto simp: config_ok_def dest: line_ends)

lemma strstr_None_dropWhile: "strstr s p = None \<Longrightarrow> strstr (dropWhile P s) p = None"
  by (induction s) (auto split: if_splits)

lemma strstr_skip: "\<not> starts_with p (c # s) \<Longrightarrow> strstr (c # s) p = strstr s p"
  by simp

lemma strstr_within: "strstr (a @ p @ b) p \<noteq> None"
proof (induction a)
  case Nil
  then show ?case by simp
next
  case (Cons c a)
  then show ?case by auto
qed

lemma takeWhile_config_name:
  assumes "config_name n" "r = [] \<or> \<not> is_var_char (hd r)"
  shows "takeWhile is_var_char (n @ r) = n"
  using assms(2) config_name_chars [OF assms(1)]
  by (cases r) (simp_all add: takeWhile_append takeWhile_eq_all_conv)

text \<open>A setting line for \<open>n\<close> updates the entry of that name and no other.\<close>

lemma parse_named:
  assumes "wf_vars vars" "config_name n" "r = [] \<or> \<not> is_var_char (hd r)"
    and "strstr line ''CONFIG_'' = Some (n @ r)" "dropWhile isspace line = line"
    and "ns \<longleftrightarrow> deref line = CHR ''#''" "ns \<Longrightarrow> strstr line ''is not set'' \<noteq> None"
    and "if ns then s = Not_set else states_value r s"
  shows "kconfig_parse_line line vars =
     PL_Ret (if n \<in> id ` set vars \<and> tristate (Some s) then 1 else 0)
       (map (\<lambda>v. if id v = n then apply_setting (Some s) v else v) vars)"
proof -
  have "kconfig_parse_line line vars = parse_line_vars ns (n @ r) (length n) vars"
    using assms(4-7) takeWhile_config_name [OF assms(2,3)]
    unfolding kconfig_parse_line_def by (auto simp: Let_def)
  also have "\<dots> = PL_Ret (if n \<in> id ` set vars \<and> tristate (Some s) then 1 else 0)
       (map (\<lambda>v. if id v = n then apply_setting (Some s) v else v) vars)"
    using assms(1,8) by (intro parse_line_vars_eq) simp_all
  finally show ?thesis .
qed

lemma config_strstr: "config_name n \<Longrightarrow> strstr (n @ r) ''CONFIG_'' = Some (n @ r)"
  unfolding config_name_def by (elim exE conjE) (rule strstr_at_start, metis append_assoc starts_with_append)

lemma config_head: "config_name n \<Longrightarrow> deref (n @ r) = CHR ''C'' \<and> dropWhile isspace (n @ r) = n @ r"
  using config_name_Cons [of n] by (auto simp: isspace_def)

lemma line_value_set:
  assumes "setting_ok (Set_val x)"
  shows "line_value (''='' @ x @ [NEWLINE]) = LV_val x"
proof -
  have x: "x \<noteq> []" "\<forall>c \<in> set x. \<not> isspace c" "x \<noteq> ''y''" "x \<noteq> ''m''" using assms by auto
  have d: "dropWhile isspace (x @ [NEWLINE]) = x @ [NEWLINE]"
    using x by (cases x) auto
  have t: "takeWhile (\<lambda>c. \<not> isspace c) (x @ [NEWLINE]) = x"
    using x by (simp add: takeWhile_append takeWhile_eq_all_conv)
  have ne: "\<not> (length x = Suc 0 \<and> (x @ [NEWLINE]) ! 0 = CHR ''y'')" "\<not> (length x = Suc 0 \<and> (x @ [NEWLINE]) ! 0 = CHR ''m'')"
    using x by (auto simp: length_Suc_conv)
  show ?thesis
    using ne unfolding line_value_def by (simp add: Let_def d t)
qed

lemma parse_setting:
  assumes "wf_vars vars" "line_ok (Setting n s)"
  shows "kconfig_parse_line (line_text (Setting n s)) vars =
     PL_Ret (if n \<in> id ` set vars \<and> tristate (Some s) then 1 else 0)
       (map (\<lambda>v. if id v = n then apply_setting (Some s) v else v) vars)"
proof -
  have n: "config_name n" using assms by simp
  show ?thesis
  proof (cases s)
    case Set_y
    then show ?thesis
      using n assms by (intro parse_named [where ns = False and r = "''=y'' @ [NEWLINE]"])
        (simp_all add: config_strstr config_head line_value_def Let_def isspace_def)
  next
    case Set_m
    then show ?thesis
      using n assms by (intro parse_named [where ns = False and r = "''=m'' @ [NEWLINE]"])
        (simp_all add: config_strstr config_head line_value_def Let_def isspace_def)
  next
    case (Set_val x)
    then show ?thesis
      using n assms line_value_set [of x]
      by (intro parse_named [where ns = False and r = "''='' @ x @ [NEWLINE]"])
        (simp_all add: config_strstr config_head)
  next
    case Not_set
    have "strstr (''# '' @ n @ '' is not set'' @ [NEWLINE]) ''CONFIG_'' = Some (n @ '' is not set'' @ [NEWLINE])"
      using config_strstr [OF n] by simp
    moreover have "strstr (''# '' @ n @ '' is not set'' @ [NEWLINE]) ''is not set'' \<noteq> None"
      using strstr_within [of "''# '' @ n @ '' ''" "''is not set''" "[NEWLINE]"] by simp
    ultimately show ?thesis
      using Not_set n assms
      by (intro parse_named [where ns = True and r = "'' is not set'' @ [NEWLINE]"]) simp_all
  qed
qed

lemma parse_comment: "line_ok (Comment c) \<Longrightarrow> kconfig_parse_line (line_text (Comment c)) vars = PL_Ret 0 vars"
  using strstr_None_dropWhile [of "c @ [NEWLINE]" "''CONFIG_''" isspace]
  unfolding kconfig_parse_line_def by (auto simp: Let_def)

text \<open>The early end of the loop, when every variable was found, loses no setting.\<close>

definition configured :: "(cstr \<times> setting) list \<Rightarrow> tst_kconfig_var list \<Rightarrow> tst_kconfig_var list" where
  "configured cfg = map (\<lambda>v. apply_setting (map_of cfg (id v)) v)"

lemma id_apply_setting [simp]: "id (apply_setting s v) = id v" "id_len (apply_setting s v) = id_len v"
  by (cases "(s, v)" rule: apply_setting.cases; simp)+

lemma map_of_outside: "x \<notin> fst ` set cfg \<Longrightarrow> map_of cfg x = None"
  by (simp add: map_of_eq_None_iff)

lemma configured_Cons:
  assumes "n \<notin> fst ` set cfg"
  shows "configured cfg (map (\<lambda>v. if id v = n then apply_setting (Some s) v else v) vars) = configured ((n, s) # cfg) vars"
  using assms by (auto simp: configured_def map_of_outside)

lemma configured_idle: "\<forall>v \<in> set vars. id v \<notin> fst ` set cfg \<Longrightarrow> configured cfg vars = vars"
  by (auto simp: configured_def map_of_outside intro!: map_idI)

lemma map_id_update: "map id (map (\<lambda>v. if id v = n then apply_setting s v else v) vars) = map id vars"
  by (simp add: if_distrib cong: if_cong)

lemma wf_vars_update: "wf_vars vars \<Longrightarrow> wf_vars (map (\<lambda>v. if id v = n then apply_setting s v else v) vars)"
  unfolding wf_vars_def map_id_update by auto

lemma all_found:
  assumes "wf_vars vars" "S \<subseteq> id ` set vars" "card S = length vars" "S \<inter> fst ` set cfg = {}"
  shows "configured cfg vars = vars"
proof -
  have "card (id ` set vars) = length vars"
    using assms(1) distinct_card [of "map id vars"] by (simp add: wf_vars_def)
  then have "S = id ` set vars" using assms(2,3) by (intro card_subset_eq) auto
  with assms(4) show ?thesis by (intro configured_idle) auto
qed

lemma read_loop_settings:
  assumes "\<forall>l \<in> set f. line_ok l" "distinct (map fst (settings f))" "wf_vars vars"
    and "S \<subseteq> id ` set vars" "card S = k" "S \<inter> fst ` set (settings f) = {}"
  shows "read_loop (length vars) (map line_text f) k vars = Some (configured (settings f) vars)"
  using assms
proof (induction f arbitrary: k vars S)
  case Nil
  then show ?case by (simp add: configured_idle)
next
  case (Cons l f)
  show ?case
  proof (cases l)
    case (Comment c)
    have p: "kconfig_parse_line (line_text l) vars = PL_Ret 0 vars"
      using Cons.prems(1) Comment parse_comment by auto
    have "read_loop (length vars) (map line_text f) k vars = Some (configured (settings f) vars)"
      using Cons.prems Comment by (intro Cons.IH [where S = S]) auto
    moreover have "k = length vars \<Longrightarrow> configured (settings f) vars = vars"
      using Cons.prems Comment by (intro all_found [where S = S]) auto
    ultimately show ?thesis using p Comment by simp
  next
    case (Setting n s)
    let ?vars = "map (\<lambda>v. if id v = n then apply_setting (Some s) v else v) vars"
    define hit where "hit = (n \<in> id ` set vars \<and> tristate (Some s))"
    define S' where "S' = (if hit then insert n S else S)"
    have p: "kconfig_parse_line (line_text l) vars = PL_Ret (if hit then 1 else 0) ?vars"
      using Cons.prems(1,3) Setting parse_setting [of vars n s] by (simp add: hit_def)
    have ids: "id ` set ?vars = id ` set vars" using arg_cong [OF map_id_update, of set] by (simp only: list.set_map)
    have "finite S" using Cons.prems(4) finite_surj by blast
    then have S': "S' \<subseteq> id ` set ?vars" "card S' = (if hit then k + 1 else k)"
      "S' \<inter> fst ` set (settings f) = {}" and n: "n \<notin> fst ` set (settings f)"
      using Cons.prems Setting unfolding ids S'_def by (auto simp: hit_def)
    have wf: "wf_vars ?vars" using Cons.prems(3) by (rule wf_vars_update)
    have "read_loop (length ?vars) (map line_text f) (card S') ?vars = Some (configured (settings f) ?vars)"
      using Cons.prems Setting S' wf by (intro Cons.IH [where S = S']) auto
    moreover have "card S' = length ?vars \<Longrightarrow> configured (settings f) ?vars = ?vars"
      using S' wf by (intro all_found [where S = S']) auto
    ultimately show ?thesis
      using p Setting S'(2) configured_Cons [OF n] by (auto split: if_splits)
  qed
qed

lemma kconfig_read_eq:
  assumes "config_ok f" "wf_vars vars"
  shows "read_loop (length vars) (fgets_all LINE_BUF (file_text f)) 0 vars = Some (configured (settings f) vars)"
  using assms read_loop_settings [of f vars "{}" 0] by (simp add: fgets_file config_ok_def)

section \<open>Interfaces\<close>

text \<open>What the constraint check needs from the expression engine: evaluating a parsed expression
  returns, and depends only on the values of the variable tokens of the expression.\<close>

locale expr_engine =
  fixes parse :: "cstr \<Rightarrow> tst_expr_tok list option"
    and eval :: "tst_expr_tok list \<Rightarrow> (tst_expr_tok \<Rightarrow> int) \<Rightarrow> int option"
  assumes eval_total: "parse s = Some rpn \<Longrightarrow> \<exists>r. eval rpn m = Some r"
    and eval_cong: "parse s = Some rpn \<Longrightarrow> \<forall>t \<in> set rpn. op t = TST_OP_VAR \<longrightarrow> m t = m' t \<Longrightarrow> eval rpn m = eval rpn m'"
begin

lemma eval_lookup:
  assumes "parse s = Some rpn" "\<forall>t \<in> set rpn. op t = TST_OP_VAR \<longrightarrow> g t = Some (h t)"
  shows "\<exists>r. eval rpn (\<lambda>t. the (g t)) = Some r \<and> eval rpn h = Some r"
  using assms(2) eval_cong [OF assms(1), of "\<lambda>t. the (g t)" h] eval_total [OF assms(1), of h] by auto

end

text \<open>What it needs from the reader: for an acceptable configuration, each variable of the array gets
  the setting of its name, and the order and the names stay.\<close>

locale config_reader =
  fixes read :: "'f \<Rightarrow> tst_kconfig_var list \<Rightarrow> tst_kconfig_var list option"
    and acceptable :: "'f \<Rightarrow> bool"
    and cfg :: "'f \<Rightarrow> (cstr \<times> setting) list"
  assumes read_configured: "acceptable f \<Longrightarrow> wf_vars vars \<Longrightarrow> read f vars = Some (configured (cfg f) vars)"
begin

lemma read_nth:
  assumes "acceptable f" "wf_vars vars" "k < length vars" "read f vars = Some vars'"
  shows "k < length vars' \<and> vars' ! k = apply_setting (map_of (cfg f) (id (vars ! k))) (vars ! k)"
  using assms by (auto simp: read_configured configured_def)

lemma read_bound:
  assumes "acceptable f" "wf_vars vars" "fresh_vars vars" "bound_ok vars priv" "read f vars = Some vars'"
    and "t \<in> fst ` set priv"
  shows "\<exists>v. choice v = NUL \<and> val v = None
     \<and> bound_var vars' priv t = Some (apply_setting (map_of (cfg f) (name_of t)) v)"
proof -
  from assms(6) obtain k where k: "map_of priv t = Some k"
    by (metis map_of_eq_None_iff not_Some_eq)
  then have k': "k < length vars" "id (vars ! k) = name_of t"
    using assms(4) by (auto simp: bound_ok_def dest: map_of_SomeD)
  moreover have "choice (vars ! k) = NUL \<and> val (vars ! k) = None"
    using assms(3) k'(1) by (auto simp: fresh_vars_def)
  ultimately show ?thesis
    using k read_nth [OF assms(1,2) k'(1) assms(5)] by (auto simp: bound_var_def)
qed

end

text \<open>Both on the model of the code.\<close>

definition parsed_by :: "(nat \<Rightarrow> bool) \<Rightarrow> cstr \<Rightarrow> tst_expr_tok list option" where
  "parsed_by mem s = (case tst_bool_expr_parse mem s of Parsed r \<Rightarrow> r | Parse_UB \<Rightarrow> None)"

definition read_file :: "cline list \<Rightarrow> tst_kconfig_var list \<Rightarrow> tst_kconfig_var list option" where
  "read_file f vars = read_loop (length vars) (fgets_all LINE_BUF (file_text f)) 0 vars"

lemma sem_cong:
  "\<forall>t \<in> vars_f f. m t = m' t \<Longrightarrow> sem_f m f = sem_f m' f"
  "\<forall>t \<in> vars_e e. m t = m' t \<Longrightarrow> sem_e m e = sem_e m' e"
  by (induction f and e) auto

lemma vars_rpn:
  "wf_f f \<Longrightarrow> t \<in> vars_f f \<Longrightarrow> t \<in> set (rpn_f f) \<and> op t = TST_OP_VAR"
  "wf_e e \<Longrightarrow> t \<in> vars_e e \<Longrightarrow> t \<in> set (rpn_e e) \<and> op t = TST_OP_VAR"
  by (induction f and e) auto

lemma parsed_by_tree: "parsed_by mem s = Some rpn \<Longrightarrow> \<exists>e. wf_e e \<and> src_e e = tokens s \<and> rpn_e e = rpn"
  using parsed_tokens(1) by (auto simp: parsed_by_def split: parse_result.splits)

lemma parsed_by_tokens: "parsed_by mem s = Some rpn \<Longrightarrow> set rpn \<subseteq> set (tokens s)"
  using parsed_tokens(2) by (auto simp: parsed_by_def split: parse_result.splits)

interpretation be: expr_engine "parsed_by mem" tst_bool_expr_eval for mem
proof
  fix s rpn and m m' :: "tst_expr_tok \<Rightarrow> int"
  assume "parsed_by mem s = Some rpn"
  then obtain e where e: "wf_e e" "rpn_e e = rpn" using parsed_by_tree by blast
  then show "\<exists>r. tst_bool_expr_eval rpn m = Some r" using eval_rpn by blast
  assume "\<forall>t \<in> set rpn. op t = TST_OP_VAR \<longrightarrow> m t = m' t"
  then have eq: "\<forall>t \<in> vars_e e. m t = m' t" using e vars_rpn(2) by blast
  then show "tst_bool_expr_eval rpn m = tst_bool_expr_eval rpn m'"
    using eval_rpn [OF e(1)] sem_cong(2) [OF eq] e(2) by auto
qed

interpretation rf: config_reader read_file config_ok settings
  by unfold_locales (simp add: read_file_def kconfig_read_eq)

section \<open>What a constraint means\<close>

text \<open>A variable word under a configuration: a bare name holds when it is set to y or m, and
  \<^verbatim>\<open>NAME=value\<close> when it has that value. \<open>None\<close> is a literal value compared with a variable that is set
  to y, m or n, for which the code reads a pointer that was never assigned.\<close>

definition word_holds :: "(cstr \<times> setting) list \<Rightarrow> cstr \<Rightarrow> bool option" where
  "word_holds cfg w =
     (let n = takeWhile (\<lambda>c. c \<noteq> CHR ''='') w; x = drop (length n + 1) w in
      case map_of cfg n of
        None \<Rightarrow> Some False
      | Some s \<Rightarrow>
          if CHR ''='' \<notin> set w then Some (s = Set_y \<or> s = Set_m)
          else if x = ''y'' then Some (s = Set_y)
          else if x = ''m'' then Some (s = Set_m)
          else if x = ''n'' then Some (s = Not_set)
          else case s of Set_val z \<Rightarrow> Some (z = x) | _ \<Rightarrow> None)"

lemma config_name_no_eq: "config_name n \<Longrightarrow> CHR ''='' \<notin> set n"
  using config_name_chars [of n "CHR ''=''"] by auto

lemma kconfig_wordE:
  assumes "kconfig_word w"
  obtains (name) "config_name w" "CHR ''='' \<notin> set w"
  | (eq) n v where "config_name n" "CHR ''='' \<notin> set n" "w = n @ CHR ''='' # v" "v \<noteq> []"
proof -
  from assms obtain name where name: "\<forall>x \<in> set name. is_var_char x"
    and w: "w = ''CONFIG_'' @ name \<or> (\<exists>v. w = ''CONFIG_'' @ name @ ''='' @ v \<and> value_ok v)"
    unfolding kconfig_word_def by blast
  define n where "n = ''CONFIG_'' @ name"
  have n: "config_name n" using name unfolding config_name_def n_def by blast
  have "w = n \<or> (\<exists>v. w = n @ CHR ''='' # v \<and> value_ok v)" using w by (simp add: n_def)
  moreover have "value_ok v \<Longrightarrow> v \<noteq> []" for v by (auto simp: value_ok_def)
  ultimately show ?thesis using n config_name_no_eq [OF n] that by metis
qed

lemma takeWhile_no_eq: "CHR ''='' \<notin> set n \<Longrightarrow> takeWhile (\<lambda>c. c \<noteq> CHR ''='') (n @ CHR ''='' # v) = n"
  by (induction n) auto

lemma takeWhile_bare: "CHR ''='' \<notin> set n \<Longrightarrow> takeWhile (\<lambda>c. c \<noteq> CHR ''='') n = n"
  by (induction n) auto

lemma word_value_nonempty:
  assumes "kconfig_word w" "CHR ''='' \<in> set w"
  shows "drop (length (takeWhile (\<lambda>c. c \<noteq> CHR ''='') w) + 1) w \<noteq> []"
  using assms by (cases rule: kconfig_wordE) (simp_all add: takeWhile_no_eq)

lemma name_of_word: "kconfig_word (tok_text t) \<Longrightarrow> config_name (name_of t)"
  by (cases rule: kconfig_wordE, assumption) (simp_all add: name_of_def takeWhile_no_eq takeWhile_bare)

text \<open>The comparisons of \<^verbatim>\<open>map\<close> look at the value text of the token.\<close>

lemma value_cmp:
  assumes "tok_len t \<le> length (tok t)" "x = drop k (tok_text t)" "x \<noteq> []"
  shows "strncmp0 (drop k (tok t)) [c] (tok_len t - k) \<longleftrightarrow> x = [c]"
    and "length z = tok_len t - k \<and> strncmp0 (drop k (tok t)) z (tok_len t - k) \<longleftrightarrow> z = x"
proof -
  have x: "take (tok_len t - k) (drop k (tok t)) = x" using assms(2) by (simp add: tok_text_def drop_take)
  have len: "length x = tok_len t - k" using assms(1,2) by (simp add: length_tok_text)
  then obtain m where m: "tok_len t - k = Suc m" using assms(3) by (cases "tok_len t - k") auto
  have "take (Suc m) [c] = [c]" by simp
  with x m show "strncmp0 (drop k (tok t)) [c] (tok_len t - k) \<longleftrightarrow> x = [c]"
    by (simp add: strncmp0_take)
  show "length z = tok_len t - k \<and> strncmp0 (drop k (tok t)) z (tok_len t - k) \<longleftrightarrow> z = x"
    using x len by (auto simp: strncmp0_take)
qed

lemma kmap_word:
  assumes ok: "tok_ok t" and w: "kconfig_word (tok_text t)" and v0: "choice v0 = NUL" "val v0 = None"
  shows "kmap (apply_setting (map_of cfg (name_of t)) v0) t
     = map_option of_bool (word_holds cfg (tok_text t))"
proof (cases "map_of cfg (name_of t)")
  case None
  then show ?thesis using v0 by (simp add: kmap_def word_holds_def name_of_def Let_def)
next
  case (Some s)
  let ?i = "length (name_of t)"
  let ?x = "drop (?i + 1) (tok_text t)"
  have n: "takeWhile (\<lambda>c. c \<noteq> CHR ''='') (tok_text t) = name_of t" by (simp add: name_of_def)
  have le: "tok_len t \<le> length (tok t)" using ok by (simp add: tok_ok_def)
  show ?thesis
  proof (cases "CHR ''='' \<in> set (tok_text t)")
    case False
    then have "strnchr (tok t) (CHR ''='') (tok_len t) = None" by (simp add: strnchr_eq tok_text_def)
    with False Some n show ?thesis by (cases s) (simp_all add: kmap_def word_holds_def)
  next
    case True
    then have i: "strnchr (tok t) (CHR ''='') (tok_len t) = Some ?i"
      by (simp add: strnchr_eq tok_text_def name_of_def)
    have "?x \<noteq> []" using word_value_nonempty [OF w True] n by simp
    note cmp = value_cmp [OF le refl this]
    show ?thesis
      using True Some n i cmp(1) cmp(2) v0 length_tok_text [OF le] by (cases s) (auto simp: kmap_def word_holds_def Let_def)
  qed
qed

text \<open>An expression is satisfied by a configuration.\<close>

definition word_value :: "(cstr \<times> setting) list \<Rightarrow> tst_expr_tok \<Rightarrow> int" where
  "word_value cfg t = of_bool (word_holds cfg (tok_text t) = Some True)"

definition satisfied :: "(cstr \<times> setting) list \<Rightarrow> cstr \<Rightarrow> bool" where
  "satisfied cfg s = (\<exists>e. wf_e e \<and> src_e e = tokens s \<and> need_e e \<le> MAX_STACK
     \<and> sem_e (word_value cfg) e = 1)"

lemma word_value_01 [simp]: "word_value cfg t \<noteq> - 1"
  by (simp add: word_value_def)

lemma eval_satisfied:
  assumes "parsed_by mem s = Some rpn"
  shows "tst_bool_expr_eval rpn (word_value cfg) = Some 1 \<longleftrightarrow> satisfied cfg s"
proof -
  have ne: "tokens s \<noteq> []" and sy: "shunting_yard (tokens s) = SY_Ok rpn"
    using assms
    by (auto simp: parsed_by_def tst_bool_expr_parse_eq split: if_splits sy_result.splits)
  have ev: "tst_bool_expr_eval rpn (word_value cfg) = Some 1 \<longleftrightarrow> need_e e \<le> MAX_STACK \<and> sem_e (word_value cfg) e = 1"
    if e: "wf_e e" "src_e e = tokens s" for e
  proof -
    have "rpn_e e = rpn" using shunting_yard_complete [OF e(1)] sy e(2) by simp
    then show ?thesis using eval_rpn [OF e(1), of "word_value cfg"] by simp
  qed
  obtain e where "wf_e e" "src_e e = tokens s" using shunting_yard_sound [OF ne sy] by blast
  then show ?thesis using ev unfolding satisfied_def by blast
qed

lemma eval_calls_vars: "set (eval_calls ts pos) \<subseteq> {t \<in> set ts. is_var t}"
  by (induction ts pos rule: eval_calls.induct) (auto split: tst_op.splits if_splits)

text \<open>The tokens an expression may use under a configuration.\<close>

definition vars_fit :: "(cstr \<times> setting) list \<Rightarrow> cstr \<Rightarrow> bool" where
  "vars_fit cfg s = (\<forall>t \<in> set (tokens s). is_var t \<longrightarrow>
     kconfig_word (tok_text t) \<and> length (name_of t) + 1 < ID_SIZE \<and> word_holds cfg (tok_text t) \<noteq> None)"

lemma kconfig_eval_word:
  assumes "parsed_by mem s = Some rpn" "vars_fit cfg s"
    and b: "\<And>t. t \<in> set rpn \<Longrightarrow> is_var t \<Longrightarrow>
       \<exists>v. choice v = NUL \<and> val v = None \<and> bound_var vars priv t = Some (apply_setting (map_of cfg (name_of t)) v)"
  shows "\<exists>r. kconfig_eval vars priv rpn = Some r \<and> (r = 1 \<longleftrightarrow> satisfied cfg s)"
proof -
  let ?m = "\<lambda>t. Option.bind (bound_var vars priv t) (\<lambda>v. kmap v t)"
  have m: "?m t = Some (word_value cfg t)" if t: "t \<in> set rpn" "is_var t" for t
  proof -
    have s: "t \<in> set (tokens s)"
      using parsed_by_tokens [OF assms(1)] t(1) by blast
    then have "tok_ok t" using t(2) by (rule tokens_tok_ok)
    then show ?thesis
      using b [OF t] s t(2) assms(2) by (auto simp: vars_fit_def kmap_word word_value_def)
  qed
  have "\<forall>t \<in> set (eval_calls rpn 0). ?m t \<noteq> None" using m eval_calls_vars by blast
  moreover obtain r where "tst_bool_expr_eval rpn (\<lambda>t. the (?m t)) = Some r"
    "tst_bool_expr_eval rpn (word_value cfg) = Some r"
    using be.eval_lookup [OF assms(1), of ?m "word_value cfg"] m by blast
  moreover have "r = 1 \<longleftrightarrow> satisfied cfg s"
    using eval_satisfied [OF assms(1), of cfg] calculation(3) by simp
  ultimately show ?thesis by (auto simp: kconfig_eval_def Let_def)
qed

section \<open>The check of a list of constraints\<close>

lemma parse_all_eq:
  "\<forall>s \<in> set ks. parsed_by mem s \<noteq> None \<Longrightarrow> parse_all mem ks = Inr (map (\<lambda>s. the (parsed_by mem s)) ks)"
  "\<exists>s \<in> set ks. parsed_by mem s = None \<Longrightarrow>
     parse_all mem ks = Inl (KC_Brk TBROK ''Invalid kconfig expression!'')"
proof -
  have p: "tst_bool_expr_parse mem s = Parsed (parsed_by mem s)" for s
    using shunting_yard_no_overrun [of "tokens s"]
    by (auto simp: parsed_by_def tst_bool_expr_parse_eq split: sy_result.splits)
  show "\<forall>s \<in> set ks. parsed_by mem s \<noteq> None \<Longrightarrow> parse_all mem ks = Inr (map (\<lambda>s. the (parsed_by mem s)) ks)"
    by (induction ks) (auto simp: p)
  show "\<exists>s \<in> set ks. parsed_by mem s = None \<Longrightarrow>
     parse_all mem ks = Inl (KC_Brk TBROK ''Invalid kconfig expression!'')"
  proof (induction ks)
    case (Cons k ks)
    then show ?case by (cases "parsed_by mem k") (simp_all add: p)
  qed simp
qed

lemma check_exprs_eq:
  assumes "\<forall>(s, rpn) \<in> set es. \<exists>r. kconfig_eval vars priv rpn = Some r \<and> (r = 1 \<longleftrightarrow> P s)"
  shows "\<exists>l'. check_exprs vars priv es ab l = Inr (l', ab \<or> (\<exists>(s, rpn) \<in> set es. \<not> P s))
     \<and> ((\<forall>(s, rpn) \<in> set es. P s) \<longrightarrow> l' = l)"
  using assms
proof (induction es arbitrary: ab l)
  case Nil
  then show ?case by simp
next
  case (Cons p es)
  obtain s rpn where p: "p = (s, rpn)" by (cases p)
  with Cons.prems obtain r where r: "kconfig_eval vars priv rpn = Some r" "r = 1 \<longleftrightarrow> P s" by auto
  show ?case
  proof (cases "P s")
    case True
    with r p Cons show ?thesis by simp
  next
    case False
    let ?l = "l @ [(TINFO, ''Constrain '' @ squoted s @ '' not satisfied!'')] @ dump_vars vars priv rpn"
    have "\<exists>l'. check_exprs vars priv es True ?l = Inr (l', True)"
      using Cons.IH [of True ?l] Cons.prems by auto
    with r p False show ?thesis by (auto split: prod.splits)
  qed
qed

lemma concat_parsed:
  assumes "\<forall>s \<in> set ks. parsed_by mem s \<noteq> None" "t \<in> set (concat (map (\<lambda>s. the (parsed_by mem s)) ks))"
  shows "\<exists>s \<in> set ks. t \<in> set (tokens s)"
proof -
  from assms(2) obtain s where s: "s \<in> set ks" "t \<in> set (the (parsed_by mem s))" by auto
  then obtain rpn where "parsed_by mem s = Some rpn" using assms(1) by auto
  with s parsed_by_tokens [of mem s rpn] show ?thesis by auto
qed

lemma validate_parsed:
  assumes "\<forall>s \<in> set ks. parsed_by mem s \<noteq> None"
  shows "fst (validate_vars (map (\<lambda>s. the (parsed_by mem s)) ks)) \<longleftrightarrow>
    (\<exists>t \<in> set (concat (map (\<lambda>s. the (parsed_by mem s)) ks)). is_var t \<and> \<not> kconfig_word (tok_text t))"
proof -
  have "fst (validate_var t) = 0 \<longleftrightarrow> kconfig_word (tok_text t)"
    if "t \<in> set (concat (map (\<lambda>s. the (parsed_by mem s)) ks))" "is_var t" for t
    using concat_parsed [OF assms that(1)] that(2) tokens_tok_ok validate_var_word by blast
  then show ?thesis unfolding validate_vars_def Let_def by (simp del: set_concat) blast
qed

lemma populate_parsed:
  assumes p: "\<forall>s \<in> set ks. parsed_by mem s \<noteq> None" and fit: "\<forall>s \<in> set ks. vars_fit cfg s"
    and es: "es = map (\<lambda>s. the (parsed_by mem s)) ks"
  obtains vars priv where "populate_vars es = Inr (vars, priv)" "wf_vars vars" "fresh_vars vars"
    "bound_ok vars priv" "fst ` set priv = {t \<in> set (concat es). is_var t}"
proof -
  have t: "tok_len t \<le> length (tok t)" "length (name_of t) + 1 < ID_SIZE"
    if "t \<in> set (concat es)" "is_var t" for t
    using concat_parsed [OF p that(1) [unfolded es]] that(2) fit tokens_tok_ok
    by (auto simp: vars_fit_def tok_ok_def)
  have spec: "case populate_vars es of
     Inr (vars', priv) \<Rightarrow> (\<exists>ext. vars' = [] @ ext) \<and> wf_vars vars' \<and> fresh_vars vars'
        \<and> length vars' \<le> get_var_cnt es \<and> map fst priv = filter is_var (concat es) \<and> bound_ok vars' priv
   | Inl s \<Rightarrow> s = KC_Brk TBROK ''kconfig var id too long!''
        \<and> (\<exists>j \<in> set (concat es). is_var j \<and> ID_SIZE \<le> length (name_of j) + 1)"
    unfolding populate_vars_def using t(1)
    by (intro populate_toks_spec) (auto simp: wf_vars_def fresh_vars_def get_var_cnt_def)
  show ?thesis
  proof (cases "populate_vars es")
    case (Inl s)
    with spec t(2) show ?thesis by fastforce
  next
    case (Inr r)
    obtain vars priv where r: "r = (vars, priv)" by (cases r)
    with Inr spec have "wf_vars vars" "fresh_vars vars" "bound_ok vars priv"
      and m: "map fst priv = filter is_var (concat es)" by auto
    moreover have "fst ` set priv = {t \<in> set (concat es). is_var t}"
      using arg_cong [OF m, of set] by auto
    ultimately show ?thesis using that Inr r by blast
  qed
qed

lemma check_after_read:
  assumes p: "\<forall>s \<in> set ks. parsed_by mem s \<noteq> None" and fit: "\<forall>s \<in> set ks. vars_fit (settings f) s"
    and es: "es = map (\<lambda>s. the (parsed_by mem s)) ks" and f: "config_ok f"
    and pv: "populate_vars es = Inr (vars, priv)" "wf_vars vars" "fresh_vars vars"
      "bound_ok vars priv" "fst ` set priv = {t \<in> set (concat es). is_var t}"
    and rd: "read_file f vars = Some vars'"
  shows "\<exists>l'. check_exprs vars' priv (zip ks es) False l = Inr (l', \<exists>s \<in> set ks. \<not> satisfied (settings f) s)
     \<and> ((\<forall>s \<in> set ks. satisfied (settings f) s) \<longrightarrow> l' = l)"
proof -
  have z: "set (zip ks es) = (\<lambda>s. (s, the (parsed_by mem s))) ` set ks"
    unfolding es by (simp add: zip_map2 zip_same_conv_map image_image)
  have "\<exists>r. kconfig_eval vars' priv (the (parsed_by mem s)) = Some r \<and> (r = 1 \<longleftrightarrow> satisfied (settings f) s)"
    if s: "s \<in> set ks" for s
  proof -
    obtain rpn where rpn: "parsed_by mem s = Some rpn" using p s by auto
    have "set rpn \<subseteq> set (concat es)" using rpn s unfolding es by force
    then have "\<exists>v. choice v = NUL \<and> val v = None
        \<and> bound_var vars' priv t = Some (apply_setting (map_of (settings f) (name_of t)) v)"
      if "t \<in> set rpn" "is_var t" for t
      using that pv(5) by (intro rf.read_bound [OF f pv(2,3,4) rd]) auto
    then show ?thesis using rpn s fit kconfig_eval_word [OF rpn] by simp
  qed
  then have "\<forall>(s, rpn) \<in> set (zip ks es). \<exists>r. kconfig_eval vars' priv rpn = Some r \<and> (r = 1 \<longleftrightarrow> satisfied (settings f) s)"
    unfolding z by auto
  from check_exprs_eq [OF this, of False l] show ?thesis unfolding z by auto
qed

lemma config_name_code [code]: "config_name n \<longleftrightarrow> starts_with ''CONFIG_'' n \<and> list_all is_var_char (drop 7 n)"
  unfolding config_name_def starts_with_iff list_all_iff by (auto simp del: append.simps)

lemma value_ok_code [code]:
  "value_ok v \<longleftrightarrow> (case v of [] \<Rightarrow> False
     | c # r \<Rightarrow> if c = DQUOTE then r \<noteq> [] \<and> last r = DQUOTE \<and> DQUOTE \<notin> set (butlast r) else list_all isalnum r)"
proof (cases v)
  case (Cons c r)
  have "(\<exists>q. r = q @ [DQUOTE] \<and> DQUOTE \<notin> set q) \<longleftrightarrow> r \<noteq> [] \<and> last r = DQUOTE \<and> DQUOTE \<notin> set (butlast r)"
    by (cases r rule: rev_cases) auto
  with Cons show ?thesis by (auto simp: value_ok_def list_all_iff)
qed (simp add: value_ok_def)

lemma kconfig_word_code [code]:
  "kconfig_word w \<longleftrightarrow> starts_with ''CONFIG_'' w \<and>
     (let rest = dropWhile is_var_char (drop 7 w) in rest = [] \<or> (hd rest = CHR ''='' \<and> value_ok (tl rest)))"
  unfolding kconfig_word_scan starts_with_iff by (auto simp: Let_def simp del: append_Cons)

lemma vars_fit_code [code]:
  "vars_fit cfg s \<longleftrightarrow> list_all (\<lambda>t. is_var t \<longrightarrow>
     kconfig_word (tok_text t) \<and> length (name_of t) + 1 < ID_SIZE \<and> word_holds cfg (tok_text t) \<noteq> None) (tokens s)"
  by (simp add: vars_fit_def list_all_iff)

definition demo_config :: "cline list" where
  "demo_config = [Comment ''# Linux kernel'', Setting ''CONFIG_MMU'' Set_y, Setting ''CONFIG_NFSD'' Set_m,
     Setting ''CONFIG_KASAN'' Not_set, Setting ''CONFIG_HZ'' (Set_val ''250'')]"

definition demo_env :: kenv where
  "demo_env = \<lparr>KCONFIG_PATH = Some ''/tmp/config'', file_exists = (\<lambda>p. p = ''/tmp/config''), release = ''5.10'',
     open_file = (\<lambda>p. Some (file_text demo_config)), zcat_file = (\<lambda>p. None)\<rparr>"

definition demo_constraints :: "cstr list" where
  "demo_constraints = [''CONFIG_MMU & !(CONFIG_KASAN | CONFIG_X=y)'', ''CONFIG_HZ=250 & CONFIG_NFSD=m'']"


lemma src_vars_rpn:
  "wf_f f \<Longrightarrow> t \<in> set (src_f f) \<Longrightarrow> op t = TST_OP_VAR \<Longrightarrow> t \<in> set (rpn_f f)"
  "wf_e e \<Longrightarrow> t \<in> set (src_e e) \<Longrightarrow> op t = TST_OP_VAR \<Longrightarrow> t \<in> set (rpn_e e)"
  by (induction f and e) auto

lemma parsed_by_vars:
  assumes "parsed_by mem s = Some rpn"
  shows "t \<in> set rpn \<and> is_var t \<longleftrightarrow> t \<in> set (tokens s) \<and> is_var t"
  using parsed_by_tree [OF assms] parsed_by_tokens [OF assms] src_vars_rpn(2) by (metis subsetD)

lemma concat_parsed_vars:
  assumes "\<forall>s \<in> set ks. parsed_by mem s \<noteq> None"
  shows "t \<in> set (concat (map (\<lambda>s. the (parsed_by mem s)) ks)) \<and> is_var t
     \<longleftrightarrow> (\<exists>s \<in> set ks. t \<in> set (tokens s)) \<and> is_var t"
proof -
  have "t \<in> set (the (parsed_by mem s)) \<and> is_var t \<longleftrightarrow> t \<in> set (tokens s) \<and> is_var t" if "s \<in> set ks" for s
    using assms that parsed_by_vars [of mem s] by (metis option.collapse)
  then show ?thesis by (simp del: ball_simps) blast
qed

section \<open>Properties\<close>




definition demo_log :: log where
  "demo_log = [(TINFO, ''Parsing kernel config '' @ squoted ''/tmp/config'')]"


text \<open>C32. A list with an expression that does not parse, or with a variable that is not a \<^verbatim>\<open>CONFIG_\<close>
  name with an optional value, ends the test with TBROK before any configuration is looked at; a
  syntax error is reported first.\<close>

theorem kconfig_check_rejects:
  assumes "\<exists>s \<in> set ks. parsed_by mem s = None \<or> (\<exists>t \<in> set (tokens s). is_var t \<and> \<not> kconfig_word (tok_text t))"
  shows "tst_kconfig_check env mem ks = Inl (KC_Brk TBROK
     (if \<exists>s \<in> set ks. parsed_by mem s = None then ''Invalid kconfig expression!''
      else ''Invalid kconfig variables!''))"
proof (cases "\<exists>s \<in> set ks. parsed_by mem s = None")
  case True
  then have "ks \<noteq> []" by auto
  with True show ?thesis by (simp add: tst_kconfig_check_def array_len_def parse_all_eq(2))
next
  case False
  then have p: "\<forall>s \<in> set ks. parsed_by mem s \<noteq> None" by simp
  have "ks \<noteq> []" using assms by auto
  moreover have "fst (validate_vars (map (\<lambda>s. the (parsed_by mem s)) ks))"
    unfolding validate_parsed [OF p] using concat_parsed_vars [OF p] assms p by metis
  ultimately show ?thesis
    using False unfolding tst_kconfig_check_def array_len_def parse_all_eq(1) [OF p] by simp
qed

theorem kconfig_check_rejects_witness:
  "(\<exists>s \<in> set [''CONFIG_A'', ''MMU|CONFIG_B'']. parsed_by (\<lambda>_. True) s = None
      \<or> (\<exists>t \<in> set (tokens s). is_var t \<and> \<not> kconfig_word (tok_text t)))
   \<and> tst_kconfig_check demo_env (\<lambda>_. True) [''CONFIG_A'', ''MMU|CONFIG_B''] = Inl (KC_Brk TBROK ''Invalid kconfig variables!'')"
proof -
  have h: "\<exists>s \<in> set [''CONFIG_A'', ''MMU|CONFIG_B'']. parsed_by (\<lambda>_. True) s = None
      \<or> (\<exists>t \<in> set (tokens s). is_var t \<and> \<not> kconfig_word (tok_text t))"
    and n: "\<not> (\<exists>s \<in> set [''CONFIG_A'', ''MMU|CONFIG_B'']. parsed_by (\<lambda>_. True) s = None)"
    by code_simp+
  show ?thesis using h n kconfig_check_rejects [OF h, of demo_env] by (simp only: if_False)
qed

text \<open>C34. Reading a well-formed configuration file gives every variable of the array the setting the
  file states for its name and leaves the variables it does not name undefined; stopping as soon as
  all variables are found loses nothing.\<close>

theorem kconfig_read_correct:
  assumes "open_kconfig env = Inr (l, Some (file_text f))" and "config_ok f" and "wf_vars vars"
  shows "tst_kconfig_read env vars =
     Inr (l, map (\<lambda>v. apply_setting (map_of (settings f) (id v)) v) vars)"
  using assms rf.read_configured [OF assms(2,3)]
  by (simp add: tst_kconfig_read_def read_file_def configured_def)

definition fresh_var :: "cstr \<Rightarrow> tst_kconfig_var" where
  "fresh_var n = \<lparr>id = n, id_len = length n, choice = NUL, val = None\<rparr>"

theorem kconfig_read_correct_witness:
  "open_kconfig demo_env = Inr (demo_log, Some (file_text demo_config)) \<and> config_ok demo_config
   \<and> wf_vars [fresh_var ''CONFIG_HZ'', fresh_var ''CONFIG_X'', fresh_var ''CONFIG_MMU'']
   \<and> tst_kconfig_read demo_env [fresh_var ''CONFIG_HZ'', fresh_var ''CONFIG_X'', fresh_var ''CONFIG_MMU''] =
       Inr (demo_log, [(fresh_var ''CONFIG_HZ'')\<lparr>choice := CHR ''v'', val := Some ''250''\<rparr>,
         fresh_var ''CONFIG_X'', (fresh_var ''CONFIG_MMU'')\<lparr>choice := CHR ''y''\<rparr>])"
proof -
  let ?vs = "[fresh_var ''CONFIG_HZ'', fresh_var ''CONFIG_X'', fresh_var ''CONFIG_MMU'']"
  have h: "open_kconfig demo_env = Inr (demo_log, Some (file_text demo_config))" "config_ok demo_config" "wf_vars ?vs"
    by code_simp+
  have "map (\<lambda>v. apply_setting (map_of (settings demo_config) (id v)) v) ?vs =
    [(fresh_var ''CONFIG_HZ'')\<lparr>choice := CHR ''v'', val := Some ''250''\<rparr>,
         fresh_var ''CONFIG_X'', (fresh_var ''CONFIG_MMU'')\<lparr>choice := CHR ''y''\<rparr>]"
    by code_simp
  with h kconfig_read_correct [OF h] show ?thesis by simp
qed

fun setting_choice :: "setting option \<Rightarrow> char" where
  "setting_choice None = NUL"
| "setting_choice (Some Set_y) = CHR ''y''"
| "setting_choice (Some Set_m) = CHR ''m''"
| "setting_choice (Some Not_set) = CHR ''n''"
| "setting_choice (Some (Set_val x)) = CHR ''v''"

lemma choice_setting: "choice v = NUL \<Longrightarrow> choice (apply_setting s v) = setting_choice s"
  by (cases s rule: setting_choice.cases) auto

text \<open>\<^verbatim>\<open>tst_kconfig_get\<close> returns the letter of the variable's setting: y, m, n, v for a value, and
  NUL when the file does not name it; a name of 64 or more characters ends the test.\<close>

theorem kconfig_get_correct:
  assumes "open_kconfig env = Inr (l, Some (file_text f))" and "config_ok f"
  shows "tst_kconfig_get env n =
     (if length n < ID_SIZE then Inr (setting_choice (map_of (settings f) n))
      else Inl (KC_Brk TBROK (''Kconfig var name '' @ [DQUOTE] @ n @ [DQUOTE] @ '' too long'')))"
proof -
  have "wf_vars [\<lparr>id = n, id_len = length n, choice = NUL, val = None\<rparr>]" by (simp add: wf_vars_def)
  from rf.read_configured [OF assms(2) this] show ?thesis
    using assms(1)
    by (simp add: tst_kconfig_get_def tst_kconfig_read_def read_file_def configured_def choice_setting)
qed

theorem kconfig_get_correct_witness:
  "open_kconfig demo_env = Inr (demo_log, Some (file_text demo_config)) \<and> config_ok demo_config
   \<and> tst_kconfig_get demo_env ''CONFIG_KASAN'' = Inr (CHR ''n'')"
proof -
  have h: "open_kconfig demo_env = Inr (demo_log, Some (file_text demo_config))" "config_ok demo_config"
    by code_simp+
  have "setting_choice (map_of (settings demo_config) ''CONFIG_KASAN'') = CHR ''n'' \<and> length ''CONFIG_KASAN'' < ID_SIZE"
    by code_simp
  with h kconfig_get_correct [OF h, of "''CONFIG_KASAN''"] show ?thesis by simp
qed

text \<open>C37. Collecting the variables of parsed expressions never writes beyond the array sized by
  \<^verbatim>\<open>get_var_cnt\<close>: it either reports a name of more than 62 characters or returns an array without
  duplicate names in which every variable token is bound to the entry of its own name.\<close>

theorem kconfig_populate_correct:
  assumes "parse_all mem ks = Inr es"
  shows "case populate_vars es of
     Inl s \<Rightarrow> s = KC_Brk TBROK ''kconfig var id too long!''
        \<and> (\<exists>t \<in> set (concat es). is_var t \<and> ID_SIZE \<le> length (name_of t) + 1)
   | Inr (vars, priv) \<Rightarrow> distinct (map id vars) \<and> length vars \<le> get_var_cnt es
        \<and> map fst priv = filter is_var (concat es)
        \<and> (\<forall>(t, k) \<in> set priv. k < length vars \<and> id (vars ! k) = name_of t)"
proof -
  have p: "\<forall>s \<in> set ks. parsed_by mem s \<noteq> None" using assms parse_all_eq(2) [of ks mem] by fastforce
  then have es: "es = map (\<lambda>s. the (parsed_by mem s)) ks" using assms parse_all_eq(1) [OF p] by simp
  have "\<forall>t \<in> set (concat es). is_var t \<longrightarrow> tok_len t \<le> length (tok t)"
    using concat_parsed [OF p] tokens_tok_ok unfolding es tok_ok_def by blast
  then show ?thesis
    using populate_toks_spec [of "concat es" "[]" "get_var_cnt es"]
    unfolding populate_vars_def
    by (auto simp: wf_vars_def fresh_vars_def get_var_cnt_def bound_ok_def split: sum.splits prod.splits)
qed

theorem kconfig_populate_correct_witness:
  "case parse_all (\<lambda>_. True) [''CONFIG_A & CONFIG_B=y'', ''CONFIG_A=m''] of
     Inl s \<Rightarrow> False
   | Inr es \<Rightarrow> (case populate_vars es of Inl s \<Rightarrow> False
       | Inr (vars, priv) \<Rightarrow> map id vars = [''CONFIG_A'', ''CONFIG_B''] \<and> map snd priv = [0, 1, 0]
           \<and> distinct (map id vars))"
proof -
  let ?ks = "[''CONFIG_A & CONFIG_B=y'', ''CONFIG_A=m'']"
  have c: "case parse_all (\<lambda>_. True) ?ks of
     Inl s \<Rightarrow> False
   | Inr es \<Rightarrow> (case populate_vars es of Inl s \<Rightarrow> False
       | Inr (vars, priv) \<Rightarrow> map id vars = [''CONFIG_A'', ''CONFIG_B''] \<and> map snd priv = [0, 1, 0])"
    by code_simp
  show ?thesis
  proof (cases "parse_all (\<lambda>_. True) ?ks")
    case (Inl s)
    with c show ?thesis by (simp only: sum.case)
  next
    case (Inr es)
    from kconfig_populate_correct [OF Inr] c show ?thesis
      unfolding Inr by (auto split: sum.splits prod.splits)
  qed
qed

section \<open>Where the code leaves its own memory\<close>

text \<open>A literal value compared with a variable that is set to y, m or n: \<^verbatim>\<open>strlen\<close> is applied to a
  pointer that was never assigned.\<close>

lemma kconfig_literal_unassigned:
  "tst_kconfig_check demo_env (\<lambda>_. True) [''CONFIG_MMU=42''] = Inl KC_UB"
  by code_simp

text \<open>A value at the end of a text without newline: the scan for white space passes the terminator.\<close>

lemma kconfig_value_overread:
  "kconfig_parse_line ''CONFIG_HZ=250'' [fresh_var ''CONFIG_HZ''] = PL_Overread"
  by code_simp

end
