(* ===== verification/C_Library.thy ===== *)
theory C_Library
  imports Ltp_Prelude "HOL-Library.Word" "HOL-Library.Signed_Division"
begin

text \<open>
  The numeric and formatted input routines of the C library that the sources call:
  \<^verbatim>\<open>strtoul(s, &end, 10)\<close> with a 64-bit \<^verbatim>\<open>unsigned long\<close>, the decimal output of \<^verbatim>\<open>printf("%d")\<close>, and
  \<^verbatim>\<open>sscanf\<close> for the directives the sources use (white space, ordinary characters, \<^verbatim>\<open>%%\<close>, \<^verbatim>\<open>%d\<close>, \<^verbatim>\<open>%s\<close> and
  their suppressed forms \<^verbatim>\<open>%*d\<close>, \<^verbatim>\<open>%*s\<close>). Signed 32-bit arithmetic is checked: \<open>i32\<close> is undefined
  for a value that does not fit.
\<close>

section \<open>Fallible computations\<close>

text \<open>Sequencing: the second step runs on the result of the first one, unless that failed.\<close>

definition bindr :: "'e + 'a \<Rightarrow> ('a \<Rightarrow> 'e + 'b) \<Rightarrow> 'e + 'b" where
  "bindr m f = (case m of Inl e \<Rightarrow> Inl e | Inr x \<Rightarrow> f x)"

lemma bindr_simps [simp]: "bindr (Inl e) f = Inl e" "bindr (Inr x) f = f x"
  by (simp_all add: bindr_def)

section \<open>Machine integers\<close>

definition INT_MAX :: int where "INT_MAX = 2 ^ 31 - 1"
definition INT_MIN :: int where "INT_MIN = - (2 ^ 31)"
definition ULONG_MAX :: int where "ULONG_MAX = 2 ^ 64 - 1"
definition LLONG_MAX :: int where "LLONG_MAX = 2 ^ 63 - 1"
definition LLONG_MIN :: int where "LLONG_MIN = - (2 ^ 63)"

text \<open>\<^verbatim>\<open>unsigned int\<close> arithmetic on natural numbers below \<open>2 ^ 32\<close>.\<close>

definition u32 :: "nat \<Rightarrow> nat" where
  "u32 n = unat (of_nat n :: 32 word)"

definition u32_minus :: "nat \<Rightarrow> nat \<Rightarrow> nat" where
  "u32_minus m n = unat (of_nat m - of_nat n :: 32 word)"

definition i32 :: "int \<Rightarrow> int option" where
  "i32 x = (if INT_MIN \<le> x \<and> x \<le> INT_MAX then Some x else None)"

definition i64 :: "int \<Rightarrow> int option" where
  "i64 x = (if LLONG_MIN \<le> x \<and> x \<le> LLONG_MAX then Some x else None)"

section \<open>Decimal numbers\<close>

definition digit :: "nat \<Rightarrow> char" where
  "digit n = char_of (48 + n)"

fun dec :: "nat \<Rightarrow> cstr" where
  "dec n = (if n < 10 then [digit n] else dec (n div 10) @ [digit (n mod 10)])"

declare dec.simps [simp del]

definition sdec :: "int \<Rightarrow> cstr" where
  "sdec i = (if i < 0 then CHR ''-'' # dec (nat (- i)) else dec (nat i))"

definition digit_val :: "char \<Rightarrow> nat" where
  "digit_val c = of_char c - 48"

definition dec_val :: "cstr \<Rightarrow> nat" where
  "dec_val s = foldl (\<lambda>a c. 10 * a + digit_val c) 0 s"

text \<open>A sign is accepted; the negated value wraps around.\<close>

definition strtoul10 :: "cstr \<Rightarrow> nat \<times> cstr" where
  "strtoul10 s =
     (let p = dropWhile isspace s;
          q = (if deref p = CHR ''-'' \<or> deref p = CHR ''+'' then tl p else p);
          ds = takeWhile isdigit q
      in
      if ds = [] then (0, s)
      else (if int (dec_val ds) > ULONG_MAX then nat ULONG_MAX
            else if deref p = CHR ''-'' then nat ((ULONG_MAX + 1 - int (dec_val ds)) mod (ULONG_MAX + 1))
            else dec_val ds,
            dropWhile isdigit q))"

section \<open>Hexadecimal numbers\<close>

definition isxdigit :: "char \<Rightarrow> bool" where
  "isxdigit c = (isdigit c \<or> (97 \<le> (of_char c :: nat) \<and> (of_char c :: nat) \<le> 102)
     \<or> (65 \<le> (of_char c :: nat) \<and> (of_char c :: nat) \<le> 70))"

definition xdigit_val :: "char \<Rightarrow> nat" where
  "xdigit_val c =
     (if isdigit c then of_char c - 48
      else if islower c then of_char c - 87 else of_char c - 55)"

definition xdigit :: "nat \<Rightarrow> char" where
  "xdigit n = (if n < 10 then char_of (48 + n) else char_of (87 + n))"

definition hex_val :: "cstr \<Rightarrow> nat" where
  "hex_val s = foldl (\<lambda>a c. 16 * a + xdigit_val c) 0 s"

text \<open>\<^verbatim>\<open>printf("%0*x", k, v)\<close> for a value of at most \<open>k\<close> digits.\<close>

fun hex_digits :: "nat \<Rightarrow> nat \<Rightarrow> cstr" where
  "hex_digits 0 v = []"
| "hex_digits (Suc k) v = hex_digits k (v div 16) @ [xdigit (v mod 16)]"

text \<open>\<^verbatim>\<open>strtoul(s, &end, 16)\<close>: white space, a sign and the prefix \<^verbatim>\<open>0x\<close> are accepted.\<close>

definition strtoul16 :: "cstr \<Rightarrow> nat \<times> cstr" where
  "strtoul16 s =
     (let p = dropWhile isspace s;
          q = (if deref p = CHR ''-'' \<or> deref p = CHR ''+'' then tl p else p);
          r = (if c_at q 0 = CHR ''0'' \<and> (c_at q 1 = CHR ''x'' \<or> c_at q 1 = CHR ''X'')
                  \<and> isxdigit (c_at q 2) then drop 2 q else q);
          ds = takeWhile isxdigit r
      in
      if ds = [] then (0, s)
      else (if int (hex_val ds) > ULONG_MAX then nat ULONG_MAX
            else if deref p = CHR ''-'' then nat ((ULONG_MAX + 1 - int (hex_val ds)) mod (ULONG_MAX + 1))
            else hex_val ds,
            dropWhile isxdigit r))"

section \<open>Tokens\<close>

text \<open>The strings that \<^verbatim>\<open>strtok(s, delims)\<close>, \<^verbatim>\<open>strtok(NULL, delims)\<close>, ... return: the longest pieces of the string
  without a delimiter; empty pieces are skipped.\<close>

function strtok :: "cstr \<Rightarrow> cstr \<Rightarrow> cstr list" where
  "strtok s delims =
     (let p = dropWhile (\<lambda>c. c \<in> set delims) s in
      if p = [] then []
      else takeWhile (\<lambda>c. c \<notin> set delims) p # strtok (dropWhile (\<lambda>c. c \<notin> set delims) p) delims)"
  by pat_completeness auto
termination
proof (relation "measure (\<lambda>(s, delims). length s)")
  fix s delims p :: cstr
  assume p: "p = dropWhile (\<lambda>c. c \<in> set delims) s" "p \<noteq> []"
  then have "hd p \<notin> set delims" by (metis hd_dropWhile)
  then have "length (dropWhile (\<lambda>c. c \<notin> set delims) p) < length p"
    using p(2) by (cases p) (auto simp: less_Suc_eq_le intro: length_dropWhile_le)
  also have "\<dots> \<le> length s" using p(1) length_dropWhile_le by metis
  finally show "((dropWhile (\<lambda>c. c \<notin> set delims) p, delims), s, delims) \<in> measure (\<lambda>(s, delims). length s)"
    by simp
qed simp

declare strtok.simps [simp del]

section \<open>Formatted input\<close>

datatype directive = D_Space | D_Char char | D_Percent | D_Int bool | D_Str bool | D_Other

text \<open>The flag says whether the conversion is assigned.\<close>

fun directives :: "cstr \<Rightarrow> directive list" where
  "directives [] = []"
| "directives (c # f) =
     (if c = CHR ''%'' then
        (case f of
           [] \<Rightarrow> [D_Other]
         | d # g \<Rightarrow>
             if d = CHR ''%'' then D_Percent # directives g
             else if d = CHR ''d'' then D_Int True # directives g
             else if d = CHR ''s'' then D_Str True # directives g
             else if d = CHR ''*'' then
               (case g of
                  [] \<Rightarrow> [D_Other]
                | e # h \<Rightarrow>
                    if e = CHR ''d'' then D_Int False # directives h
                    else if e = CHR ''s'' then D_Str False # directives h
                    else [D_Other])
             else [D_Other])
      else if isspace c then D_Space # directives f
      else D_Char c # directives f)"

datatype sval = SInt int | SStr cstr

text \<open>\<open>%d\<close>: white space, an optional sign and digits. The number is the one written; whether it fits the
  variable is up to the caller.\<close>

definition scan_int :: "cstr \<Rightarrow> (int \<times> cstr) option" where
  "scan_int s =
     (let p = dropWhile isspace s;
          q = (if deref p = CHR ''-'' \<or> deref p = CHR ''+'' then tl p else p);
          ds = takeWhile isdigit q
      in
      if ds = [] then None
      else Some (if deref p = CHR ''-'' then - int (dec_val ds) else int (dec_val ds), dropWhile isdigit q))"

text \<open>\<open>%i\<close>: like \<open>%d\<close>, with the base given by a prefix \<^verbatim>\<open>0x\<close> or \<^verbatim>\<open>0\<close>.\<close>

definition isodigit :: "char \<Rightarrow> bool" where
  "isodigit c = (48 \<le> (of_char c :: nat) \<and> (of_char c :: nat) \<le> 55)"

definition oct_val :: "cstr \<Rightarrow> nat" where
  "oct_val s = foldl (\<lambda>a c. 8 * a + digit_val c) 0 s"

definition scan_based :: "cstr \<Rightarrow> (nat \<times> cstr) option" where
  "scan_based q =
     (if c_at q 0 = CHR ''0'' \<and> (c_at q 1 = CHR ''x'' \<or> c_at q 1 = CHR ''X'') then
        (let ds = takeWhile isxdigit (drop 2 q) in
         if ds = [] then None else Some (hex_val ds, dropWhile isxdigit (drop 2 q)))
      else if c_at q 0 = CHR ''0'' then Some (oct_val (takeWhile isodigit q), dropWhile isodigit q)
      else (let ds = takeWhile isdigit q in
            if ds = [] then None else Some (dec_val ds, dropWhile isdigit q)))"

definition scan_i :: "cstr \<Rightarrow> (int \<times> cstr) option" where
  "scan_i s =
     (let p = dropWhile isspace s;
          q = (if deref p = CHR ''-'' \<or> deref p = CHR ''+'' then tl p else p)
      in map_option (map_prod (\<lambda>n. if deref p = CHR ''-'' then - int n else int n) (\<lambda>r. r)) (scan_based q))"

definition scan_str :: "cstr \<Rightarrow> (cstr \<times> cstr) option" where
  "scan_str s =
     (let p = dropWhile isspace s; w = takeWhile (\<lambda>c. \<not> isspace c) p in
      if w = [] then None else Some (w, drop (length w) p))"

text \<open>The values assigned before the first directive that does not match.\<close>

fun scan_run :: "directive list \<Rightarrow> cstr \<Rightarrow> sval list" where
  "scan_run [] s = []"
| "scan_run (D_Space # ds) s = scan_run ds (dropWhile isspace s)"
| "scan_run (D_Char c # ds) s = (case s of [] \<Rightarrow> [] | x # r \<Rightarrow> if x = c then scan_run ds r else [])"
| "scan_run (D_Percent # ds) s =
     (case dropWhile isspace s of [] \<Rightarrow> [] | x # r \<Rightarrow> if x = CHR ''%'' then scan_run ds r else [])"
| "scan_run (D_Int asg # ds) s =
     (case scan_int s of None \<Rightarrow> [] | Some (v, r) \<Rightarrow> (if asg then [SInt v] else []) @ scan_run ds r)"
| "scan_run (D_Str asg # ds) s =
     (case scan_str s of None \<Rightarrow> [] | Some (w, r) \<Rightarrow> (if asg then [SStr w] else []) @ scan_run ds r)"
| "scan_run (D_Other # ds) s = []"

definition sscanf :: "cstr \<Rightarrow> cstr \<Rightarrow> sval list" where
  "sscanf s fmt = scan_run (directives fmt) s"

section \<open>Lemmas\<close>

lemma smod_nonneg: "0 \<le> a \<Longrightarrow> 0 < b \<Longrightarrow> a smod b = a mod (b::int)"
  by (cases "a = 0") (simp_all add: signed_modulo_int_def)

lemma sdiv_nonneg: "0 \<le> a \<Longrightarrow> 0 < b \<Longrightarrow> a sdiv b = a div (b::int)"
  by (cases "a = 0") (simp_all add: signed_divide_int_def)

lemma u32_eq: "u32 n = n mod 2 ^ 32"
  by (simp add: u32_def unsigned_of_nat take_bit_eq_mod)

lemma u32_less [simp]: "n < 2 ^ 32 \<Longrightarrow> u32 n = n"
  by (simp add: u32_eq)

lemma u32_minus_eq:
  assumes "m < 2 ^ 32" "n < 2 ^ 32"
  shows "u32_minus m n = (if n \<le> m then m - n else m + 2 ^ 32 - n)"
proof -
  have w: "(of_nat m - of_nat n :: 32 word) = word_of_int (int m - int n)" by simp
  have "u32_minus m n = nat (uint (word_of_int (int m - int n) :: 32 word))"
    unfolding u32_minus_def w by (simp only: nat_uint_eq)
  also have "\<dots> = nat ((int m - int n) mod 2 ^ 32)" by (simp only: uint_word_of_int) simp
  also have "(int m - int n) mod 2 ^ 32 = (if n \<le> m then int m - int n else int m - int n + 2 ^ 32)"
  proof (cases "n \<le> m")
    case True
    then show ?thesis using assms by (simp add: mod_pos_pos_trivial)
  next
    case False
    have "(int m - int n) mod 2 ^ 32 = (int m - int n + 2 ^ 32) mod 2 ^ 32" by (simp only: mod_add_self2)
    also have "\<dots> = int m - int n + 2 ^ 32" using False assms by (intro mod_pos_pos_trivial) simp_all
    finally show ?thesis using False by simp
  qed
  finally show ?thesis using assms by (simp split: if_splits)
qed

lemma i32_Some: "i32 x = Some y \<longleftrightarrow> y = x \<and> INT_MIN \<le> x \<and> x \<le> INT_MAX"
  by (auto simp: i32_def)

lemma i64_Some: "i64 x = Some y \<longleftrightarrow> y = x \<and> LLONG_MIN \<le> x \<and> x \<le> LLONG_MAX"
  by (auto simp: i64_def)

lemma of_char_digit [simp]: "n < 10 \<Longrightarrow> of_char (digit n) = 48 + n"
  by (simp add: digit_def)

lemma isdigit_digit [simp]: "n < 10 \<Longrightarrow> isdigit (digit n)"
  by (simp add: isdigit_def)

lemma digit_val_digit [simp]: "n < 10 \<Longrightarrow> digit_val (digit n) = n"
  by (simp add: digit_val_def)

lemma dec_nonempty [simp]: "dec n \<noteq> []"
  by (subst dec.simps) simp

lemma dec_digits: "c \<in> set (dec n) \<Longrightarrow> isdigit c"
  by (induction n rule: dec.induct) (subst (asm) (2) dec.simps, auto split: if_splits)

lemma dec_val_dec [simp]: "dec_val (dec n) = n"
proof (induction n rule: dec.induct)
  case (1 n)
  then show ?case by (subst dec.simps) (auto simp: dec_val_def)
qed

lemma digit_not_space: "isdigit c \<Longrightarrow> \<not> isspace c \<and> c \<noteq> CHR ''-'' \<and> c \<noteq> CHR ''+''"
  by (auto simp: isdigit_def isspace_def)

lemma dec_head: "dropWhile isspace (dec n @ r) = dec n @ r \<and> deref (dec n @ r) \<noteq> CHR ''-'' \<and> deref (dec n @ r) \<noteq> CHR ''+''"
proof (cases "dec n")
  case (Cons c s)
  then have "isdigit c" using dec_digits [of c n] by simp
  then show ?thesis using Cons digit_not_space [of c] by simp
qed simp

lemma span_dec:
  assumes "r = [] \<or> \<not> isdigit (hd r)"
  shows "takeWhile isdigit (dec n @ r) = dec n" "dropWhile isdigit (dec n @ r) = r"
  using assms dec_digits [of _ n]
  by (cases r; auto simp: takeWhile_append dropWhile_append takeWhile_eq_all_conv)+

text \<open>Reading a printed number gives it back and stops behind it.\<close>

lemma strtoul10_dec:
  assumes "int n \<le> ULONG_MAX" "r = [] \<or> \<not> isdigit (hd r)"
  shows "strtoul10 (dec n @ r) = (n, r)"
  using assms dec_head [of n r] span_dec [OF assms(2), of n] by (simp add: strtoul10_def Let_def)

lemma scan_int_dec:
  assumes "r = [] \<or> \<not> isdigit (hd r)"
  shows "scan_int (dec n @ r) = Some (int n, r)"
  using dec_head [of n r] span_dec [OF assms, of n] by (simp add: scan_int_def Let_def)

lemma dec_leading: "0 < n \<Longrightarrow> deref (dec n @ r) \<noteq> CHR ''0''"
proof (induction n arbitrary: r rule: dec.induct)
  case (1 n)
  have "digit n \<noteq> CHR ''0''" if "n < 10"
    using digit_val_digit [OF that] \<open>0 < n\<close> by (auto simp: digit_val_def)
  then show ?case using 1 by (subst dec.simps) simp
qed

lemma scan_based_dec:
  assumes "r = [] \<or> \<not> isdigit (hd r) \<and> hd r \<noteq> CHR ''x'' \<and> hd r \<noteq> CHR ''X''"
  shows "scan_based (dec n @ r) = Some (n, r)"
proof (cases "n = 0")
  case True
  have "dec 0 = ''0''" by code_simp
  moreover have "takeWhile isodigit r = []" "dropWhile isodigit r = r"
    using assms by (cases r; auto simp: isodigit_def isdigit_def)+
  moreover have "isodigit (CHR ''0'')" "oct_val ''0'' = 0" by code_simp+
  ultimately show ?thesis using True assms
    by (cases r) (auto simp: scan_based_def Let_def c_at_def)
next
  case False
  then have "c_at (dec n @ r) 0 \<noteq> CHR ''0''"
    using dec_leading [of n r] by (cases "dec n") (auto simp: c_at_def)
  moreover have "takeWhile isdigit (dec n @ r) = dec n" "dropWhile isdigit (dec n @ r) = r"
    using span_dec [of r n] assms by blast+
  ultimately show ?thesis by (simp add: scan_based_def Let_def)
qed

text \<open>Reading a printed integer gives it back.\<close>

lemma scan_i_sdec:
  assumes "r = [] \<or> \<not> isdigit (hd r) \<and> hd r \<noteq> CHR ''x'' \<and> hd r \<noteq> CHR ''X''"
  shows "scan_i (sdec i @ r) = Some (i, r)"
proof (cases "i < 0")
  case True
  have "\<not> isspace (CHR ''-'')" by code_simp
  then show ?thesis using True scan_based_dec [OF assms, of "nat (- i)"]
    by (simp add: scan_i_def sdec_def Let_def)
next
  case False
  then show ?thesis using dec_head [of "nat i" r] scan_based_dec [OF assms, of "nat i"]
    by (simp add: scan_i_def sdec_def Let_def)
qed

lemma sdec_nonempty [simp]: "sdec i \<noteq> []"
  by (simp add: sdec_def)

lemma sdec_chars: "c \<in> set (sdec i) \<Longrightarrow> isdigit c \<or> c = CHR ''-''"
  by (auto simp: sdec_def dest: dec_digits split: if_splits)

lemma strtok_Cons:
  assumes "t \<noteq> []" "\<forall>c \<in> set t. c \<notin> set delims" "d \<in> set delims"
  shows "strtok (t @ d # s) delims = t # strtok s delims"
proof -
  have 1: "dropWhile (\<lambda>c. c \<in> set delims) (t @ d # s) = t @ d # s"
    using assms(1,2) by (cases t) auto
  have 2: "takeWhile (\<lambda>c. c \<notin> set delims) (t @ d # s) = t" "dropWhile (\<lambda>c. c \<notin> set delims) (t @ d # s) = d # s"
    using assms(2,3) by (simp_all add: takeWhile_append2 dropWhile_append2)
  have "strtok (d # s) delims = strtok s delims"
    using assms(3) by (subst (1 2) strtok.simps) simp
  then show ?thesis using assms(1) by (subst strtok.simps) (simp add: 1 2 Let_def)
qed

lemma strtok_last:
  assumes "t \<noteq> []" "\<forall>c \<in> set t. c \<notin> set delims"
  shows "strtok t delims = [t]"
proof -
  have 1: "dropWhile (\<lambda>c. c \<in> set delims) t = t" using assms by (cases t) auto
  have 2: "takeWhile (\<lambda>c. c \<notin> set delims) t = t" "dropWhile (\<lambda>c. c \<notin> set delims) t = []"
    using assms(2) by (simp_all add: takeWhile_eq_all_conv dropWhile_eq_Nil_conv)
  have "strtok [] delims = []" by (subst strtok.simps) simp
  then show ?thesis using assms(1) by (subst strtok.simps) (simp add: 1 2 Let_def)
qed

text \<open>There is at most one token more than there are delimiters.\<close>

lemma strtok_length_aux:
  "length (strtok s delims) \<le> Suc (length (filter (\<lambda>c. c \<in> set delims) s))
   \<and> (s = [] \<or> hd s \<in> set delims \<longrightarrow> length (strtok s delims) \<le> length (filter (\<lambda>c. c \<in> set delims) s))"
proof (induction s delims rule: strtok.induct)
  case (1 s delims)
  define p where "p = dropWhile (\<lambda>c. c \<in> set delims) s"
  define q where "q = dropWhile (\<lambda>c. c \<notin> set delims) p"
  have fs: "length (filter (\<lambda>c. c \<in> set delims) (dropWhile (\<lambda>c. c \<in> set delims) t))
      \<le> length (filter (\<lambda>c. c \<in> set delims) t)" for t
    by (induction t) auto
  have fh: "length (filter (\<lambda>c. c \<in> set delims) p) < length (filter (\<lambda>c. c \<in> set delims) s)"
    if "s \<noteq> []" "hd s \<in> set delims"
    using that fs [of "tl s"] unfolding p_def by (cases s) auto
  have fp: "filter (\<lambda>c. c \<in> set delims) q = filter (\<lambda>c. c \<in> set delims) p"
    unfolding q_def by (induction p) auto
  have e: "strtok s delims = (if p = [] then [] else takeWhile (\<lambda>c. c \<notin> set delims) p # strtok q delims)"
    by (subst strtok.simps) (simp add: p_def [symmetric] q_def Let_def)
  show ?case
  proof (cases "p = []")
    case False
    have "q = [] \<or> hd q \<in> set delims" unfolding q_def by (metis hd_dropWhile)
    then have "length (strtok q delims) \<le> length (filter (\<lambda>c. c \<in> set delims) q)"
      using 1 [OF p_def False] unfolding q_def by blast
    then show ?thesis using e False fp fs [of s] fh p_def by (cases s) (auto simp: p_def [symmetric])
  qed (simp add: e)
qed

lemma strtok_length: "length (strtok s delims) \<le> Suc (length (filter (\<lambda>c. c \<in> set delims) s))"
  using strtok_length_aux by blast

lemma isxdigit_xdigit [simp]: "n < 16 \<Longrightarrow> isxdigit (xdigit n)"
  by (auto simp: isxdigit_def isdigit_def xdigit_def)

lemma xdigit_val_xdigit [simp]: "n < 16 \<Longrightarrow> xdigit_val (xdigit n) = n"
  by (auto simp: xdigit_val_def xdigit_def isdigit_def islower_def)

lemma length_hex_digits [simp]: "length (hex_digits k v) = k"
  by (induction k arbitrary: v) auto

lemma hex_digits_xdigit: "c \<in> set (hex_digits k v) \<Longrightarrow> isxdigit c"
  by (induction k arbitrary: v) auto

lemma hex_val_append: "hex_val (s @ [c]) = 16 * hex_val s + xdigit_val c"
  by (simp add: hex_val_def)

lemma hex_val_digits: "hex_val (hex_digits k v) = v mod 16 ^ k"
proof (induction k arbitrary: v)
  case (Suc k)
  have "v mod (16 * 16 ^ k) = 16 * (v div 16 mod 16 ^ k) + v mod 16"
    by (simp add: mod_mult2_eq)
  then show ?case by (simp add: hex_val_append Suc)
qed (simp add: hex_val_def)

lemma xdigit_not_special:
  "isxdigit c \<Longrightarrow> \<not> isspace c \<and> c \<noteq> CHR ''-'' \<and> c \<noteq> CHR ''+'' \<and> c \<noteq> CHR ''x'' \<and> c \<noteq> CHR ''X''"
  by (auto simp: isxdigit_def isdigit_def isspace_def)

lemma strtoul16_digits:
  assumes "0 < k" "k \<le> 16" "r = [] \<or> \<not> isxdigit (hd r)" "k = 1 \<longrightarrow> r = [] \<or> hd r \<noteq> CHR ''x'' \<and> hd r \<noteq> CHR ''X''"
  shows "strtoul16 (hex_digits k v @ r) = (v mod 16 ^ k, r)"
proof -
  obtain c s where cs: "hex_digits k v = c # s" using assms(1) by (cases "hex_digits k v") (auto dest: arg_cong [of _ _ length])
  have x: "\<forall>d \<in> set (c # s). isxdigit d" using hex_digits_xdigit cs by metis
  have len: "length (c # s) = k" using cs length_hex_digits by metis
  have second: "c_at (c # s @ r) 1 \<noteq> CHR ''x'' \<and> c_at (c # s @ r) 1 \<noteq> CHR ''X''"
  proof (cases s)
    case Nil
    then show ?thesis using assms(4) len by (cases r) (auto simp: c_at_def)
  next
    case (Cons d t)
    then show ?thesis using x xdigit_not_special [of d] by (simp add: c_at_def)
  qed
  have "(16::nat) ^ k \<le> 16 ^ 16" using assms(2) by (intro power_increasing) auto
  then have "v mod 16 ^ k < 16 ^ 16"
    by (meson less_le_trans mod_less_divisor zero_less_numeral zero_less_power)
  then have "int (v mod 16 ^ k) \<le> ULONG_MAX" unfolding ULONG_MAX_def by simp
  then have small: "\<not> int (hex_val (hex_digits k v)) > ULONG_MAX"
    by (simp only: hex_val_digits not_less)
  have w: "takeWhile isxdigit (c # s @ r) = c # s" "dropWhile isxdigit (c # s @ r) = r"
    using x assms(3) by (cases r; auto simp: takeWhile_append dropWhile_append takeWhile_eq_all_conv)+
  have "\<not> isspace c" "c \<noteq> CHR ''-''" "c \<noteq> CHR ''+''" using x xdigit_not_special [of c] by auto
  then show ?thesis
    using small second w cs hex_val_digits [of k v] by (simp add: strtoul16_def Let_def)
qed

subsection \<open>Lengths of numbers\<close>

lemma length_dec: "n < 10 ^ k \<Longrightarrow> 0 < k \<Longrightarrow> length (dec n) \<le> k"
proof (induction k arbitrary: n)
  case (Suc k)
  show ?case
  proof (cases "n < 10")
    case False
    then have "k \<noteq> 0" using Suc.prems by (cases k) auto
    then have "length (dec (n div 10)) \<le> k" using Suc by (intro Suc.IH) auto
    then show ?thesis using False by (subst dec.simps) simp
  qed (subst dec.simps, simp)
qed simp

lemma length_sdec: "i32 p \<noteq> None \<Longrightarrow> length (sdec p) \<le> 11"
proof -
  assume "i32 p \<noteq> None"
  then have "nat (- p) < 10 ^ 10" "nat p < 10 ^ 10"
    by (auto simp: i32_def INT_MIN_def INT_MAX_def nat_less_iff split: if_splits)
  then show ?thesis using length_dec [of "nat (- p)" 10] length_dec [of "nat p" 10] by (simp add: sdec_def)
qed

end
