(* ===== verification/Kvercmp.thy ===== *)
theory Kvercmp
  imports C_Library "HOL-Library.Monad_Syntax"
begin

text \<open>
  \<^verbatim>\<open>lib/tst_kvercmp.c\<close>: parsing and comparing kernel versions. Results of type \<open>int option\<close> are \<open>None\<close>
  where a signed 32-bit computation of the code overflows. The running kernel's release and the
  contents of \<^verbatim>\<open>/etc/os-release\<close> (\<open>None\<close> when it does not exist) are arguments; a null pointer is
  \<open>None\<close>.
\<close>

section \<open>Version numbers\<close>

definition parse_digit :: "cstr \<Rightarrow> (int \<times> cstr) option" where
  "parse_digit str =
     (let (v, e) = strtoul10 str in
      if str = e then None
      else if int v > INT_MAX then None
      else Some (int v, e))"

text \<open>The returned number and the three variables as the call leaves them.\<close>

definition tst_parse_kver :: "cstr \<Rightarrow> nat \<times> int \<times> int \<times> int" where
  "tst_parse_kver str_kver =
     (case parse_digit str_kver of
        None \<Rightarrow> (1, 0, 0, 0)
      | Some (v1, str1) \<Rightarrow>
          if deref str1 \<noteq> CHR ''.'' then (1, v1, 0, 0)
          else case parse_digit (tl str1) of
            None \<Rightarrow> (1, v1, 0, 0)
          | Some (v2, str2) \<Rightarrow>
              if deref str2 = SPACE \<or> deref str2 = NUL then (0, v1, v2, 0)
              else if deref str2 \<noteq> CHR ''.'' then (1, v1, v2, 0)
              else case parse_digit (tl str2) of
                None \<Rightarrow> (1, v1, v2, 0)
              | Some (v3, str3) \<Rightarrow> (0, v1, v2, v3))"

text \<open>\<^verbatim>\<open>(a << 16) + (b << 8) + c\<close>. Shifting a negative number left is undefined, like an overflow.\<close>

definition shl :: "int \<Rightarrow> nat \<Rightarrow> int option" where
  "shl a n = (if a < 0 then None else i32 (a * 2 ^ n))"

definition pack_version :: "int \<Rightarrow> int \<Rightarrow> int \<Rightarrow> int option" where
  "pack_version a b c = do {
     x \<leftarrow> shl a 16;
     y \<leftarrow> shl b 8;
     s \<leftarrow> i32 (x + y);
     i32 (s + c)
   }"

definition tst_kvcmp :: "cstr \<Rightarrow> int \<Rightarrow> int \<Rightarrow> int \<Rightarrow> log \<times> int option" where
  "tst_kvcmp cur_kver r1 r2 r3 =
     (let (err, a1, a2, a3) = tst_parse_kver cur_kver in
      (if err \<noteq> 0
       then [(TWARN, ''Invalid kernel version '' @ cur_kver @ '', expected %d.%d.%d'')] else [],
       do {
         testver \<leftarrow> pack_version r1 r2 r3;
         currver \<leftarrow> pack_version a1 a2 a3;
         i32 (currver - testver)
       }))"

definition tst_kvercmp :: "cstr \<Rightarrow> int \<Rightarrow> int \<Rightarrow> int \<Rightarrow> log \<times> int option" where
  "tst_kvercmp release r1 r2 r3 = tst_kvcmp release r1 r2 r3"

section \<open>Extended versions\<close>

text \<open>The five variables after \<^verbatim>\<open>sscanf(s, "%d.%d.%d-%d.%d", ...)\<close>: those not converted stay 0.\<close>

fun int_of_sval :: "sval \<Rightarrow> int" where
  "int_of_sval (SInt v) = v"
| "int_of_sval (SStr s) = 0"

definition scan_kvex :: "cstr \<Rightarrow> int list option" where
  "scan_kvex s =
     (let vs = map int_of_sval (sscanf s ''%d.%d.%d-%d.%d'') in
      if list_all (\<lambda>v. i32 v \<noteq> None) vs then Some (vs @ replicate (5 - length vs) 0) else None)"

text \<open>\<^verbatim>\<open>if ((ret = c1 - t1)) return ret; ...\<close>: the first difference that is not 0; the last one is returned
  in any case.\<close>

fun first_diff :: "(int \<times> int) list \<Rightarrow> int option" where
  "first_diff [] = Some 0"
| "first_diff [(c, t)] = i32 (c - t)"
| "first_diff ((c, t) # ps) = do { ret \<leftarrow> i32 (c - t); if ret \<noteq> 0 then Some ret else first_diff ps }"

definition tst_kvexcmp :: "cstr \<Rightarrow> cstr \<Rightarrow> int option" where
  "tst_kvexcmp tst_exv cur_ver = do {
     c \<leftarrow> scan_kvex cur_ver;
     t \<leftarrow> scan_kvex tst_exv;
     first_diff (zip c t)
   }"

section \<open>Distributions\<close>

definition toupper :: "char \<Rightarrow> char" where
  "toupper c = (if islower c then char_of ((of_char c :: nat) - 32) else c)"

text \<open>The loop over \<^verbatim>\<open>distname\<close>: cut at the first quote, upper case before it.\<close>

definition upcase_till_quote :: "cstr \<Rightarrow> cstr" where
  "upcase_till_quote p = map toupper (takeWhile (\<lambda>c. c \<noteq> DQUOTE) p)"

text \<open>\<^verbatim>\<open>SAFE_FILE_LINES_SCANF(NULL, path, "ID=%s", distname)\<close>: the first line that gives one value, or
  TBROK.\<close>

definition BUFSIZ :: nat where "BUFSIZ = 8192"

fun first_id :: "cstr list \<Rightarrow> cstr option" where
  "first_id [] = None"
| "first_id (line # lines) =
     (case sscanf line ''ID=%s'' of [SStr w] \<Rightarrow> Some w | _ \<Rightarrow> first_id lines)"

datatype 'a kv_result = KV_Ret 'a | KV_Brk ttype | KV_Overflow

definition DISTNAME_SIZE :: nat where "DISTNAME_SIZE = 64"

definition tst_kvcmp_distname :: "cstr option \<Rightarrow> cstr \<Rightarrow> cstr option kv_result" where
  "tst_kvcmp_distname os_release kver =
     (if strstr kver ''.el5uek'' \<noteq> None then KV_Ret (Some ''OL5UEK'')
      else if strstr kver ''.el5'' \<noteq> None then KV_Ret (Some ''RHEL5'')
      else if strstr kver ''.el6uek'' \<noteq> None then KV_Ret (Some ''OL6UEK'')
      else if strstr kver ''.el6'' \<noteq> None then KV_Ret (Some ''RHEL6'')
      else if strstr kver ''.el7'' \<noteq> None then KV_Ret (Some ''RHEL7'')
      else if strstr kver ''.el8'' \<noteq> None then KV_Ret (Some ''RHEL8'')
      else case os_release of
        None \<Rightarrow> KV_Ret None
      | Some text \<Rightarrow>
          (case first_id (fgets_all BUFSIZ text) of
             None \<Rightarrow> KV_Brk TBROK
           | Some distname \<Rightarrow>
               if length distname \<ge> DISTNAME_SIZE then KV_Overflow
               else KV_Ret (Some (upcase_till_quote
                      (if deref distname = DQUOTE then tl distname else distname)))))"

record tst_kern_exv =
  dist_name :: cstr
  extra_ver :: cstr

fun find_exv :: "tst_kern_exv list \<Rightarrow> cstr \<Rightarrow> cstr option" where
  "find_exv [] name = None"
| "find_exv (v # vers) name = (if dist_name v = name then Some (extra_ver v) else find_exv vers name)"

text \<open>\<open>vers\<close> is the array before its terminating null entry.\<close>

definition tst_kvercmp2 :: "cstr \<Rightarrow> cstr option \<Rightarrow> int \<Rightarrow> int \<Rightarrow> int \<Rightarrow> tst_kern_exv list
     \<Rightarrow> (log \<times> int option) kv_result" where
  "tst_kvercmp2 release os_release r1 r2 r3 vers =
     (case tst_kvcmp_distname os_release release of
        KV_Brk m \<Rightarrow> KV_Brk m
      | KV_Overflow \<Rightarrow> KV_Overflow
      | KV_Ret None \<Rightarrow> KV_Ret (tst_kvercmp release r1 r2 r3)
      | KV_Ret (Some cur_dist_name) \<Rightarrow>
          (case find_exv vers cur_dist_name of
             Some exv \<Rightarrow>
               KV_Ret ([(TINFO, ''Detected '' @ cur_dist_name @ '' using kernel version '' @ release)],
                       tst_kvexcmp exv release)
           | None \<Rightarrow> KV_Ret (tst_kvcmp release r1 r2 r3)))"

section \<open>Lemmas\<close>

text \<open>The reference order: component by component.\<close>

fun ver_cmp :: "nat list \<Rightarrow> nat list \<Rightarrow> int" where
  "ver_cmp (a # as) (b # bs) = (if a < b then - 1 else if b < a then 1 else ver_cmp as bs)"
| "ver_cmp _ _ = 0"

lemma parse_digit_dec:
  assumes "int n \<le> INT_MAX" "r = [] \<or> \<not> isdigit (hd r)"
  shows "parse_digit (dec n @ r) = Some (int n, r)"
proof -
  have "int n \<le> ULONG_MAX" using assms(1) by (simp add: INT_MAX_def ULONG_MAX_def)
  with assms show ?thesis by (simp add: parse_digit_def strtoul10_dec)
qed

lemma not_digit [simp]: "\<not> isdigit (CHR ''.'')" "\<not> isdigit (CHR ''-'')" "\<not> isdigit SPACE"
  by (simp_all add: isdigit_def)

lemma parse_kver_dec:
  assumes "int a \<le> INT_MAX" "int b \<le> INT_MAX" "int c \<le> INT_MAX" "r = [] \<or> \<not> isdigit (hd r)"
  shows "tst_parse_kver (dec a @ ''.'' @ dec b @ ''.'' @ dec c @ r) = (0, int a, int b, int c)"
  using assms by (simp add: tst_parse_kver_def parse_digit_dec)

lemma parse_kver_short:
  assumes "int a \<le> INT_MAX" "int b \<le> INT_MAX" "r = [] \<or> hd r = SPACE"
  shows "tst_parse_kver (dec a @ ''.'' @ dec b @ r) = (0, int a, int b, 0)"
  using assms parse_digit_dec [of b "[]"] by (cases r) (simp_all add: tst_parse_kver_def parse_digit_dec)

lemma pack_version_eq:
  assumes "0 \<le> a" "a < 2 ^ 15" "0 \<le> b" "b < 256" "0 \<le> c" "c < 256"
  shows "pack_version a b c = Some (a * 65536 + b * 256 + c)"
  using assms by (simp add: pack_version_def shl_def i32_def INT_MIN_def INT_MAX_def)

lemma pack_order:
  fixes a b c a' b' c' :: nat
  assumes "b < 256" "c < 256" "b' < 256" "c' < 256"
  shows "sgn ((int a * 65536 + int b * 256 + int c) - (int a' * 65536 + int b' * 256 + int c'))
     = ver_cmp [a, b, c] [a', b', c']"
  using assms by (auto simp: sgn_if)

lemma first_diff_sgn:
  assumes "\<forall>(c, t) \<in> set (zip cs ts). int c \<le> INT_MAX \<and> int t \<le> INT_MAX" "length cs = length ts"
  shows "\<exists>d. first_diff (zip (map int cs) (map int ts)) = Some d \<and> sgn d = ver_cmp cs ts"
  using assms(2,1)
proof (induction cs ts rule: list_induct2)
  case (Cons c cs t ts)
  have d: "i32 (int c - int t) = Some (int c - int t)"
    using Cons.prems by (auto simp: i32_def INT_MIN_def INT_MAX_def)
  obtain e where e: "first_diff (zip (map int cs) (map int ts)) = Some e" "sgn e = ver_cmp cs ts"
    using Cons by auto
  show ?case
  proof (cases "zip (map int cs) (map int ts)")
    case Nil
    then have "cs = []" "ts = []" using Cons.hyps by auto
    with d show ?thesis by (auto simp: sgn_if)
  next
    case (Cons p ps)
    then have "first_diff (zip (map int (c # cs)) (map int (t # ts)))
        = (if int c - int t \<noteq> 0 then Some (int c - int t) else Some e)"
      using d e(1) by simp
    with e(2) show ?thesis by (auto simp: sgn_if)
  qed
qed simp

text \<open>An extended version as distributions write it.\<close>

definition kvex_text :: "nat list \<Rightarrow> cstr" where
  "kvex_text v = dec (v ! 0) @ ''.'' @ dec (v ! 1) @ ''.'' @ dec (v ! 2) @ ''-'' @ dec (v ! 3) @ ''.'' @ dec (v ! 4)"

lemma scan_kvex_text:
  assumes "length v = 5" "\<forall>n \<in> set v. int n \<le> INT_MAX" "r = [] \<or> \<not> isdigit (hd r)"
  shows "scan_kvex (kvex_text v @ r) = Some (map int v)"
proof -
  obtain a b c d e where v: "v = [a, b, c, d, e]"
    using assms(1) by (auto simp: eval_nat_numeral length_Suc_conv)
  have dirs: "directives ''%d.%d.%d-%d.%d'' =
      [D_Int True, D_Char (CHR ''.''), D_Int True, D_Char (CHR ''.''), D_Int True,
       D_Char (CHR ''-''), D_Int True, D_Char (CHR ''.''), D_Int True]"
    by code_simp
  have "sscanf (kvex_text v @ r) ''%d.%d.%d-%d.%d'' = map (\<lambda>n. SInt (int n)) v"
    using assms(3) unfolding sscanf_def dirs kvex_text_def v by (simp add: scan_int_dec)
  then have "map int_of_sval (sscanf (kvex_text v @ r) ''%d.%d.%d-%d.%d'') = map int v" by simp
  moreover have "list_all (\<lambda>x. i32 x \<noteq> None) (map int v)"
    using assms(2) by (auto simp: list_all_iff i32_def INT_MIN_def)
  ultimately show ?thesis using assms(1) unfolding scan_kvex_def Let_def by simp
qed

section \<open>Properties\<close>

text \<open>A version string printed as \<^verbatim>\<open>a.b.c\<close>, followed by anything that is no digit, or as \<^verbatim>\<open>a.b\<close> at the
  end of the string or before a blank, is parsed into its numbers.\<close>

theorem parse_kver_roundtrip:
  assumes "int a \<le> INT_MAX" and "int b \<le> INT_MAX" and "int c \<le> INT_MAX" and "r = [] \<or> \<not> isdigit (hd r)"
  shows "tst_parse_kver (dec a @ ''.'' @ dec b @ ''.'' @ dec c @ r) = (0, int a, int b, int c)
     \<and> tst_parse_kver (dec a @ ''.'' @ dec b) = (0, int a, int b, 0)
     \<and> tst_parse_kver (dec a @ ''.'' @ dec b @ SPACE # r) = (0, int a, int b, 0)"
  using assms parse_kver_dec [OF assms] parse_kver_short [of a b "[]"] parse_kver_short [of a b "SPACE # r"]
  by simp

theorem parse_kver_roundtrip_witness:
  "int 4 \<le> INT_MAX \<and> tst_parse_kver ''4.18.0-80.el8'' = (0, 4, 18, 0) \<and> tst_parse_kver ''4.18'' = (0, 4, 18, 0)"
proof -
  have h: "int 4 \<le> INT_MAX" "int 18 \<le> INT_MAX" "int 0 \<le> INT_MAX" by (simp_all add: INT_MAX_def)
  have n: "''-80.el8'' = [] \<or> \<not> isdigit (hd ''-80.el8'')" by simp
  have d: "dec 4 = ''4''" "dec 18 = ''18''" "dec 0 = ''0''" by code_simp+
  from parse_kver_roundtrip [OF h n] h show ?thesis unfolding d by simp
qed

text \<open>C15. Comparing with a kernel whose version fits the packing (major below 32768, the others below
  256) has the sign of the component-wise order, without overflow.\<close>

theorem kvcmp_order:
  assumes "a1 < 2 ^ 15" and "a2 < 256" and "a3 < 256" and "r1 < 2 ^ 15" and "r2 < 256" and "r3 < 256"
    and "r = [] \<or> \<not> isdigit (hd r)"
  shows "\<exists>d. tst_kvcmp (dec a1 @ ''.'' @ dec a2 @ ''.'' @ dec a3 @ r) (int r1) (int r2) (int r3) = ([], Some d)
     \<and> sgn d = ver_cmp [a1, a2, a3] [r1, r2, r3]"
proof -
  have p: "tst_parse_kver (dec a1 @ ''.'' @ dec a2 @ ''.'' @ dec a3 @ r) = (0, int a1, int a2, int a3)"
    using assms by (intro parse_kver_dec) (auto simp: INT_MAX_def)
  let ?d = "(int a1 * 65536 + int a2 * 256 + int a3) - (int r1 * 65536 + int r2 * 256 + int r3)"
  have "i32 ?d = Some ?d" using assms by (simp add: i32_def INT_MIN_def INT_MAX_def)
  moreover have "pack_version (int a1) (int a2) (int a3) = Some (int a1 * 65536 + int a2 * 256 + int a3)"
    "pack_version (int r1) (int r2) (int r3) = Some (int r1 * 65536 + int r2 * 256 + int r3)"
    using assms by (auto intro!: pack_version_eq)
  ultimately show ?thesis
    unfolding tst_kvcmp_def p using pack_order [of a2 a3 r2 r3 a1 r1] assms by simp
qed

theorem kvcmp_order_witness:
  "\<exists>d. tst_kvcmp ''5.4.17'' 5 10 0 = ([], Some d) \<and> d < 0"
proof -
  have "\<exists>d. tst_kvcmp (dec 5 @ ''.'' @ dec 4 @ ''.'' @ dec 17 @ []) (int 5) (int 10) (int 0) = ([], Some d)
      \<and> sgn d = ver_cmp [5, 4, 17] [5, 10, 0]"
    by (rule kvcmp_order) simp_all
  moreover have "dec 5 = ''5''" "dec 4 = ''4''" "dec 17 = ''17''" by code_simp+
  ultimately show ?thesis by (auto simp: sgn_if split: if_splits)
qed

text \<open>Comparing extended versions has the sign of the order of their five numbers; what follows
  the last number of the running kernel's release does not matter.\<close>

theorem kvexcmp_order:
  assumes "length c = 5" and "length t = 5" and "\<forall>n \<in> set c \<union> set t. int n \<le> INT_MAX"
    and "r = [] \<or> \<not> isdigit (hd r)"
  shows "\<exists>d. tst_kvexcmp (kvex_text t) (kvex_text c @ r) = Some d \<and> sgn d = ver_cmp c t"
proof -
  have "scan_kvex (kvex_text c @ r) = Some (map int c)" using assms by (intro scan_kvex_text) auto
  moreover have "scan_kvex (kvex_text t) = Some (map int t)" using assms scan_kvex_text [of t "[]"] by auto
  moreover have "\<exists>d. first_diff (zip (map int c) (map int t)) = Some d \<and> sgn d = ver_cmp c t"
    using assms by (intro first_diff_sgn) (auto dest: set_zip_leftD set_zip_rightD)
  ultimately show ?thesis by (simp add: tst_kvexcmp_def)
qed

theorem kvexcmp_order_witness:
  "\<exists>d. tst_kvexcmp ''2.6.32-220.4'' ''2.6.32-131.0.el6'' = Some d \<and> d < 0"
proof -
  have "\<exists>d. tst_kvexcmp (kvex_text [2, 6, 32, 220, 4]) (kvex_text [2, 6, 32, 131, 0] @ ''.el6'') = Some d
      \<and> sgn d = ver_cmp [2, 6, 32, 131, 0] [2, 6, 32, 220, 4]"
    by (rule kvexcmp_order) (simp_all add: INT_MAX_def)
  moreover have "kvex_text [2, 6, 32, 220, 4] = ''2.6.32-220.4''"
    "kvex_text [2, 6, 32, 131, 0] @ ''.el6'' = ''2.6.32-131.0.el6''" by code_simp+
  ultimately show ?thesis by (auto simp: sgn_if split: if_splits)
qed

text \<open>The packing leaves 8 bits to the sublevel: a stable release with 256 sublevels is taken for the
  next minor version.\<close>

lemma kvcmp_sublevel_256: "tst_kvcmp ''4.9.256'' 4 10 0 = ([], Some 0)"
proof -
  have "dec 4 = ''4''" "dec 9 = ''9''" "dec 256 = ''256''" by code_simp+
  then have "tst_parse_kver ''4.9.256'' = (0, 4, 9, 256)"
    using parse_kver_dec [of 4 9 256 "[]"] by (simp add: INT_MAX_def)
  then show ?thesis
    by (simp add: tst_kvcmp_def pack_version_def shl_def i32_def INT_MIN_def INT_MAX_def)
qed

end
