(* ===== verification/Bitmask.thy ===== *)
theory Bitmask
  imports C_Library
begin

unbundle bit_operations_syntax

text \<open>
  \<^verbatim>\<open>testcases/kernel/controllers/cpuset/cpuset_lib/libbitmask.c\<close>: bitmasks of a fixed number of bits
  kept in an array of \<^verbatim>\<open>unsigned long\<close>, with conversions to and from hexadecimal words and decimal
  lists.

  \<^verbatim>\<open>unsigned int\<close> bit numbers are natural numbers, and their arithmetic is reduced modulo \<open>2 ^ 32\<close>
  where the code can wrap; the value of a bit is a \<open>32 word\<close>. The operations with several pointer
  arguments work on a store from addresses to masks, so that a destination may be one of the
  sources. \<open>bits\<close> abstracts a mask to the set of its bit numbers.
\<close>

section \<open>Representation\<close>

record bitmask =
  bm_size :: nat
  maskp :: "64 word list"

definition bitsperlong :: nat where "bitsperlong = 64"

definition longsperbits :: "nat \<Rightarrow> nat" where
  "longsperbits n = (n + (bitsperlong - 1)) div bitsperlong"

definition getbit :: "bitmask \<Rightarrow> nat \<Rightarrow> 32 word" where
  "getbit bmp n =
     (if n < bm_size bmp
      then ucast (drop_bit (n mod bitsperlong) (maskp bmp ! (n div bitsperlong)) AND 1)
      else 0)"

definition setbit :: "bitmask \<Rightarrow> nat \<Rightarrow> 32 word \<Rightarrow> bitmask" where
  "setbit bmp n v =
     (if n < bm_size bmp then
        let k = n div bitsperlong; b = push_bit (n mod bitsperlong) 1 in
        if v \<noteq> 0 then bmp\<lparr>maskp := (maskp bmp)[k := maskp bmp ! k OR b]\<rparr>
        else bmp\<lparr>maskp := (maskp bmp)[k := maskp bmp ! k AND NOT b]\<rparr>
      else bmp)"

text \<open>\<open>mem1\<close> and \<open>mem2\<close> say whether the two allocations succeed.\<close>

definition bitmask_alloc :: "bool \<Rightarrow> bool \<Rightarrow> nat \<Rightarrow> bitmask option" where
  "bitmask_alloc mem1 mem2 n =
     (if \<not> mem1 then None
      else if \<not> mem2 then None
      else Some \<lparr>bm_size = n, maskp = replicate (longsperbits n) 0\<rparr>)"

section \<open>Assignment and queries\<close>

definition bitmask_setall :: "bitmask \<Rightarrow> bitmask" where
  "bitmask_setall bmp = fold (\<lambda>i b. setbit b i 1) [0..<bm_size bmp] bmp"

definition bitmask_clearall :: "bitmask \<Rightarrow> bitmask" where
  "bitmask_clearall bmp = fold (\<lambda>i b. setbit b i 0) [0..<bm_size bmp] bmp"

definition bitmask_nbytes :: "bitmask \<Rightarrow> nat" where
  "bitmask_nbytes bmp = longsperbits (bm_size bmp) * 8"

definition bitmask_nbits :: "bitmask \<Rightarrow> nat" where
  "bitmask_nbits bmp = bm_size bmp"

definition bitmask_weight :: "bitmask \<Rightarrow> nat" where
  "bitmask_weight bmp = fold (\<lambda>i w. if getbit bmp i \<noteq> 0 then w + 1 else w) [0..<bm_size bmp] 0"

definition bitmask_isbitset :: "bitmask \<Rightarrow> nat \<Rightarrow> 32 word" where
  "bitmask_isbitset bmp i = getbit bmp i"

definition bitmask_isbitclear :: "bitmask \<Rightarrow> nat \<Rightarrow> 32 word" where
  "bitmask_isbitclear bmp i = of_bool (getbit bmp i = 0)"

text \<open>The queries return 0 or 1; the loops stop at the first bit that decides.\<close>

fun all_bits :: "(nat \<Rightarrow> bool) \<Rightarrow> nat list \<Rightarrow> bool" where
  "all_bits P [] = True"
| "all_bits P (i # is) = (if \<not> P i then False else all_bits P is)"

definition bitmask_isallset :: "bitmask \<Rightarrow> bool" where
  "bitmask_isallset bmp = all_bits (\<lambda>i. getbit bmp i \<noteq> 0) [0..<bm_size bmp]"

definition bitmask_isallclear :: "bitmask \<Rightarrow> bool" where
  "bitmask_isallclear bmp = all_bits (\<lambda>i. getbit bmp i = 0) [0..<bm_size bmp]"

definition bitmask_setbit :: "bitmask \<Rightarrow> nat \<Rightarrow> bitmask" where
  "bitmask_setbit bmp i = setbit bmp i 1"

definition bitmask_clearbit :: "bitmask \<Rightarrow> nat \<Rightarrow> bitmask" where
  "bitmask_clearbit bmp i = setbit bmp i 0"

definition bitmask_equal :: "bitmask \<Rightarrow> bitmask \<Rightarrow> bool" where
  "bitmask_equal bmp1 bmp2 =
     all_bits (\<lambda>i. getbit bmp1 i = getbit bmp2 i) [0..<max (bm_size bmp1) (bm_size bmp2)]"

definition bitmask_subset :: "bitmask \<Rightarrow> bitmask \<Rightarrow> bool" where
  "bitmask_subset bmp1 bmp2 = all_bits (\<lambda>i. \<not> getbit bmp1 i > getbit bmp2 i) [0..<bm_size bmp1]"

definition bitmask_disjoint :: "bitmask \<Rightarrow> bitmask \<Rightarrow> bool" where
  "bitmask_disjoint bmp1 bmp2 = all_bits (\<lambda>i. getbit bmp1 i AND getbit bmp2 i = 0) [0..<bm_size bmp1]"

definition bitmask_intersects :: "bitmask \<Rightarrow> bitmask \<Rightarrow> bool" where
  "bitmask_intersects bmp1 bmp2 =
     (\<not> all_bits (\<lambda>i. getbit bmp1 i AND getbit bmp2 i = 0) [0..<bm_size bmp1])"

definition bitmask_setrange :: "bitmask \<Rightarrow> nat \<Rightarrow> nat \<Rightarrow> bitmask" where
  "bitmask_setrange bmp i j = fold (\<lambda>n b. setbit b n 1) [i..<j] bmp"

definition bitmask_clearrange :: "bitmask \<Rightarrow> nat \<Rightarrow> nat \<Rightarrow> bitmask" where
  "bitmask_clearrange bmp i j = fold (\<lambda>n b. setbit b n 0) [i..<j] bmp"

definition bitmask_keeprange :: "bitmask \<Rightarrow> nat \<Rightarrow> nat \<Rightarrow> bitmask" where
  "bitmask_keeprange bmp i j =
     (let b = bitmask_clearrange bmp 0 i in bitmask_clearrange b j (bm_size b))"

section \<open>Operations between masks\<close>

type_synonym store = "nat \<Rightarrow> bitmask"

definition put_bit :: "nat \<Rightarrow> (store \<Rightarrow> nat \<Rightarrow> 32 word) \<Rightarrow> nat \<Rightarrow> store \<Rightarrow> store" where
  "put_bit d f i st = st(d := setbit (st d) i (f st i))"

text \<open>The loops \<^verbatim>\<open>for (i = 0; i < bmp1->size; i++)\<close> and \<^verbatim>\<open>for (i = bmp1->size - 1; i >= 0; i--)\<close>; the second
  counts with an \<^verbatim>\<open>int\<close>, which is negative from the start for a size above \<open>2 ^ 31\<close>.\<close>

definition assign_up :: "nat \<Rightarrow> (store \<Rightarrow> nat \<Rightarrow> 32 word) \<Rightarrow> store \<Rightarrow> store" where
  "assign_up d f st = fold (put_bit d f) [0..<bm_size (st d)] st"

definition assign_down :: "nat \<Rightarrow> (store \<Rightarrow> nat \<Rightarrow> 32 word) \<Rightarrow> store \<Rightarrow> store" where
  "assign_down d f st =
     (if int (bm_size (st d)) > 2 ^ 31 then st else fold (put_bit d f) (rev [0..<bm_size (st d)]) st)"

definition bitmask_copy :: "nat \<Rightarrow> nat \<Rightarrow> store \<Rightarrow> store" where
  "bitmask_copy bmp1 bmp2 = assign_up bmp1 (\<lambda>st i. getbit (st bmp2) i)"

definition bitmask_complement :: "nat \<Rightarrow> nat \<Rightarrow> store \<Rightarrow> store" where
  "bitmask_complement bmp1 bmp2 = assign_up bmp1 (\<lambda>st i. of_bool (getbit (st bmp2) i = 0))"

definition bitmask_shiftright :: "nat \<Rightarrow> nat \<Rightarrow> nat \<Rightarrow> store \<Rightarrow> store" where
  "bitmask_shiftright bmp1 bmp2 n = assign_up bmp1 (\<lambda>st i. getbit (st bmp2) (u32 (i + n)))"

definition bitmask_shiftleft :: "nat \<Rightarrow> nat \<Rightarrow> nat \<Rightarrow> store \<Rightarrow> store" where
  "bitmask_shiftleft bmp1 bmp2 n =
     assign_down bmp1 (\<lambda>st i. getbit (st bmp2) (u32_minus i n))"

definition bitmask_and :: "nat \<Rightarrow> nat \<Rightarrow> nat \<Rightarrow> store \<Rightarrow> store" where
  "bitmask_and bmp1 bmp2 bmp3 = assign_up bmp1 (\<lambda>st i. getbit (st bmp2) i AND getbit (st bmp3) i)"

definition bitmask_andnot :: "nat \<Rightarrow> nat \<Rightarrow> nat \<Rightarrow> store \<Rightarrow> store" where
  "bitmask_andnot bmp1 bmp2 bmp3 = assign_up bmp1 (\<lambda>st i. getbit (st bmp2) i AND NOT (getbit (st bmp3) i))"

definition bitmask_or :: "nat \<Rightarrow> nat \<Rightarrow> nat \<Rightarrow> store \<Rightarrow> store" where
  "bitmask_or bmp1 bmp2 bmp3 = assign_up bmp1 (\<lambda>st i. getbit (st bmp2) i OR getbit (st bmp3) i)"

definition bitmask_eor :: "nat \<Rightarrow> nat \<Rightarrow> nat \<Rightarrow> store \<Rightarrow> store" where
  "bitmask_eor bmp1 bmp2 bmp3 = assign_up bmp1 (\<lambda>st i. getbit (st bmp2) i XOR getbit (st bmp3) i)"

section \<open>Iteration\<close>

function bitmask_next :: "bitmask \<Rightarrow> nat \<Rightarrow> nat" where
  "bitmask_next bmp n =
     (if n < bm_size bmp then if getbit bmp n \<noteq> 0 then n else bitmask_next bmp (n + 1) else n)"
  by pat_completeness auto
termination
  by (relation "measure (\<lambda>(bmp, n). bm_size bmp - n)") auto

declare bitmask_next.simps [simp del]

definition bitmask_first :: "bitmask \<Rightarrow> nat" where
  "bitmask_first bmp = bitmask_next bmp 0"

fun rel_loop :: "bitmask \<Rightarrow> nat list \<Rightarrow> nat \<Rightarrow> nat" where
  "rel_loop bmp [] n = bm_size bmp"
| "rel_loop bmp (i # is) n =
     (if getbit bmp i \<noteq> 0 then if n = 0 then i else rel_loop bmp is (n - 1)
      else rel_loop bmp is n)"

definition bitmask_rel_to_abs_pos :: "bitmask \<Rightarrow> nat \<Rightarrow> nat" where
  "bitmask_rel_to_abs_pos bmp n = rel_loop bmp [0..<bm_size bmp] n"

definition bitmask_abs_to_rel_pos :: "bitmask \<Rightarrow> nat \<Rightarrow> nat" where
  "bitmask_abs_to_rel_pos bmp n =
     (if getbit bmp n = 0 then bm_size bmp
      else fold (\<lambda>i w. if getbit bmp i \<noteq> 0 then w + 1 else w) [0..<n] 0)"

definition bitmask_last :: "bitmask \<Rightarrow> nat" where
  "bitmask_last bmp = fold (\<lambda>i m. if getbit bmp i \<noteq> 0 then i else m) [0..<bm_size bmp] (bm_size bmp)"

section \<open>Text representations\<close>

definition HEXCHUNKSZ :: nat where "HEXCHUNKSZ = 32"
definition HEXCHARSZ :: nat where "HEXCHARSZ = 8"

text \<open>\<^verbatim>\<open>cnt += snprintf(buf + cnt, MAX(buflen - cnt, 0), text)\<close> on the string in \<^verbatim>\<open>buf\<close> and the counter.\<close>

definition emit_text :: "nat \<Rightarrow> cstr \<Rightarrow> cstr \<times> nat \<Rightarrow> cstr \<times> nat" where
  "emit_text buflen t bc =
     (let (buf, cnt) = bc in
      (if cnt < buflen then take cnt buf @ take (buflen - cnt - 1) t else buf, cnt + length t))"

definition hex_chunk :: "bitmask \<Rightarrow> nat \<Rightarrow> 32 word" where
  "hex_chunk bmp chnk =
     fold (\<lambda>k val. push_bit 1 val OR getbit bmp (chnk * HEXCHUNKSZ + k)) (rev [0..<HEXCHUNKSZ]) 0"

text \<open>The chunks still to be written, from the most significant one, and the separator.\<close>

fun hex_loop :: "bitmask \<Rightarrow> nat \<Rightarrow> nat \<Rightarrow> cstr \<Rightarrow> cstr \<times> nat \<Rightarrow> cstr \<times> nat" where
  "hex_loop bmp buflen 0 sep bc = bc"
| "hex_loop bmp buflen (Suc chnk) sep bc =
     hex_loop bmp buflen chnk '',''
       (emit_text buflen (sep @ hex_digits HEXCHARSZ (unat (hex_chunk bmp chnk))) bc)"

definition hex_chunks :: "nat \<Rightarrow> nat" where
  "hex_chunks n = u32 (n + (HEXCHUNKSZ - 1)) div HEXCHUNKSZ"

text \<open>\<open>None\<close>: nothing is written to the buffer.\<close>

definition bitmask_displayhex :: "int \<Rightarrow> bitmask \<Rightarrow> cstr option \<times> nat" where
  "bitmask_displayhex buflen bmp =
     (if buflen < 1 then (None, 0)
      else let (buf, cnt) = hex_loop bmp (nat buflen) (hex_chunks (bm_size bmp)) '''' ('''', 0)
           in (Some buf, cnt))"

text \<open>\<^verbatim>\<open>%d\<close> of an \<^verbatim>\<open>unsigned int\<close> handed over as an \<^verbatim>\<open>int\<close>.\<close>

definition dec_unsigned :: "nat \<Rightarrow> cstr" where
  "dec_unsigned n = (if int n < 2 ^ 31 then dec n else ''-'' @ dec (nat (2 ^ 32 - int n)))"

definition emit :: "nat \<Rightarrow> nat \<Rightarrow> nat \<Rightarrow> cstr \<times> nat \<Rightarrow> cstr \<times> nat" where
  "emit buflen rbot rtop bl =
     (let bl' = (if snd bl > 0 then emit_text buflen '','' bl else bl) in
      if rbot = rtop then emit_text buflen (dec_unsigned rbot) bl'
      else emit_text buflen (dec_unsigned rbot @ ''-'' @ dec_unsigned rtop) bl')"

lemma bitmask_next_ge: "n \<le> bitmask_next bmp n"
proof (induction bmp n rule: bitmask_next.induct)
  case (1 bmp n)
  then show ?case by (subst bitmask_next.simps) auto
qed

function list_loop :: "bitmask \<Rightarrow> nat \<Rightarrow> nat \<Rightarrow> nat \<Rightarrow> cstr \<times> nat \<Rightarrow> cstr \<times> nat" where
  "list_loop bmp buflen rbot cur bl =
     (if cur < bm_size bmp then
        let rtop = cur; cur' = bitmask_next bmp (cur + 1) in
        if cur' \<ge> bm_size bmp \<or> cur' > rtop + 1
        then list_loop bmp buflen cur' cur' (emit buflen rbot rtop bl)
        else list_loop bmp buflen rbot cur' bl
      else bl)"
  by pat_completeness auto
termination
proof (relation "measure (\<lambda>(bmp, buflen, rbot, cur, bl). bm_size bmp - cur)")
qed (use bitmask_next_ge in \<open>auto intro!: diff_less_mono2 simp: Suc_le_lessD\<close>)

declare list_loop.simps [simp del]

definition bitmask_displaylist :: "int \<Rightarrow> bitmask \<Rightarrow> cstr option \<times> nat" where
  "bitmask_displaylist buflen bmp =
     (let cur = bitmask_first bmp;
          (buf, len) = list_loop bmp (nat buflen) cur cur ('''', 0)
      in (if buflen > 0 then Some buf else None, len))"

text \<open>\<open>None\<close> is the null pointer.\<close>

definition nexttoken :: "cstr option \<Rightarrow> char \<Rightarrow> cstr option" where
  "nexttoken q sep = (case q of None \<Rightarrow> None | Some s \<Rightarrow> map_option tl (strchr s sep))"

lemma strchr_tl_length: "strchr s c = Some r \<Longrightarrow> length r - Suc 0 < length s"
  by (induction s) (auto split: if_splits)

text \<open>The tokens the loops \<^verbatim>\<open>while (p = q, q = nexttoken(q, ','), p)\<close> visit, each with the pointer behind
  its comma.\<close>

function token_list :: "cstr option \<Rightarrow> (cstr \<times> cstr option) list" where
  "token_list None = []"
| "token_list (Some p) = (p, nexttoken (Some p) (CHR '','')) # token_list (nexttoken (Some p) (CHR '',''))"
  by pat_completeness auto
termination
  by (relation "measure (\<lambda>q. case q of None \<Rightarrow> 0 | Some p \<Rightarrow> Suc (length p))")
    (auto simp: nexttoken_def strchr_tl_length split: option.splits)

text \<open>\<open>Inl\<close> is the jump to \<^verbatim>\<open>err\<close>, with the mask written so far.\<close>

fun set_chunk :: "nat \<Rightarrow> nat \<Rightarrow> 32 word \<Rightarrow> nat list \<Rightarrow> bitmask \<Rightarrow> bitmask + bitmask" where
  "set_chunk sz chnk val [] bmp = Inr bmp"
| "set_chunk sz chnk val (b # bs) bmp =
     (let n = chnk * HEXCHUNKSZ + b in
      if n \<ge> sz then Inl bmp
      else set_chunk sz chnk val bs (setbit bmp n (drop_bit b val AND 1)))"

text \<open>The second loop of \<^verbatim>\<open>bitmask_parsehex\<close>.\<close>

fun parsehex_loop :: "nat \<Rightarrow> (cstr \<times> cstr option) list \<Rightarrow> bitmask \<Rightarrow> bitmask + bitmask" where
  "parsehex_loop sz [] bmp = Inr bmp"
| "parsehex_loop sz ((p, q) # toks) bmp =
     (let (v, endptr) = strtoul16 p;
          val = of_nat v;
          nchars_read = length p - length endptr
      in
      if nchars_read < 1 \<or> nchars_read > HEXCHARSZ then Inl bmp
      else if (case q of None \<Rightarrow> False | Some q' \<Rightarrow> length endptr - length q' \<noteq> 1) then Inl bmp
      else case set_chunk sz (length toks) val (rev [0..<HEXCHUNKSZ]) bmp of
             Inl b \<Rightarrow> Inl b
           | Inr b \<Rightarrow> parsehex_loop sz toks b)"

definition bitmask_parsehex :: "cstr \<Rightarrow> bitmask \<Rightarrow> int \<times> bitmask" where
  "bitmask_parsehex buf bmp =
     (let sz = longsperbits (bm_size bmp) * 8 * 8 in
      case parsehex_loop sz (token_list (Some buf)) (bitmask_clearall bmp) of
        Inr b \<Rightarrow> (0, b)
      | Inl b \<Rightarrow> (- 1, bitmask_clearall b))"

text \<open>\<^verbatim>\<open>sscanf(p, "%u%c", &a, &nextc)\<close>: the returned count, the number and the next character.\<close>

definition scan_u_c :: "cstr \<Rightarrow> int \<times> nat \<times> char" where
  "scan_u_c p =
     (if dropWhile isspace p = [] then (- 1, 0, NUL)
      else let (v, e) = strtoul10 p in
      if e = p then (0, 0, NUL)
      else case e of [] \<Rightarrow> (1, u32 v, NUL) | c # _ \<Rightarrow> (2, u32 v, c))"

definition scan_was_ok :: "int \<Rightarrow> char \<Rightarrow> cstr \<Rightarrow> bool" where
  "scan_was_ok sret nextc ok_next_chars = (sret = 1 \<or> (sret = 2 \<and> strchr ok_next_chars nextc \<noteq> None))"

text \<open>\<^verbatim>\<open>while (a <= b) { _setbit(bmp, a, 1); a += s; }\<close>; \<open>None\<close> when the loop does not end.\<close>

partial_function (option) stride_loop :: "nat \<Rightarrow> nat \<Rightarrow> nat \<Rightarrow> bitmask \<Rightarrow> bitmask option" where
  "stride_loop s b a bmp =
     (if a \<le> b then stride_loop s b (u32 (a + s)) (setbit bmp a 1) else Some bmp)"

text \<open>One token: \<open>None\<close> is the jump to \<^verbatim>\<open>err\<close>, otherwise begin, end and stride. A pointer is before
  another one when the text behind it is longer.\<close>

definition before :: "cstr \<Rightarrow> cstr option \<Rightarrow> bool" where
  "before c1 c2 = (case c2 of None \<Rightarrow> True | Some c \<Rightarrow> length c1 > length c)"

definition parse_term :: "nat \<Rightarrow> cstr \<Rightarrow> (nat \<times> nat \<times> nat) option" where
  "parse_term sz p =
     (let (sret, a, nextc) = scan_u_c p in
      if \<not> scan_was_ok sret nextc '',-'' then None
      else
        let c2 = nexttoken (Some p) (CHR '','');
            r = (case nexttoken (Some p) (CHR ''-'') of
                   None \<Rightarrow> Some (a, 1)
                 | Some c1 \<Rightarrow>
                     if \<not> before c1 c2 then Some (a, 1)
                     else let (sret, b, nextc) = scan_u_c c1 in
                       if \<not> scan_was_ok sret nextc '',:'' then None
                       else case nexttoken (Some c1) (CHR '':'') of
                              None \<Rightarrow> Some (b, 1)
                            | Some c3 \<Rightarrow>
                                if \<not> before c3 c2 then Some (b, 1)
                                else let (sret, s, nextc) = scan_u_c c3 in
                                  if \<not> scan_was_ok sret nextc '','' then None else Some (b, s))
        in case r of
             None \<Rightarrow> None
           | Some (b, s) \<Rightarrow> if \<not> a \<le> b then None else if b \<ge> sz then None else Some (a, b, s))"

fun parselist_loop :: "(cstr \<times> cstr option) list \<Rightarrow> bitmask \<Rightarrow> (bitmask + bitmask) option" where
  "parselist_loop [] bmp = Some (Inr bmp)"
| "parselist_loop ((p, q) # toks) bmp =
     (case parse_term (bm_size bmp) p of
        None \<Rightarrow> Some (Inl bmp)
      | Some (a, b, s) \<Rightarrow>
          (case stride_loop s b a bmp of
             None \<Rightarrow> None
           | Some bmp' \<Rightarrow> parselist_loop toks bmp'))"

definition bitmask_parselist :: "cstr \<Rightarrow> bitmask \<Rightarrow> (int \<times> bitmask) option" where
  "bitmask_parselist buf bmp =
     (case parselist_loop (token_list (Some buf)) (bitmask_clearall bmp) of
        None \<Rightarrow> None
      | Some (Inr b) \<Rightarrow> Some (0, b)
      | Some (Inl b) \<Rightarrow> Some (- 1, bitmask_clearall b))"

section \<open>The set of bits\<close>

definition bits :: "bitmask \<Rightarrow> nat set" where
  "bits bmp = {i. i < bm_size bmp \<and> bit (maskp bmp ! (i div 64)) (i mod 64)}"

definition wf_bm :: "bitmask \<Rightarrow> bool" where
  "wf_bm bmp = (length (maskp bmp) = longsperbits (bm_size bmp) \<and> bm_size bmp < 2 ^ 32)"

lemma in_bitsD: "i \<in> bits bmp \<Longrightarrow> i < bm_size bmp"
  by (simp add: bits_def)

lemma finite_bits [simp]: "finite (bits bmp)"
  by (rule finite_subset [of _ "{..<bm_size bmp}"]) (auto dest: in_bitsD)

lemma drop_bit_and_1: "(drop_bit k w AND 1 :: 'a :: len word) = of_bool (bit w k)"
  by (rule bit_word_eqI) (auto simp: bit_simps)

lemma getbit_bits: "getbit bmp n = of_bool (n \<in> bits bmp)"
  by (simp add: getbit_def bits_def bitsperlong_def drop_bit_and_1)

lemma getbit_simps [simp]:
  "getbit bmp n = 0 \<longleftrightarrow> n \<notin> bits bmp" "getbit bmp n \<noteq> 0 \<longleftrightarrow> n \<in> bits bmp"
  by (simp_all add: getbit_bits)

text \<open>The word that holds a bit is inside the array.\<close>

lemma mask_index: "wf_bm bmp \<Longrightarrow> n < bm_size bmp \<Longrightarrow> n div 64 < length (maskp bmp)"
  by (auto simp: wf_bm_def longsperbits_def bitsperlong_def)

lemma setbit_size [simp]: "bm_size (setbit bmp n v) = bm_size bmp"
  by (simp add: setbit_def Let_def)

lemma setbit_wf [simp]: "wf_bm (setbit bmp n v) = wf_bm bmp"
  by (simp add: setbit_def Let_def wf_bm_def)

lemma bit_put_word:
  assumes "j < 64" "k < 64"
  shows "bit (w OR 2 ^ k :: 64 word) j \<longleftrightarrow> j = k \<or> bit w j"
    and "bit (w AND NOT (2 ^ k) :: 64 word) j \<longleftrightarrow> j \<noteq> k \<and> bit w j"
  using assms by (auto simp: bit_simps)

lemma maskp_setbit:
  assumes "wf_bm bmp" "n < bm_size bmp"
  shows "maskp (setbit bmp n v) ! k =
     (if k = n div 64 then if v \<noteq> 0 then maskp bmp ! k OR 2 ^ (n mod 64)
        else maskp bmp ! k AND NOT (2 ^ (n mod 64))
      else maskp bmp ! k)"
  using assms(2) mask_index [OF assms] by (simp add: setbit_def Let_def bitsperlong_def)

lemma bits_setbit:
  assumes "wf_bm bmp"
  shows "bits (setbit bmp n v) =
     (if n < bm_size bmp then if v \<noteq> 0 then insert n (bits bmp) else bits bmp - {n} else bits bmp)"
proof (cases "n < bm_size bmp")
  case True
  have mem: "i \<in> bits (setbit bmp n v) \<longleftrightarrow> (if v \<noteq> 0 then i = n \<or> i \<in> bits bmp else i \<in> bits bmp \<and> i \<noteq> n)" for i
  proof (cases "i = n")
    case eq: True
    then show ?thesis using True by (simp add: bits_def maskp_setbit [OF assms True] bit_put_word)
  next
    case False
    have ne: "i mod 64 \<noteq> n mod 64" if "i div 64 = n div 64"
      using that False div_mult_mod_eq [of i 64] div_mult_mod_eq [of n 64] by metis
    have "bit (maskp (setbit bmp n v) ! (i div 64)) (i mod 64) = bit (maskp bmp ! (i div 64)) (i mod 64)"
      using ne by (simp add: maskp_setbit [OF assms True] bit_put_word)
    then show ?thesis using False by (simp add: bits_def)
  qed
  show ?thesis unfolding set_eq_iff mem using True by simp
qed (simp add: setbit_def)

text \<open>What clients use of an array of bits, and the effect of a loop of assignments.\<close>

locale bit_array =
  fixes bset :: "'a \<Rightarrow> nat set"
    and put :: "'a \<Rightarrow> nat \<Rightarrow> 'v :: zero \<Rightarrow> 'a"
    and sz :: "'a \<Rightarrow> nat"
    and wf :: "'a \<Rightarrow> bool"
  assumes sz_put: "sz (put b n v) = sz b"
    and wf_put: "wf (put b n v) = wf b"
    and bset_put: "wf b \<Longrightarrow> bset (put b n v) =
        (if n < sz b then if v \<noteq> 0 then insert n (bset b) else bset b - {n} else bset b)"
begin

lemma fold_put_frame: "sz (fold (\<lambda>i b. put b i v) is b) = sz b" "wf (fold (\<lambda>i b. put b i v) is b) = wf b"
  by (induction "is" arbitrary: b) (auto simp: sz_put wf_put)

lemma fold_put:
  "wf b \<Longrightarrow> bset (fold (\<lambda>i b. put b i v) is b) =
     (if v \<noteq> 0 then bset b \<union> (set is \<inter> {..<sz b}) else bset b - (set is \<inter> {..<sz b}))"
  by (induction "is" arbitrary: b) (auto simp: sz_put wf_put bset_put)

lemma fold_put_fun:
  "wf b \<Longrightarrow> sz (fold (\<lambda>n b. put b n (g n)) ns b) = sz b \<and> wf (fold (\<lambda>n b. put b n (g n)) ns b)
   \<and> (\<forall>i < sz b. i \<in> bset (fold (\<lambda>n b. put b n (g n)) ns b) \<longleftrightarrow> (if i \<in> set ns then g i \<noteq> 0 else i \<in> bset b))"
proof (induction ns rule: rev_induct)
  case (snoc n ns)
  then show ?case by (auto simp: sz_put wf_put bset_put)
qed simp

end

interpretation bm: bit_array bits setbit bm_size wf_bm
  by unfold_locales (simp_all add: bits_setbit)

lemma bits_le: "bits bmp \<subseteq> {..<bm_size bmp}"
  by (auto dest: in_bitsD)

lemma bits_setall: "wf_bm bmp \<Longrightarrow> bits (bitmask_setall bmp) = {..<bm_size bmp}"
  using bits_le [of bmp] by (auto simp: bitmask_setall_def bm.fold_put)

lemma bits_clearall: "wf_bm bmp \<Longrightarrow> bits (bitmask_clearall bmp) = {}"
  using bits_le [of bmp] by (auto simp: bitmask_clearall_def bm.fold_put)

lemma clearall_frame [simp]: "bm_size (bitmask_clearall bmp) = bm_size bmp" "wf_bm (bitmask_clearall bmp) = wf_bm bmp"
  by (simp_all add: bitmask_clearall_def bm.fold_put_frame)

lemma bits_setrange: "wf_bm bmp \<Longrightarrow> bits (bitmask_setrange bmp i j) = bits bmp \<union> ({i..<j} \<inter> {..<bm_size bmp})"
  by (simp add: bitmask_setrange_def bm.fold_put)

lemma bits_clearrange: "wf_bm bmp \<Longrightarrow> bits (bitmask_clearrange bmp i j) = bits bmp - {i..<j}"
  using bits_le [of bmp] by (auto simp: bitmask_clearrange_def bm.fold_put)

lemma clearrange_frame [simp]:
  "bm_size (bitmask_clearrange bmp i j) = bm_size bmp" "wf_bm (bitmask_clearrange bmp i j) = wf_bm bmp"
  by (simp_all add: bitmask_clearrange_def bm.fold_put_frame)

lemma bits_keeprange: "wf_bm bmp \<Longrightarrow> bits (bitmask_keeprange bmp i j) = bits bmp \<inter> {i..<j}"
  using bits_le [of bmp] by (auto simp: bitmask_keeprange_def bits_clearrange)

lemma alloc_wf:
  assumes "bitmask_alloc mem1 mem2 n = Some bmp" "n < 2 ^ 32"
  shows "wf_bm bmp" "bits bmp = {}" "bm_size bmp = n"
proof -
  have bmp: "bmp = \<lparr>bm_size = n, maskp = replicate (longsperbits n) 0\<rparr>"
    using assms(1) by (auto simp: bitmask_alloc_def split: if_splits)
  then show "wf_bm bmp" "bm_size bmp = n" using assms(2) by (auto simp: wf_bm_def)
  have "i < n \<Longrightarrow> i div 64 < longsperbits n" for i by (auto simp: longsperbits_def bitsperlong_def)
  then show "bits bmp = {}" using bmp by (auto simp: bits_def)
qed

section \<open>Operations between masks\<close>

text \<open>A loop that computes bit \<open>i\<close> from bits at or above \<open>i\<close> (at or below \<open>i\<close> for the loop downwards) may
  overwrite its own source.\<close>

definition same_but :: "nat \<Rightarrow> nat set \<Rightarrow> store \<Rightarrow> store \<Rightarrow> bool" where
  "same_but d J st st' \<longleftrightarrow> (\<forall>x. x \<noteq> d \<longrightarrow> st' x = st x) \<and> bm_size (st' d) = bm_size (st d)
     \<and> wf_bm (st' d) = wf_bm (st d) \<and> (\<forall>j \<in> J. j \<in> bits (st' d) \<longleftrightarrow> j \<in> bits (st d))"

lemma same_but_refl: "same_but d J st st"
  by (simp add: same_but_def)

lemma same_but_put:
  assumes "same_but d J st st'" "wf_bm (st d)"
  shows "same_but d (J - {n}) st (put_bit d f n st')"
  using assms by (simp add: same_but_def put_bit_def bits_setbit)

lemma put_bit_mem:
  assumes "same_but d J st st'" "wf_bm (st d)" "n < bm_size (st d)"
  shows "j \<in> bits (put_bit d f n st' d) \<longleftrightarrow> (if j = n then f st' n \<noteq> 0 else j \<in> bits (st' d))"
  using assms by (simp add: same_but_def put_bit_def bits_setbit)

text \<open>Any order of the assignments will do, as long as a bit is computed before the bits it reads are
  overwritten.\<close>

lemma fold_put_bit:
  assumes "wf_bm (st d)" "distinct is" "set is \<subseteq> {..<bm_size (st d)}"
    and f: "\<And>st' us n vs. is = us @ n # vs \<Longrightarrow> same_but d (- set us) st st' \<Longrightarrow> f st' n = f st n"
  shows "same_but d (- set is) st (fold (put_bit d f) is st)
     \<and> (\<forall>j \<in> set is. j \<in> bits (fold (put_bit d f) is st d) \<longleftrightarrow> f st j \<noteq> 0)"
  using assms
proof (induction "is" rule: rev_induct)
  case Nil
  then show ?case by (simp add: same_but_refl)
next
  case (snoc n ns)
  let ?S = "fold (put_bit d f) ns st"
  have IH: "same_but d (- set ns) st ?S" "\<forall>j \<in> set ns. j \<in> bits (?S d) \<longleftrightarrow> f st j \<noteq> 0"
    using snoc.IH [OF snoc.prems(1)] snoc.prems by auto
  have fn: "f ?S n = f st n" by (rule snoc.prems(4) [OF _ IH(1)]) simp
  have "same_but d (- set ns - {n}) st (put_bit d f n ?S)" using IH(1) snoc.prems(1) by (rule same_but_put)
  moreover have "- set ns - {n} = - set (ns @ [n])" by auto
  moreover have "j \<in> bits (put_bit d f n ?S d) \<longleftrightarrow> f st j \<noteq> 0" if "j \<in> set (ns @ [n])" for j
    using that IH(2) fn snoc.prems put_bit_mem [OF IH(1) snoc.prems(1), of n j f] by auto
  ultimately show ?case by simp
qed

lemma assign_up_spec:
  assumes "wf_bm (st d)"
    and f: "\<And>st' n. n < bm_size (st d) \<Longrightarrow> same_but d {n..} st st' \<Longrightarrow> f st' n = f st n"
  shows "same_but d {} st (assign_up d f st)" "bits (assign_up d f st d) = {i. i < bm_size (st d) \<and> f st i \<noteq> 0}"
proof -
  have "set us = {..<n}" if "[0..<bm_size (st d)] = us @ n # vs" for us n vs
  proof -
    have "length us < bm_size (st d)" "[0..<bm_size (st d)] ! length us = n"
      using arg_cong [OF that, of length] arg_cong [OF that, of "\<lambda>l. l ! length us"] by auto
    moreover have "us = take (length us) [0..<bm_size (st d)]" using that by simp
    ultimately show ?thesis by (metis add_0 atLeast0LessThan nth_upt less_imp_le set_upt take_upt)
  qed
  then have us: "- set us = {n..}" if "[0..<bm_size (st d)] = us @ n # vs" for us n vs using that by auto
  have fn: "f st' n = f st n" if "[0..<bm_size (st d)] = us @ n # vs" "same_but d (- set us) st st'" for st' us n vs
  proof -
    have "n \<in> set [0..<bm_size (st d)]" unfolding that(1) by simp
    then show ?thesis using f [of n st'] us [OF that(1)] that(2) by simp
  qed
  have r: "same_but d (- set [0..<bm_size (st d)]) st (assign_up d f st)
     \<and> (\<forall>j \<in> set [0..<bm_size (st d)]. j \<in> bits (assign_up d f st d) \<longleftrightarrow> f st j \<noteq> 0)"
    unfolding assign_up_def by (rule fold_put_bit) (use assms(1) fn in auto)
  then show "same_but d {} st (assign_up d f st)" by (simp add: same_but_def)
  then have "bits (assign_up d f st d) \<subseteq> {..<bm_size (st d)}"
    using bits_le [of "assign_up d f st d"] by (simp add: same_but_def)
  with r show "bits (assign_up d f st d) = {i. i < bm_size (st d) \<and> f st i \<noteq> 0}" by auto
qed

lemma assign_down_spec:
  assumes "wf_bm (st d)" "bm_size (st d) \<le> 2 ^ 31"
    and f: "\<And>st' n. n < bm_size (st d) \<Longrightarrow> same_but d {..n} st st' \<Longrightarrow> f st' n = f st n"
  shows "same_but d {} st (assign_down d f st)" "bits (assign_down d f st d) = {i. i < bm_size (st d) \<and> f st i \<noteq> 0}"
proof -
  have "- set us \<supseteq> {..n}" if "rev [0..<bm_size (st d)] = us @ n # vs" for us n vs
  proof -
    have "[0..<bm_size (st d)] = rev vs @ n # rev us" using arg_cong [OF that, of rev] by simp
    then have "sorted (rev vs @ n # rev us)" "distinct (rev vs @ n # rev us)"
      by (metis sorted_upt, metis distinct_upt)
    then show ?thesis by (auto simp: sorted_append)
  qed
  then have s: "same_but d {..n} st st'" if "rev [0..<bm_size (st d)] = us @ n # vs" "same_but d (- set us) st st'" for us n vs st'
    using that unfolding same_but_def by blast
  have fn: "f st' n = f st n" if "rev [0..<bm_size (st d)] = us @ n # vs" "same_but d (- set us) st st'" for st' us n vs
  proof -
    have "n \<in> set (rev [0..<bm_size (st d)])" unfolding that(1) by simp
    then show ?thesis using f [of n st'] s [OF that] by simp
  qed
  have r: "same_but d (- set (rev [0..<bm_size (st d)])) st (assign_down d f st)
     \<and> (\<forall>j \<in> set (rev [0..<bm_size (st d)]). j \<in> bits (assign_down d f st d) \<longleftrightarrow> f st j \<noteq> 0)"
  proof -
    have d: "assign_down d f st = fold (put_bit d f) (rev [0..<bm_size (st d)]) st"
      using assms(2) by (simp add: assign_down_def)
    show ?thesis unfolding d by (rule fold_put_bit) (use assms(1) fn in auto)
  qed
  then show "same_but d {} st (assign_down d f st)" by (simp add: same_but_def)
  then have "bits (assign_down d f st d) \<subseteq> {..<bm_size (st d)}"
    using bits_le [of "assign_down d f st d"] by (simp add: same_but_def)
  with r show "bits (assign_down d f st d) = {i. i < bm_size (st d) \<and> f st i \<noteq> 0}" by auto
qed

lemma same_but_getbit:
  assumes "same_but d J st st'" "j \<in> J"
  shows "getbit (st' a) j = getbit (st a) j"
  using assms by (cases "a = d") (auto simp: same_but_def getbit_bits)

lemma of_bool_word [simp]:
  "of_bool p AND of_bool q = (0 :: 32 word) \<longleftrightarrow> \<not> (p \<and> q)"
  "of_bool p OR of_bool q = (0 :: 32 word) \<longleftrightarrow> \<not> p \<and> \<not> q"
  "of_bool p XOR of_bool q = (0 :: 32 word) \<longleftrightarrow> p = q"
  "of_bool p AND NOT (of_bool q) = (0 :: 32 word) \<longleftrightarrow> \<not> (p \<and> \<not> q)"
  by (cases p; cases q; simp)+

lemma assign_pointwise:
  assumes "wf_bm (st d)" "f = (\<lambda>st i. g (getbit (st a) i) (getbit (st b) i))"
  shows "same_but d {} st (assign_up d f st)
     \<and> bits (assign_up d f st d) = {i. i < bm_size (st d) \<and> f st i \<noteq> 0}"
proof -
  have "f st' n = f st n" if "same_but d {n..} st st'" for st' n
    using same_but_getbit [OF that, of n] by (simp add: assms(2))
  then show ?thesis using assign_up_spec [of st d f] assms(1) by blast
qed

lemma bits_ops:
  assumes "wf_bm (st d)"
  shows "bits (bitmask_copy d a st d) = bits (st a) \<inter> {..<bm_size (st d)}"
    and "bits (bitmask_complement d a st d) = {..<bm_size (st d)} - bits (st a)"
    and "bits (bitmask_and d a b st d) = bits (st a) \<inter> bits (st b) \<inter> {..<bm_size (st d)}"
    and "bits (bitmask_andnot d a b st d) = (bits (st a) - bits (st b)) \<inter> {..<bm_size (st d)}"
    and "bits (bitmask_or d a b st d) = (bits (st a) \<union> bits (st b)) \<inter> {..<bm_size (st d)}"
    and "bits (bitmask_eor d a b st d) =
           ((bits (st a) - bits (st b)) \<union> (bits (st b) - bits (st a))) \<inter> {..<bm_size (st d)}"
proof -
  note p = assign_pointwise [of st d, OF assms]
  show "bits (bitmask_copy d a st d) = bits (st a) \<inter> {..<bm_size (st d)}"
    using p [of _ "\<lambda>x y. x" a a] by (auto simp: bitmask_copy_def)
  show "bits (bitmask_complement d a st d) = {..<bm_size (st d)} - bits (st a)"
    using p [of _ "\<lambda>x y. of_bool (x = 0)" a a] by (auto simp: bitmask_complement_def)
  show "bits (bitmask_and d a b st d) = bits (st a) \<inter> bits (st b) \<inter> {..<bm_size (st d)}"
    using p [of _ "(AND)" a b] by (auto simp: bitmask_and_def getbit_bits)
  show "bits (bitmask_andnot d a b st d) = (bits (st a) - bits (st b)) \<inter> {..<bm_size (st d)}"
    using p [of _ "\<lambda>x y. x AND NOT y" a b] by (auto simp: bitmask_andnot_def getbit_bits)
  show "bits (bitmask_or d a b st d) = (bits (st a) \<union> bits (st b)) \<inter> {..<bm_size (st d)}"
    using p [of _ "(OR)" a b] by (auto simp: bitmask_or_def getbit_bits)
  show "bits (bitmask_eor d a b st d) =
           ((bits (st a) - bits (st b)) \<union> (bits (st b) - bits (st a))) \<inter> {..<bm_size (st d)}"
    using p [of _ "(XOR)" a b] by (auto simp: bitmask_eor_def getbit_bits)
qed

lemma ops_frame:
  assumes "wf_bm (st d)"
  shows "same_but d {} st (bitmask_copy d a st)" "same_but d {} st (bitmask_complement d a st)"
    "same_but d {} st (bitmask_and d a b st)" "same_but d {} st (bitmask_andnot d a b st)"
    "same_but d {} st (bitmask_or d a b st)" "same_but d {} st (bitmask_eor d a b st)"
  unfolding bitmask_copy_def bitmask_complement_def bitmask_and_def bitmask_andnot_def bitmask_or_def bitmask_eor_def
  using assign_pointwise [of st d _ "\<lambda>x y. x" a a] assign_pointwise [of st d _ "\<lambda>x y. of_bool (x = 0)" a a]
    assign_pointwise [of st d _ "(AND)" a b] assign_pointwise [of st d _ "\<lambda>x y. x AND NOT y" a b]
    assign_pointwise [of st d _ "(OR)" a b] assign_pointwise [of st d _ "(XOR)" a b] assms
  by simp_all

text \<open>The shifts read bits above, or below, the one they write.\<close>

lemma shiftright_spec:
  assumes "wf_bm (st d)" "bm_size (st d) + n \<le> 2 ^ 32"
  shows "same_but d {} st (bitmask_shiftright d a n st)"
    "bits (bitmask_shiftright d a n st d) = {i. i < bm_size (st d) \<and> i + n \<in> bits (st a)}"
proof -
  define f where "f = (\<lambda>st i. getbit (st a) (u32 (i + n)))"
  have idx: "u32 (i + n) = i + n" if "i < bm_size (st d)" for i
    using that assms(2) by (intro u32_less) linarith
  have f: "f st' i = f st i" if "i < bm_size (st d)" "same_but d {i..} st st'" for st' i
    unfolding f_def idx [OF that(1)] by (rule same_but_getbit [OF that(2)]) simp
  have sh: "bitmask_shiftright d a n = assign_up d f" by (simp add: bitmask_shiftright_def f_def)
  show "same_but d {} st (bitmask_shiftright d a n st)"
    unfolding sh using assms(1) f by (rule assign_up_spec)
  have "bits (bitmask_shiftright d a n st d) = {i. i < bm_size (st d) \<and> f st i \<noteq> 0}"
    unfolding sh using assms(1) f by (rule assign_up_spec)
  then show "bits (bitmask_shiftright d a n st d) = {i. i < bm_size (st d) \<and> i + n \<in> bits (st a)}"
  proof -
    have "f st i \<noteq> 0 \<longleftrightarrow> i + n \<in> bits (st a)" if "i < bm_size (st d)" for i
      unfolding f_def idx [OF that] by simp
    then show ?thesis using \<open>bits (bitmask_shiftright d a n st d) = _\<close> by blast
  qed
qed

lemma shiftleft_spec:
  assumes "wf_bm (st d)" "bm_size (st d) \<le> 2 ^ 31" "bm_size (st a) + n \<le> 2 ^ 32" "n < 2 ^ 32"
  shows "same_but d {} st (bitmask_shiftleft d a n st)"
    "bits (bitmask_shiftleft d a n st d) = {i. i < bm_size (st d) \<and> n \<le> i \<and> i - n \<in> bits (st a)}"
proof -
  define f where "f = (\<lambda>st i. getbit (st a) (u32_minus i n))"
  have idx: "u32_minus i n = (if n \<le> i then i - n else i + 2 ^ 32 - n)" if "i < bm_size (st d)" for i
    using that assms(2,4) by (intro u32_minus_eq) simp_all
  have f: "f st' i = f st i" if "i < bm_size (st d)" "same_but d {..i} st st'" for st' i
  proof (cases "n \<le> i")
    case True
    then show ?thesis using idx [OF that(1)] same_but_getbit [OF that(2), of "i - n"] by (simp add: f_def)
  next
    case False
    have "bm_size (st' a) = bm_size (st a)" using that(2) by (cases "a = d") (auto simp: same_but_def)
    then have "i + 2 ^ 32 - n \<notin> bits (st' a)" "i + 2 ^ 32 - n \<notin> bits (st a)"
      using assms(3) by (auto dest: in_bitsD)
    then show ?thesis using False idx [OF that(1)] by (simp add: f_def getbit_bits)
  qed
  have sh: "bitmask_shiftleft d a n = assign_down d f" by (simp add: bitmask_shiftleft_def f_def)
  have out: "\<not> n \<le> i \<Longrightarrow> i + 2 ^ 32 - n \<notin> bits (st a)" for i
    using assms(3) by (auto dest: in_bitsD)
  show "same_but d {} st (bitmask_shiftleft d a n st)"
    unfolding sh using assms(1,2) f by (rule assign_down_spec)
  have "bits (bitmask_shiftleft d a n st d) = {i. i < bm_size (st d) \<and> f st i \<noteq> 0}"
    unfolding sh using assms(1,2) f by (rule assign_down_spec)
  then show "bits (bitmask_shiftleft d a n st d) = {i. i < bm_size (st d) \<and> n \<le> i \<and> i - n \<in> bits (st a)}"
  proof -
    have "f st i \<noteq> 0 \<longleftrightarrow> n \<le> i \<and> i - n \<in> bits (st a)" if "i < bm_size (st d)" for i
      using idx [OF that] out [of i] by (simp add: f_def)
    then show ?thesis using \<open>bits (bitmask_shiftleft d a n st d) = _\<close> by blast
  qed
qed

section \<open>Queries and positions\<close>

lemma all_bits_iff: "all_bits P is \<longleftrightarrow> (\<forall>i \<in> set is. P i)"
  by (induction "is") auto

lemma bitmask_equal_iff: "bitmask_equal x y \<longleftrightarrow> bits x = bits y"
proof -
  have "bitmask_equal x y \<longleftrightarrow> (\<forall>i < max (bm_size x) (bm_size y). i \<in> bits x \<longleftrightarrow> i \<in> bits y)"
    by (auto simp: bitmask_equal_def all_bits_iff getbit_bits)
  also have "\<dots> \<longleftrightarrow> bits x = bits y"
    using in_bitsD [of _ x] in_bitsD [of _ y] by (auto simp: less_max_iff_disj)
  finally show ?thesis .
qed

lemma bitmask_subset_iff: "bitmask_subset x y \<longleftrightarrow> bits x \<subseteq> bits y"
proof -
  have "\<not> (of_bool q :: 32 word) < of_bool p \<longleftrightarrow> (p \<longrightarrow> q)" for p q by (cases p; cases q) auto
  then show ?thesis using bits_le [of x] by (auto simp: bitmask_subset_def all_bits_iff getbit_bits)
qed

lemma bitmask_disjoint_iff: "bitmask_disjoint x y \<longleftrightarrow> bits x \<inter> bits y = {}"
  using bits_le [of x] by (auto simp: bitmask_disjoint_def all_bits_iff getbit_bits)

lemma bitmask_intersects_iff: "bitmask_intersects x y \<longleftrightarrow> bits x \<inter> bits y \<noteq> {}"
  using bitmask_disjoint_iff [of x y] by (simp add: bitmask_intersects_def bitmask_disjoint_def)

lemma bitmask_isallset_iff: "bitmask_isallset x \<longleftrightarrow> bits x = {..<bm_size x}"
  using bits_le [of x] by (auto simp: bitmask_isallset_def all_bits_iff)

lemma bitmask_isallclear_iff: "bitmask_isallclear x \<longleftrightarrow> bits x = {}"
  using bits_le [of x] by (auto simp: bitmask_isallclear_def all_bits_iff)

definition bit_list :: "bitmask \<Rightarrow> nat list" where
  "bit_list bmp = filter (\<lambda>i. i \<in> bits bmp) [0..<bm_size bmp]"

lemma set_bit_list [simp]: "set (bit_list bmp) = bits bmp"
  using bits_le [of bmp] by (auto simp: bit_list_def)

lemma sorted_bit_list: "sorted (bit_list bmp)" "distinct (bit_list bmp)"
  by (auto simp: bit_list_def intro: sorted_wrt_filter)

lemma fold_count: "fold (\<lambda>i w. if P i then w + 1 else w) is n = n + length (filter P is)" for n :: nat
  by (induction "is" arbitrary: n) auto

lemma bitmask_weight_card: "bitmask_weight bmp = card (bits bmp)"
proof -
  have "card (bits bmp) = length (bit_list bmp)" using distinct_card [OF sorted_bit_list(2)] by simp
  then show ?thesis using fold_count [where n = 0] by (simp add: bitmask_weight_def bit_list_def)
qed

lemma rel_loop_eq:
  "rel_loop bmp is n = (let l = filter (\<lambda>i. i \<in> bits bmp) is in if n < length l then l ! n else bm_size bmp)"
  by (induction bmp "is" n rule: rel_loop.induct) (auto simp: Let_def nth_Cons')

lemma rel_to_abs_eq: "bitmask_rel_to_abs_pos bmp n = (if n < length (bit_list bmp) then bit_list bmp ! n else bm_size bmp)"
  by (simp add: bitmask_rel_to_abs_pos_def rel_loop_eq bit_list_def Let_def)

lemma abs_to_rel_eq:
  assumes "n \<in> bits bmp"
  shows "bitmask_abs_to_rel_pos bmp n < length (bit_list bmp)" "bit_list bmp ! bitmask_abs_to_rel_pos bmp n = n"
proof -
  let ?P = "\<lambda>i. i \<in> bits bmp"
  have k: "bitmask_abs_to_rel_pos bmp n = length (filter ?P [0..<n])"
    using assms fold_count [where n = 0] by (simp add: bitmask_abs_to_rel_pos_def)
  have "[0..<bm_size bmp] = [0..<n] @ n # [Suc n..<bm_size bmp]"
    using in_bitsD [OF assms] by (metis le_add1 less_imp_le_nat upt_add_eq_append upt_conv_Cons add_0 le0 le_add_diff_inverse)
  then have l: "bit_list bmp = filter ?P [0..<n] @ n # filter ?P [Suc n..<bm_size bmp]"
    using assms by (simp add: bit_list_def)
  show "bitmask_abs_to_rel_pos bmp n < length (bit_list bmp)" "bit_list bmp ! bitmask_abs_to_rel_pos bmp n = n"
    unfolding k l by (simp_all add: nth_append)
qed

lemma rel_abs_inverse:
  assumes "k < length (bit_list bmp)"
  shows "bitmask_abs_to_rel_pos bmp (bit_list bmp ! k) = k"
proof -
  have "bit_list bmp ! k \<in> bits bmp" using assms nth_mem [of k "bit_list bmp"] by simp
  from abs_to_rel_eq [OF this] show ?thesis
    using assms nth_eq_iff_index_eq [OF sorted_bit_list(2)] by metis
qed

lemma bitmask_next_spec:
  "(\<forall>i. n \<le> i \<and> i < bitmask_next bmp n \<longrightarrow> i \<notin> bits bmp)
   \<and> (bitmask_next bmp n < bm_size bmp \<longrightarrow> bitmask_next bmp n \<in> bits bmp)
   \<and> (bm_size bmp \<le> bitmask_next bmp n \<longrightarrow> bitmask_next bmp n = max n (bm_size bmp))"
proof (induction bmp n rule: bitmask_next.induct)
  case (1 bmp n)
  show ?case
  proof (cases "n < bm_size bmp \<and> n \<notin> bits bmp")
    case True
    then have n: "bitmask_next bmp n = bitmask_next bmp (n + 1)" by (subst bitmask_next.simps) simp
    have IH: "\<forall>i. n + 1 \<le> i \<and> i < bitmask_next bmp (n + 1) \<longrightarrow> i \<notin> bits bmp"
      "bitmask_next bmp (n + 1) < bm_size bmp \<longrightarrow> bitmask_next bmp (n + 1) \<in> bits bmp"
      "bm_size bmp \<le> bitmask_next bmp (n + 1) \<longrightarrow> bitmask_next bmp (n + 1) = max (n + 1) (bm_size bmp)"
      using 1 True by simp_all
    have "i \<notin> bits bmp" if "n \<le> i" "i < bitmask_next bmp (n + 1)" for i
      using that True IH(1) by (cases "i = n") auto
    moreover have "max (n + 1) (bm_size bmp) = max n (bm_size bmp)" using True by simp
    ultimately show ?thesis unfolding n using IH(2,3) by simp
  next
    case False
    then have "bitmask_next bmp n = n" by (subst bitmask_next.simps) auto
    with False show ?thesis by auto
  qed
qed

lemma fold_last:
  "fold (\<lambda>i m. if P i then i else m) [0..<n] k = (if \<exists>i < n. P i then GREATEST i. i < n \<and> P i else k)"
proof (induction n)
  case (Suc n)
  show ?case
  proof (cases "P n")
    case True
    then have "(GREATEST i. i < Suc n \<and> P i) = n" by (intro Greatest_equality) auto
    with True show ?thesis by auto
  next
    case False
    then have "i < Suc n \<and> P i \<longleftrightarrow> i < n \<and> P i" for i by (metis less_Suc_eq)
    with False Suc show ?thesis by auto
  qed
qed simp

lemma bitmask_first_Min: "bitmask_first bmp = (if bits bmp = {} then bm_size bmp else Min (bits bmp))"
proof (cases "bits bmp = {}")
  case True
  then show ?thesis using bitmask_next_spec [of 0 bmp] by (auto simp: bitmask_first_def)
next
  case False
  then obtain j where "j \<in> bits bmp" by auto
  then have "bitmask_next bmp 0 < bm_size bmp" using bitmask_next_spec [of 0 bmp] in_bitsD [of j bmp]
    by (metis le0 leI le_less_trans max.commute max_def)
  then show ?thesis
    using False bitmask_next_spec [of 0 bmp] unfolding bitmask_first_def
    by (auto intro!: Min_eqI [symmetric] simp: not_less [symmetric])
qed

lemma bitmask_last_Max: "bitmask_last bmp = (if bits bmp = {} then bm_size bmp else Max (bits bmp))"
proof -
  have mem: "i < bm_size bmp \<and> i \<in> bits bmp \<longleftrightarrow> i \<in> bits bmp" for i by (auto dest: in_bitsD)
  have "bits bmp \<noteq> {} \<Longrightarrow> (GREATEST i. i \<in> bits bmp) = Max (bits bmp)"
    by (intro Greatest_equality) auto
  moreover have "(\<exists>i < bm_size bmp. i \<in> bits bmp) \<longleftrightarrow> bits bmp \<noteq> {}" by (auto dest: in_bitsD)
  ultimately show ?thesis unfolding bitmask_last_def by (simp add: fold_last mem)
qed

section \<open>Hexadecimal text\<close>

text \<open>Bounded output: what is in the buffer is the beginning of the whole text.\<close>

definition cut_text :: "nat \<Rightarrow> cstr \<Rightarrow> cstr \<times> nat" where
  "cut_text buflen t = (take (buflen - 1) t, length t)"

lemma emit_text_cut: "0 < buflen \<Longrightarrow> emit_text buflen t (cut_text buflen f) = cut_text buflen (f @ t)"
  by (auto simp: emit_text_def cut_text_def)

fun hex_text :: "bitmask \<Rightarrow> nat \<Rightarrow> cstr" where
  "hex_text bmp 0 = []"
| "hex_text bmp (Suc k) = hex_digits HEXCHARSZ (unat (hex_chunk bmp k)) @ (if k = 0 then [] else CHR '','' # hex_text bmp k)"

lemma hex_loop_cut:
  "0 < buflen \<Longrightarrow> hex_loop bmp buflen n sep (cut_text buflen f)
     = cut_text buflen (f @ (if n = 0 then [] else sep @ hex_text bmp n))"
proof (induction n arbitrary: sep f)
  case (Suc n)
  then show ?case by (simp add: emit_text_cut)
qed simp

lemma displayhex_eq:
  "0 < buflen \<Longrightarrow> bitmask_displayhex buflen bmp =
     (let t = hex_text bmp (hex_chunks (bm_size bmp)) in (Some (take (nat buflen - 1) t), length t))"
  using hex_loop_cut [of "nat buflen" bmp "hex_chunks (bm_size bmp)" "''''" "''''"]
  by (auto simp: bitmask_displayhex_def cut_text_def Let_def)

lemma bit_fold_push:
  "j < 32 \<Longrightarrow> m \<le> 32 \<Longrightarrow> bit (fold (\<lambda>k val. push_bit 1 val OR of_bool (P k)) (rev [0..<m]) (v :: 32 word)) j
     = (if j < m then P j else bit v (j - m))"
proof (induction m arbitrary: v)
  case (Suc m)
  have "bit (push_bit 1 v OR of_bool (P m)) (j - m) = (if j = m then P m else bit v (j - Suc m))" if "m \<le> j"
  proof (cases "j = m")
    case True
    then show ?thesis by (simp only: diff_self_eq_0 bit_or_iff bit_push_bit_iff bit_of_bool_iff) simp
  next
    case False
    then have "j - m = Suc (j - Suc m)" "j - Suc m < 31" using that Suc.prems by linarith+
    then show ?thesis using False Suc.prems by (simp only: bit_or_iff bit_push_bit_iff bit_of_bool_iff) simp
  qed
  then show ?case using Suc.IH [OF Suc.prems(1), of "push_bit 1 v OR of_bool (P m)"] Suc.prems
    by (cases "j < m") (auto simp: less_Suc_eq)
qed simp

lemma bit_hex_chunk: "j < 32 \<Longrightarrow> bit (hex_chunk bmp k) j \<longleftrightarrow> k * 32 + j \<in> bits bmp"
  unfolding hex_chunk_def HEXCHUNKSZ_def getbit_bits using bit_fold_push [of j 32 "\<lambda>i. k * 32 + i \<in> bits bmp" 0] by simp

lemma set_chunk_eq:
  "\<forall>b \<in> set bs. chnk * HEXCHUNKSZ + b < sz \<Longrightarrow> set_chunk sz chnk val bs bmp =
     Inr (fold (\<lambda>n b. setbit b n (drop_bit (n - chnk * HEXCHUNKSZ) val AND 1)) (map (\<lambda>b. chnk * HEXCHUNKSZ + b) bs) bmp)"
  by (induction bs arbitrary: bmp) auto

lemma bits_set_chunk:
  assumes "wf_bm bmp" "chnk * 32 + 32 \<le> sz" "bm_size m = bm_size bmp"
  shows "\<exists>b. set_chunk sz chnk (hex_chunk m chnk) (rev [0..<HEXCHUNKSZ]) bmp = Inr b \<and> wf_bm b \<and> bm_size b = bm_size bmp
    \<and> (\<forall>i. i \<in> bits b \<longleftrightarrow> (if chnk * 32 \<le> i \<and> i < chnk * 32 + 32 then i \<in> bits m else i \<in> bits bmp))"
proof -
  define g :: "nat \<Rightarrow> 32 word" where "g n = drop_bit (n - chnk * HEXCHUNKSZ) (hex_chunk m chnk) AND 1" for n
  define ns where "ns = map (\<lambda>b. chnk * HEXCHUNKSZ + b) (rev [0..<HEXCHUNKSZ])"
  define b where "b = fold (\<lambda>n b. setbit b n (g n)) ns bmp"
  have "set_chunk sz chnk (hex_chunk m chnk) (rev [0..<HEXCHUNKSZ]) bmp = Inr b"
    unfolding b_def g_def ns_def using assms(2) by (intro set_chunk_eq) (auto simp: HEXCHUNKSZ_def)
  moreover have b: "bm_size b = bm_size bmp" "wf_bm b"
    "\<forall>i < bm_size bmp. i \<in> bits b \<longleftrightarrow> (if i \<in> set ns then g i \<noteq> 0 else i \<in> bits bmp)"
    unfolding b_def using bm.fold_put_fun [OF assms(1), of g ns] by auto
  moreover have ns: "i \<in> set ns \<longleftrightarrow> chnk * 32 \<le> i \<and> i < chnk * 32 + 32" for i
  proof -
    have "set ns = (+) (chnk * 32) ` {0..<32}" by (simp add: ns_def HEXCHUNKSZ_def)
    also have "\<dots> = {chnk * 32..<chnk * 32 + 32}" by (simp only: image_add_atLeastLessThan) (simp add: add.commute)
    finally show ?thesis by simp
  qed
  moreover have gi: "g i \<noteq> 0 \<longleftrightarrow> i \<in> bits m" if "i \<in> set ns" for i
  proof -
    have i: "i - chnk * 32 < 32" "chnk * 32 + (i - chnk * 32) = i" using that unfolding ns by linarith+
    have "g i \<noteq> 0 \<longleftrightarrow> bit (hex_chunk m chnk) (i - chnk * 32)"
      unfolding g_def HEXCHUNKSZ_def drop_bit_and_1 by simp
    then show ?thesis using bit_hex_chunk [OF i(1), of m chnk] unfolding i(2) by simp
  qed
  moreover have "i \<in> bits b \<longleftrightarrow> (if i \<in> set ns then i \<in> bits m else i \<in> bits bmp)" for i
  proof (cases "i < bm_size bmp")
    case True
    then show ?thesis using b(3) gi by simp
  next
    case False
    then have "i \<notin> bits b" "i \<notin> bits m" "i \<notin> bits bmp"
      using in_bitsD [of i b] in_bitsD [of i m] in_bitsD [of i bmp] b(1) assms(3) by auto
    then show ?thesis by simp
  qed
  ultimately show ?thesis unfolding ns by blast
qed

lemma comma_not_hex: "CHR '','' \<notin> set (hex_digits k v)"
  using hex_digits_xdigit [of "CHR '',''" k v] by (auto simp: isxdigit_def isdigit_def)

lemma strchr_append: "c \<notin> set s \<Longrightarrow> strchr (s @ r) c = strchr r c"
  by (induction s) auto

lemma token_list_hex:
  "token_list (Some (hex_text m (Suc k))) =
     (hex_text m (Suc k), if k = 0 then None else Some (hex_text m k)) # (if k = 0 then [] else token_list (Some (hex_text m k)))"
  using comma_not_hex by (simp add: nexttoken_def strchr_append)

lemma length_token_hex: "length (token_list (Some (hex_text m (Suc k)))) = Suc k"
proof (induction k)
  case (Suc k)
  then show ?case unfolding token_list_hex [of m "Suc k"] by simp
qed (simp add: token_list_hex del: hex_text.simps token_list.simps)

lemma parsehex_token:
  assumes "strtoul16 p = (v, e)" "length p - length e = 8"
    and "case q of None \<Rightarrow> True | Some q' \<Rightarrow> length e - length q' = 1"
  shows "parsehex_loop sz ((p, q) # toks) bmp =
     (case set_chunk sz (length toks) (of_nat v) (rev [0..<HEXCHUNKSZ]) bmp of
        Inl b \<Rightarrow> Inl b | Inr b \<Rightarrow> parsehex_loop sz toks b)"
proof -
  have "length e < length p" using assms(2) by linarith
  with assms show ?thesis by (simp add: HEXCHARSZ_def split: option.splits)
qed

lemma parsehex_step:
  assumes "toks = (if k = 0 then [] else token_list (Some (hex_text m k)))" "length toks = k"
  shows "parsehex_loop sz (token_list (Some (hex_text m (Suc k)))) bmp =
     (case set_chunk sz k (hex_chunk m k) (rev [0..<HEXCHUNKSZ]) bmp of
        Inl b \<Rightarrow> Inl b | Inr b \<Rightarrow> parsehex_loop sz toks b)"
proof -
  define v where "v = unat (hex_chunk m k)"
  define r where "r = (if k = 0 then [] else CHR '','' # hex_text m k)"
  have p: "hex_text m (Suc k) = hex_digits 8 v @ r" by (simp add: v_def r_def HEXCHARSZ_def)
  have v: "v < 2 ^ 32" unfolding v_def using unsigned_less [of "hex_chunk m k"] by simp
  have "strtoul16 (hex_digits 8 v @ r) = (v mod 16 ^ 8, r)"
    by (rule strtoul16_digits) (simp_all add: r_def isxdigit_def isdigit_def)
  then have st: "strtoul16 (hex_text m (Suc k)) = (v, r)" unfolding p using v by simp
  have len: "length (hex_text m (Suc k)) - length r = 8" unfolding p by simp
  have q: "case (if k = 0 then None else Some (hex_text m k)) of None \<Rightarrow> True | Some q' \<Rightarrow> length r - length q' = 1"
    by (simp add: r_def)
  have "parsehex_loop sz ((hex_text m (Suc k), if k = 0 then None else Some (hex_text m k)) # toks) bmp =
     (case set_chunk sz (length toks) (of_nat v) (rev [0..<HEXCHUNKSZ]) bmp of
        Inl b \<Rightarrow> Inl b | Inr b \<Rightarrow> parsehex_loop sz toks b)"
    by (rule parsehex_token) (fact st, fact len, fact q)
  moreover have "of_nat v = hex_chunk m k" by (simp add: v_def)
  ultimately show ?thesis unfolding token_list_hex assms(1) [symmetric] assms(2) by simp
qed

lemma parsehex_text:
  assumes "wf_bm bmp" "bm_size m = bm_size bmp" "Suc k * 32 \<le> sz"
  shows "\<exists>b. parsehex_loop sz (token_list (Some (hex_text m (Suc k)))) bmp = Inr b \<and> wf_bm b \<and> bm_size b = bm_size bmp
     \<and> (\<forall>i. i \<in> bits b \<longleftrightarrow> (if i < Suc k * 32 then i \<in> bits m else i \<in> bits bmp))"
  using assms
proof (induction k arbitrary: bmp)
  case 0
  from bits_set_chunk [of bmp 0 sz m] 0 obtain b where
    "set_chunk sz 0 (hex_chunk m 0) (rev [0..<HEXCHUNKSZ]) bmp = Inr b" "wf_bm b" "bm_size b = bm_size bmp"
    "\<forall>i. i \<in> bits b \<longleftrightarrow> (if i < 32 then i \<in> bits m else i \<in> bits bmp)" by auto
  with parsehex_step [of "[]" 0 m sz bmp] show ?case by simp
next
  case (Suc k)
  from bits_set_chunk [of bmp "Suc k" sz m] Suc.prems obtain b where
    b: "set_chunk sz (Suc k) (hex_chunk m (Suc k)) (rev [0..<HEXCHUNKSZ]) bmp = Inr b" "wf_bm b" "bm_size b = bm_size bmp"
    "\<forall>i. i \<in> bits b \<longleftrightarrow> (if Suc k * 32 \<le> i \<and> i < Suc k * 32 + 32 then i \<in> bits m else i \<in> bits bmp)" by auto
  from Suc.IH [of b] b(2,3) Suc.prems obtain b' where
    b': "parsehex_loop sz (token_list (Some (hex_text m (Suc k)))) b = Inr b'" "wf_bm b'" "bm_size b' = bm_size bmp"
    "\<forall>i. i \<in> bits b' \<longleftrightarrow> (if i < Suc k * 32 then i \<in> bits m else i \<in> bits b)" by auto
  have "parsehex_loop sz (token_list (Some (hex_text m (Suc (Suc k))))) bmp = Inr b'"
    using parsehex_step [OF refl, of "Suc k" m sz bmp] length_token_hex [of m k] b(1) b'(1)
    by (simp del: hex_text.simps token_list.simps)
  moreover have "i \<in> bits b' \<longleftrightarrow> (if i < Suc (Suc k) * 32 then i \<in> bits m else i \<in> bits bmp)" for i
    using b(4) b'(4) by simp
  ultimately show ?case using b'(2,3) by blast
qed

section \<open>Decimal lists\<close>

text \<open>The terms of a list, what they print as and the bits they stand for.\<close>

datatype bterm = One nat | Range nat nat | Stride nat nat nat

fun term_text :: "bterm \<Rightarrow> cstr" where
  "term_text (One a) = dec a"
| "term_text (Range a b) = dec a @ ''-'' @ dec b"
| "term_text (Stride a b s) = dec a @ ''-'' @ dec b @ '':'' @ dec s"

fun term_bits :: "bterm \<Rightarrow> nat set" where
  "term_bits (One a) = {a}"
| "term_bits (Range a b) = {a..b}"
| "term_bits (Stride a b s) = {i. a \<le> i \<and> i \<le> b \<and> s dvd (i - a)}"

fun term_ok :: "nat \<Rightarrow> bterm \<Rightarrow> bool" where
  "term_ok sz (One a) = (a < sz)"
| "term_ok sz (Range a b) = (a \<le> b \<and> b < sz)"
| "term_ok sz (Stride a b s) = (a \<le> b \<and> b < sz \<and> 0 < s \<and> b + s < 2 ^ 32)"

fun list_text :: "bterm list \<Rightarrow> cstr" where
  "list_text [] = []"
| "list_text [t] = term_text t"
| "list_text (t # ts) = term_text t @ CHR '','' # list_text ts"

subsection \<open>The stride loop\<close>

text \<open>A stride of 0 never ends; otherwise the loop sets every stride-th bit of the range.\<close>

lemma stride_ends: "stride_loop s b a bmp = Some y \<Longrightarrow> s = 0 \<longrightarrow> b < 2 ^ 32 \<longrightarrow> \<not> a \<le> b"
  by (rule stride_loop.raw_induct [of "\<lambda>s b a bmp y. s = 0 \<longrightarrow> b < 2 ^ 32 \<longrightarrow> \<not> a \<le> b"])
    (auto split: if_splits)

lemma stride_zero: "a \<le> b \<Longrightarrow> b < 2 ^ 32 \<Longrightarrow> stride_loop 0 b a bmp = None"
  using stride_ends by (cases "stride_loop 0 b a bmp") auto

lemma stride_loop_bits:
  assumes "wf_bm bmp" "0 < s" "b + s < 2 ^ 32" "b < bm_size bmp"
  shows "\<exists>bmp'. stride_loop s b a bmp = Some bmp' \<and> wf_bm bmp' \<and> bm_size bmp' = bm_size bmp
     \<and> bits bmp' = bits bmp \<union> {i. a \<le> i \<and> i \<le> b \<and> s dvd (i - a)}"
  using assms
proof (induction "b + 1 - a" arbitrary: a bmp rule: less_induct)
  case less
  show ?case
  proof (cases "a \<le> b")
    case False
    then show ?thesis using less.prems by (subst stride_loop.simps) auto
  next
    case True
    have m: "(a + s) mod 2 ^ 32 = a + s" using True less.prems by (intro mod_less) linarith
    have "b + 1 - (a + s) < b + 1 - a" using True less.prems by linarith
    from less.hyps [OF this, of "setbit bmp a 1"] less.prems obtain bmp' where
      b': "stride_loop s b (a + s) (setbit bmp a 1) = Some bmp'" "wf_bm bmp'" "bm_size bmp' = bm_size bmp"
      "bits bmp' = bits (setbit bmp a 1) \<union> {i. a + s \<le> i \<and> i \<le> b \<and> s dvd (i - (a + s))}" by auto
    have "stride_loop s b a bmp = Some bmp'" using True b'(1) m by (subst stride_loop.simps) simp
    moreover have "a \<le> i \<and> s dvd (i - a) \<longleftrightarrow> i = a \<or> a + s \<le> i \<and> s dvd (i - (a + s))" for i
    proof
      assume i: "a \<le> i \<and> s dvd (i - a)"
      show "i = a \<or> a + s \<le> i \<and> s dvd (i - (a + s))"
      proof (cases "i = a")
        case False
        then have "s \<le> i - a" using i by (intro dvd_imp_le) auto
        then have "i - (a + s) = (i - a) - s" "a + s \<le> i" using i by linarith+
        then show ?thesis using i by (metis dvd_diff_nat dvd_refl)
      qed simp
    next
      assume "i = a \<or> a + s \<le> i \<and> s dvd (i - (a + s))"
      moreover have "s dvd (i - (a + s)) \<Longrightarrow> a + s \<le> i \<Longrightarrow> s dvd (i - a)"
        by (metis add.commute diff_diff_left dvd_add_right_iff dvd_refl le_add_diff_inverse2 le_diff_conv2 add_leD1)
      ultimately show "a \<le> i \<and> s dvd (i - a)" by auto
    qed
    then have "bits bmp' = bits bmp \<union> {i. a \<le> i \<and> i \<le> b \<and> s dvd (i - a)}"
      unfolding b'(4) using True less.prems by (auto simp: bits_setbit)
    ultimately show ?thesis using b'(2,3) by blast
  qed
qed

subsection \<open>Parsing a term\<close>

lemma not_in_dec: "\<not> isdigit c \<Longrightarrow> c \<notin> set (dec n)"
  using dec_digits by blast

lemma separators [simp]: "\<not> isdigit (CHR '','')" "\<not> isdigit (CHR ''-'')" "\<not> isdigit (CHR '':'')"
  by (simp_all add: isdigit_def)

lemma scan_u_c_dec:
  assumes "n < 2 ^ 32" "e = [] \<or> \<not> isdigit (hd e)"
  shows "scan_u_c (dec n @ e) = (if e = [] then 1 else 2, n, deref e)"
proof -
  have "strtoul10 (dec n @ e) = (n, e)" using assms by (intro strtoul10_dec) (auto simp: ULONG_MAX_def)
  moreover have "dropWhile isspace (dec n @ e) \<noteq> []" using dec_head [of n e] by simp
  ultimately show ?thesis using assms(1) dec_nonempty [of n, symmetric] by (cases e) (simp_all add: scan_u_c_def del: dec_nonempty)
qed

definition term_end :: "cstr \<Rightarrow> bool" where
  "term_end r = (r = [] \<or> hd r = CHR '','')"

lemma term_end_cases:
  assumes "term_end r"
  obtains "r = []" | r' where "r = CHR '','' # r'"
  using assms by (cases r) (auto simp: term_end_def)

lemma nexttoken_dec: "\<not> isdigit c \<Longrightarrow> nexttoken (Some (dec n @ r)) c = nexttoken (Some r) c"
  by (simp add: nexttoken_def strchr_append not_in_dec)

lemma nexttoken_Cons [simp]: "nexttoken (Some (x # r)) c = (if x = c then Some r else nexttoken (Some r) c)"
  by (simp add: nexttoken_def)

lemma nexttoken_Nil [simp]: "nexttoken (Some []) c = None"
  by (simp add: nexttoken_def)

lemma far_token:
  assumes "term_end r" "c \<noteq> CHR '',''" "nexttoken (Some r) c = Some q"
  shows "\<not> before q (nexttoken (Some r) (CHR '',''))"
proof -
  obtain r' where r: "r = CHR '','' # r'" using assms(1,3) by (cases rule: term_end_cases) auto
  with assms(2,3) obtain p where "strchr r' c = Some p" "q = tl p" by (auto simp: nexttoken_def)
  then show ?thesis using r strchr_tl_length [of r' c p] by (simp add: before_def)
qed

lemma scan_ok: "term_end e \<Longrightarrow> scan_was_ok (if e = [] then 1 else 2) (deref e) (CHR '','' # cs)"
  by (elim term_end_cases) (simp_all add: scan_was_ok_def)

fun term_range :: "bterm \<Rightarrow> nat \<times> nat \<times> nat" where
  "term_range (One a) = (a, a, 1)"
| "term_range (Range a b) = (a, b, 1)"
| "term_range (Stride a b s) = (a, b, s)"

lemma before_suffix: "length q < length p \<Longrightarrow> before p (Some q)" "before p None"
  by (simp_all add: before_def)

lemma nexttoken_shorter: "nexttoken (Some r) c = Some q \<Longrightarrow> length q < length r"
  using strchr_tl_length by (fastforce simp: nexttoken_def)

lemma before_next: "before (s @ r) (nexttoken (Some r) c)"
  using nexttoken_shorter [of r c] by (cases "nexttoken (Some r) c") (fastforce simp: before_def)+

lemma term_end_digit: "term_end r \<Longrightarrow> r = [] \<or> \<not> isdigit (hd r)"
  by (auto simp: term_end_def)

lemma parse_term_text:
  assumes "term_ok sz t" "sz < 2 ^ 32" "term_end r"
  shows "parse_term sz (term_text t @ r) = Some (term_range t)"
proof (cases t)
  case (One a)
  have sc: "scan_u_c (dec a @ r) = (if r = [] then 1 else 2, a, deref r)"
    using assms One by (intro scan_u_c_dec) (auto dest: term_end_digit)
  show ?thesis
  proof (cases "nexttoken (Some r) (CHR ''-'')")
    case None
    then show ?thesis using One assms sc scan_ok [OF assms(3)] by (simp add: parse_term_def nexttoken_dec)
  next
    case (Some c1)
    then show ?thesis using One assms sc scan_ok [OF assms(3)] far_token [OF assms(3) _ Some]
      by (simp add: parse_term_def nexttoken_dec)
  qed
next
  case (Range a b)
  have sc: "scan_u_c (dec a @ CHR ''-'' # dec b @ r) = (2, a, CHR ''-'')"
    using assms Range scan_u_c_dec [of a "CHR ''-'' # dec b @ r"] by simp
  have sc2: "scan_u_c (dec b @ r) = (if r = [] then 1 else 2, b, deref r)"
    using assms Range by (intro scan_u_c_dec) (auto dest: term_end_digit)
  have ok: "scan_was_ok 2 (CHR ''-'') '',-''" by (simp add: scan_was_ok_def)
  show ?thesis
  proof (cases "nexttoken (Some r) (CHR '':'')")
    case None
    then show ?thesis using Range assms sc sc2 ok scan_ok [OF assms(3)] before_next
      by (simp add: parse_term_def nexttoken_dec)
  next
    case (Some c3)
    then show ?thesis using Range assms sc sc2 ok scan_ok [OF assms(3)] before_next far_token [OF assms(3) _ Some]
      by (simp add: parse_term_def nexttoken_dec)
  qed
next
  case (Stride a b s)
  have sc: "scan_u_c (dec a @ CHR ''-'' # dec b @ CHR '':'' # dec s @ r) = (2, a, CHR ''-'')"
    using assms Stride scan_u_c_dec [of a "CHR ''-'' # dec b @ CHR '':'' # dec s @ r"] by simp
  have sc2: "scan_u_c (dec b @ CHR '':'' # dec s @ r) = (2, b, CHR '':'')"
    using assms Stride scan_u_c_dec [of b "CHR '':'' # dec s @ r"] by simp
  have sc3: "scan_u_c (dec s @ r) = (if r = [] then 1 else 2, s, deref r)"
    using assms Stride by (intro scan_u_c_dec) (auto dest: term_end_digit)
  have ok: "scan_was_ok 2 (CHR ''-'') '',-''" "scan_was_ok 2 (CHR '':'') '',:''" by (simp_all add: scan_was_ok_def)
  have b2: "before (dec b @ CHR '':'' # dec s @ r) (nexttoken (Some r) c)" for c
    using before_next [of "dec b @ CHR '':'' # dec s" r c] by simp
  show ?thesis using Stride assms sc sc2 sc3 ok b2 before_next scan_ok [OF assms(3)]
    by (simp add: parse_term_def nexttoken_dec)
qed

subsection \<open>Parsing a list\<close>

lemma term_text_comma: "CHR '','' \<notin> set (term_text t)"
  by (cases t) (simp_all add: not_in_dec)

lemma list_text_Cons: "list_text (t # ts) = term_text t @ (if ts = [] then [] else CHR '','' # list_text ts)"
  by (cases ts) auto

lemma token_list_text:
  "token_list (Some (list_text (t # ts))) =
     (list_text (t # ts), if ts = [] then None else Some (list_text ts)) #
       (if ts = [] then [] else token_list (Some (list_text ts)))"
proof -
  have "nexttoken (Some (list_text (t # ts))) (CHR '','') = (if ts = [] then None else Some (list_text ts))"
    unfolding list_text_Cons by (simp add: nexttoken_def strchr_append term_text_comma)
  then show ?thesis by (simp del: list_text.simps)
qed

lemma term_range_bits:
  assumes "term_ok sz t" "sz < 2 ^ 32" "wf_bm bmp" "bm_size bmp = sz"
  shows "\<exists>bmp'. (case term_range t of (a, b, s) \<Rightarrow> stride_loop s b a bmp) = Some bmp' \<and> wf_bm bmp'
     \<and> bm_size bmp' = bm_size bmp \<and> bits bmp' = bits bmp \<union> term_bits t"
proof (cases t)
  case (One a)
  have "{i. a \<le> i \<and> i \<le> a \<and> 1 dvd (i - a)} = {a}" by auto
  then show ?thesis using stride_loop_bits [of bmp 1 a a] One assms by simp
next
  case (Range a b)
  have "{i. a \<le> i \<and> i \<le> b \<and> 1 dvd (i - a)} = {a..b}" by auto
  then show ?thesis using stride_loop_bits [of bmp 1 b a] Range assms by simp
next
  case (Stride a b s)
  then show ?thesis using stride_loop_bits [of bmp s b a] assms by simp
qed

lemma parselist_terms:
  assumes "\<forall>t \<in> set (t # ts). term_ok (bm_size bmp) t" "wf_bm bmp"
  shows "\<exists>bmp'. parselist_loop (token_list (Some (list_text (t # ts)))) bmp = Some (Inr bmp') \<and> wf_bm bmp'
     \<and> bm_size bmp' = bm_size bmp \<and> bits bmp' = bits bmp \<union> (\<Union>t \<in> set (t # ts). term_bits t)"
  using assms
proof (induction ts arbitrary: t bmp)
  case Nil
  have sz: "bm_size bmp < 2 ^ 32" using Nil.prems(2) by (simp add: wf_bm_def)
  have p: "parse_term (bm_size bmp) (term_text t) = Some (term_range t)"
    using parse_term_text [of "bm_size bmp" t "[]"] Nil.prems sz by (simp add: term_end_def)
  obtain a b s where r: "term_range t = (a, b, s)" by (cases "term_range t")
  from term_range_bits [OF _ sz Nil.prems(2) refl, of t] Nil.prems p r show ?case
    unfolding token_list_text by auto
next
  case (Cons u us)
  have sz: "bm_size bmp < 2 ^ 32" using Cons.prems(2) by (simp add: wf_bm_def)
  have p: "parse_term (bm_size bmp) (list_text (t # u # us)) = Some (term_range t)"
    using parse_term_text [of "bm_size bmp" t "CHR '','' # list_text (u # us)"] Cons.prems sz by (simp add: term_end_def)
  obtain a b s where r: "term_range t = (a, b, s)" by (cases "term_range t")
  from term_range_bits [OF _ sz Cons.prems(2) refl, of t] Cons.prems r obtain bmp1 where
    b1: "stride_loop s b a bmp = Some bmp1" "wf_bm bmp1" "bm_size bmp1 = bm_size bmp"
      "bits bmp1 = bits bmp \<union> term_bits t" by auto
  from Cons.IH [of u bmp1] Cons.prems b1 obtain bmp2 where
    b2: "parselist_loop (token_list (Some (list_text (u # us)))) bmp1 = Some (Inr bmp2)" "wf_bm bmp2"
      "bm_size bmp2 = bm_size bmp" "bits bmp2 = bits bmp1 \<union> (\<Union>t \<in> set (u # us). term_bits t)" by auto
  have "parselist_loop (token_list (Some (list_text (t # u # us)))) bmp = Some (Inr bmp2)"
    unfolding token_list_text [of t] using p r b1(1) b2(1) by (simp del: list_text.simps token_list.simps)
  moreover have "bits bmp2 = bits bmp \<union> (\<Union>t \<in> set (t # u # us). term_bits t)" unfolding b2(4) b1(4) by auto
  ultimately show ?case using b2(2,3) by blast
qed

subsection \<open>Printing a list\<close>

text \<open>Maximal runs of consecutive numbers of an increasing list.\<close>

fun runs :: "nat \<Rightarrow> nat \<Rightarrow> nat list \<Rightarrow> bterm list" where
  "runs rbot rtop [] = [if rbot = rtop then One rbot else Range rbot rtop]"
| "runs rbot rtop (x # xs) =
     (if x = rtop + 1 then runs rbot x xs
      else (if rbot = rtop then One rbot else Range rbot rtop) # runs x x xs)"

lemma runs_nonempty: "runs rbot rtop xs \<noteq> []"
  by (induction xs arbitrary: rbot rtop) auto

lemma upt_split: "i \<le> j \<Longrightarrow> j < k \<Longrightarrow> [i..<k] = [i..<j] @ j # [Suc j..<k]"
  by (induction k) (auto simp: less_Suc_eq)

lemma runs_bits: "rbot \<le> rtop \<Longrightarrow> (\<Union>t \<in> set (runs rbot rtop xs). term_bits t) = {rbot..rtop} \<union> set xs"
proof (induction xs arbitrary: rbot rtop)
  case (Cons x xs)
  show ?case
  proof (cases "x = rtop + 1")
    case True
    then have "{rbot..x} = insert x {rbot..rtop}" using Cons.prems by auto
    with True Cons show ?thesis by auto
  next
    case False
    then show ?thesis using Cons.IH [of x x] Cons.prems by auto
  qed
qed auto

lemma runs_ok: "rbot \<le> rtop \<Longrightarrow> rtop < sz \<Longrightarrow> \<forall>x \<in> set xs. x < sz \<Longrightarrow> sorted (rtop # xs) \<Longrightarrow>
   t \<in> set (runs rbot rtop xs) \<Longrightarrow> term_ok sz t"
proof (induction xs arbitrary: rbot rtop)
  case (Cons x xs)
  then show ?case using Cons.IH [of rbot x] Cons.IH [of x x] by (cases "x = rtop + 1") (auto split: if_splits)
qed (auto split: if_splits)

definition add_term :: "cstr \<Rightarrow> bterm \<Rightarrow> cstr" where
  "add_term f t = (if f = [] then term_text t else f @ CHR '','' # term_text t)"

lemma term_text_nonempty [simp]: "term_text t \<noteq> []"
  by (cases t) auto

lemma foldl_add_term: "foldl add_term f (t # ts) = (if f = [] then list_text (t # ts) else f @ CHR '','' # list_text (t # ts))"
proof (induction ts arbitrary: f t)
  case (Cons u us)
  have "foldl add_term f (t # u # us) = foldl add_term (add_term f t) (u # us)" by simp
  then show ?case using Cons.IH [of "add_term f t" u] by (simp add: add_term_def)
qed (simp add: add_term_def)

lemma emit_cut:
  assumes "0 < buflen" "rtop < 2 ^ 31" "rbot \<le> rtop"
  shows "emit buflen rbot rtop (cut_text buflen f) =
     cut_text buflen (add_term f (if rbot = rtop then One rbot else Range rbot rtop))"
proof -
  have "snd (cut_text buflen f) > 0 \<longleftrightarrow> f \<noteq> []" by (simp add: cut_text_def)
  then show ?thesis
    using assms emit_text_cut [OF assms(1), of _ f] emit_text_cut [OF assms(1), of _ "f @ '',''"]
    by (auto simp: emit_def add_term_def dec_unsigned_def Let_def)
qed

lemma list_loop_cut:
  assumes "0 < buflen" "bm_size bmp \<le> 2 ^ 31" "rbot \<le> cur" "cur < bm_size bmp"
  shows "list_loop bmp buflen rbot cur (cut_text buflen f) =
     cut_text buflen (foldl add_term f (runs rbot cur (filter (\<lambda>i. i \<in> bits bmp) [Suc cur..<bm_size bmp])))"
  using assms(3,4)
proof (induction "bm_size bmp - cur" arbitrary: rbot cur f rule: less_induct)
  case less
  let ?n = "bitmask_next bmp (cur + 1)" let ?l = "filter (\<lambda>i. i \<in> bits bmp) [Suc cur..<bm_size bmp]"
  have ge: "cur + 1 \<le> ?n" by (rule bitmask_next_ge)
  note spec = bitmask_next_spec [of "cur + 1" bmp]
  let ?t = "if rbot = cur then One rbot else Range rbot cur"
  have em: "emit buflen rbot cur (cut_text buflen f) = cut_text buflen (add_term f ?t)"
    using assms(1,2) less.prems by (intro emit_cut) auto
  show ?case
  proof (cases "?n < bm_size bmp")
    case False
    have "?l = []" using spec False by (auto simp: filter_empty_conv)
    moreover have "list_loop bmp buflen ?n ?n bl = bl" for bl using False by (subst list_loop.simps) simp
    ultimately show ?thesis
      using False less.prems em by (subst list_loop.simps) (simp add: Let_def)
  next
    case True
    have "[Suc cur..<bm_size bmp] = [Suc cur..<?n] @ ?n # [Suc ?n..<bm_size bmp]"
      using True ge by (intro upt_split) auto
    moreover have "filter (\<lambda>i. i \<in> bits bmp) [Suc cur..<?n] = []" using spec by (auto simp: filter_empty_conv)
    ultimately have l: "?l = ?n # filter (\<lambda>i. i \<in> bits bmp) [Suc ?n..<bm_size bmp]" using True spec by simp
    have dec: "bm_size bmp - ?n < bm_size bmp - cur" using True ge by linarith
    show ?thesis
    proof (cases "?n > cur + 1")
      case gap: True
      then show ?thesis
        using True less.prems em less.hyps [OF dec order.refl True, of "add_term f ?t"] unfolding l
        by (subst list_loop.simps) (simp add: Let_def)
    next
      case False
      with ge have "?n = cur + 1" by simp
      then show ?thesis
        using True less.prems less.hyps [OF dec _ True, of rbot f] unfolding l
        by (subst list_loop.simps) (simp add: Let_def)
    qed
  qed
qed

lemma displaylist_eq:
  assumes "0 < buflen" "bm_size bmp \<le> 2 ^ 31" "bits bmp \<noteq> {}"
  shows "\<exists>t ts. bitmask_displaylist buflen bmp =
       (Some (take (nat buflen - 1) (list_text (t # ts))), length (list_text (t # ts)))
     \<and> (\<forall>u \<in> set (t # ts). term_ok (bm_size bmp) u) \<and> (\<Union>u \<in> set (t # ts). term_bits u) = bits bmp"
proof -
  let ?f = "bitmask_first bmp"
  have f: "?f \<in> bits bmp" using assms(3) by (simp add: bitmask_first_Min)
  then have fs: "?f < bm_size bmp" by (rule in_bitsD)
  let ?l = "filter (\<lambda>i. i \<in> bits bmp) [Suc ?f..<bm_size bmp]"
  obtain t ts where ts: "runs ?f ?f ?l = t # ts" using runs_nonempty [of ?f ?f ?l] by (cases "runs ?f ?f ?l") auto
  have "list_loop bmp (nat buflen) ?f ?f ('''', 0) = cut_text (nat buflen) (list_text (t # ts))"
    using list_loop_cut [of "nat buflen" bmp ?f ?f "''''"] assms fs ts foldl_add_term [of "''''" t ts]
    by (simp add: cut_text_def)
  then have "bitmask_displaylist buflen bmp =
       (Some (take (nat buflen - 1) (list_text (t # ts))), length (list_text (t # ts)))"
    using assms(1) by (simp add: bitmask_displaylist_def cut_text_def Let_def)
  moreover have "\<forall>u \<in> set (t # ts). term_ok (bm_size bmp) u"
  proof -
    have "sorted ?l" by (intro sorted_wrt_filter) simp
    then show ?thesis using runs_ok [of ?f ?f "bm_size bmp" ?l] fs ts by auto
  qed
  moreover have "{?f..?f} \<union> set ?l = bits bmp"
  proof -
    have "?f \<le> i" if "i \<in> bits bmp" for i using that by (auto simp: bitmask_first_Min)
    then have "i \<in> bits bmp \<longleftrightarrow> i = ?f \<or> i \<in> bits bmp \<and> Suc ?f \<le> i \<and> i < bm_size bmp" for i
      using f in_bitsD [of i bmp] by (metis Suc_leI le_less)
    then show ?thesis by auto
  qed
  ultimately show ?thesis using runs_bits [of ?f ?f ?l] ts by (intro exI [of _ t] exI [of _ ts]) auto
qed

section \<open>Properties\<close>

text \<open>C6. The binary and unary operations implement the set operations on the bits, cut to the size of
  the destination, also when the destination is one of the sources; they keep the destination
  well-formed and change no other mask.\<close>

theorem bitmask_ops_refine_sets:
  assumes "wf_bm (st d)"
  shows "bits (bitmask_copy d a st d) = bits (st a) \<inter> {..<bm_size (st d)}
     \<and> bits (bitmask_complement d a st d) = {..<bm_size (st d)} - bits (st a)
     \<and> bits (bitmask_and d a b st d) = bits (st a) \<inter> bits (st b) \<inter> {..<bm_size (st d)}
     \<and> bits (bitmask_andnot d a b st d) = (bits (st a) - bits (st b)) \<inter> {..<bm_size (st d)}
     \<and> bits (bitmask_or d a b st d) = (bits (st a) \<union> bits (st b)) \<inter> {..<bm_size (st d)}
     \<and> bits (bitmask_eor d a b st d) =
         ((bits (st a) - bits (st b)) \<union> (bits (st b) - bits (st a))) \<inter> {..<bm_size (st d)}
     \<and> same_but d {} st (bitmask_and d a b st) \<and> same_but d {} st (bitmask_andnot d a b st)
     \<and> same_but d {} st (bitmask_or d a b st) \<and> same_but d {} st (bitmask_eor d a b st)
     \<and> same_but d {} st (bitmask_copy d a st) \<and> same_but d {} st (bitmask_complement d a st)"
  by (intro conjI bits_ops ops_frame assms)

definition demo_mask :: "nat \<Rightarrow> nat list \<Rightarrow> bitmask" where
  "demo_mask n is = fold (\<lambda>i b. setbit b i 1) is \<lparr>bm_size = n, maskp = replicate (longsperbits n) 0\<rparr>"

lemma demo_mask_spec:
  assumes "n < 2 ^ 32"
  shows "wf_bm (demo_mask n is)" "bm_size (demo_mask n is) = n" "bits (demo_mask n is) = set is \<inter> {..<n}"
proof -
  have a: "bitmask_alloc True True n = Some \<lparr>bm_size = n, maskp = replicate (longsperbits n) 0\<rparr>"
    by (simp add: bitmask_alloc_def)
  note w = alloc_wf [OF a assms]
  show "wf_bm (demo_mask n is)" "bm_size (demo_mask n is) = n" "bits (demo_mask n is) = set is \<inter> {..<n}"
    using w unfolding demo_mask_def by (simp_all add: bm.fold_put_frame bm.fold_put)
qed

theorem bitmask_ops_refine_sets_witness:
  "wf_bm (demo_mask 100 [3, 70])
   \<and> bits (bitmask_eor 0 0 1 (\<lambda>p. if p = 0 then demo_mask 100 [3, 70] else demo_mask 128 [70, 99, 120]) 0) = {3, 99}"
proof -
  let ?st = "\<lambda>p :: nat. if p = 0 then demo_mask 100 [3, 70] else demo_mask 128 [70, 99, 120]"
  have w: "wf_bm (?st 0)" using demo_mask_spec(1) [of 100] by simp
  have "bits (bitmask_eor 0 0 1 ?st 0) =
      ((bits (?st 0) - bits (?st 1)) \<union> (bits (?st 1) - bits (?st 0))) \<inter> {..<bm_size (?st 0)}"
    using bitmask_ops_refine_sets [of ?st 0 0 1, OF w] by (elim conjE)
  also have "\<dots> = {3, 99}" using demo_mask_spec [of 100] demo_mask_spec [of 128] by auto
  finally show ?thesis using w by simp
qed

text \<open>C18. Shifting right and left moves every bit by \<open>n\<close> and fills with zeros, also in place, as long as
  bit numbers do not reach \<open>2 ^ 32\<close>.\<close>

theorem bitmask_shift_correct:
  assumes "wf_bm (st d)" and "bm_size (st d) \<le> 2 ^ 31" and "bm_size (st d) + n \<le> 2 ^ 32"
    and "bm_size (st a) + n \<le> 2 ^ 32" and "n < 2 ^ 32"
  shows "bits (bitmask_shiftright d a n st d) = {i. i < bm_size (st d) \<and> i + n \<in> bits (st a)}
     \<and> bits (bitmask_shiftleft d a n st d) = {i. i < bm_size (st d) \<and> n \<le> i \<and> i - n \<in> bits (st a)}"
  using shiftright_spec(2) [of st d n a] shiftleft_spec(2) [of st d a n] assms by blast

theorem bitmask_shift_correct_witness:
  "bits (bitmask_shiftleft 0 0 30 (\<lambda>p. demo_mask 100 [3, 70, 99]) 0) = {33}"
proof -
  define m where "m = demo_mask 100 [3, 70, 99]"
  have "wf_bm m" and sz: "bm_size m = 100" and b: "bits m = {3, 70, 99}"
    unfolding m_def using demo_mask_spec [of 100 "[3, 70, 99]"] by simp_all
  then have "bits (bitmask_shiftleft 0 0 30 (\<lambda>p. m) 0) = {i. i < bm_size m \<and> 30 \<le> i \<and> i - 30 \<in> bits m}"
    using bitmask_shift_correct [of "\<lambda>p. m" 0 30 0] by (simp only: sz) simp
  also have "\<dots> = {33}"
  proof -
    have "i < 100 \<and> 30 \<le> i \<and> (i - 30 = 3 \<or> i - 30 = 70 \<or> i - 30 = 99) \<longleftrightarrow> i = 33" for i :: nat by presburger
    then show ?thesis unfolding sz b by simp
  qed
  finally show ?thesis unfolding m_def .
qed

text \<open>C38. The queries decide the set relations, the weight is the number of bits, and the first and the
  last bit are the least and the greatest one (the size for an empty mask).\<close>

theorem bitmask_queries_correct:
  "(bitmask_equal x y \<longleftrightarrow> bits x = bits y) \<and> (bitmask_subset x y \<longleftrightarrow> bits x \<subseteq> bits y)
   \<and> (bitmask_disjoint x y \<longleftrightarrow> bits x \<inter> bits y = {}) \<and> (bitmask_intersects x y \<longleftrightarrow> bits x \<inter> bits y \<noteq> {})
   \<and> (bitmask_isallset x \<longleftrightarrow> bits x = {..<bm_size x}) \<and> (bitmask_isallclear x \<longleftrightarrow> bits x = {})
   \<and> bitmask_weight x = card (bits x)
   \<and> bitmask_first x = (if bits x = {} then bm_size x else Min (bits x))
   \<and> bitmask_last x = (if bits x = {} then bm_size x else Max (bits x))"
  by (simp add: bitmask_equal_iff bitmask_subset_iff bitmask_disjoint_iff bitmask_intersects_iff
      bitmask_isallset_iff bitmask_isallclear_iff bitmask_weight_card bitmask_first_Min bitmask_last_Max)

text \<open>Relative and absolute positions are inverse to each other.\<close>

theorem bitmask_positions_inverse:
  "(\<forall>n \<in> bits bmp. bitmask_rel_to_abs_pos bmp (bitmask_abs_to_rel_pos bmp n) = n)
   \<and> (\<forall>k < bitmask_weight bmp. bitmask_rel_to_abs_pos bmp k \<in> bits bmp
        \<and> bitmask_abs_to_rel_pos bmp (bitmask_rel_to_abs_pos bmp k) = k)"
proof -
  have "bitmask_weight bmp = length (bit_list bmp)"
    using distinct_card [OF sorted_bit_list(2)] by (simp add: bitmask_weight_card)
  moreover have "k < length (bit_list bmp) \<Longrightarrow> bit_list bmp ! k \<in> bits bmp" for k
    using nth_mem [of k "bit_list bmp"] by simp
  ultimately show ?thesis by (simp add: rel_to_abs_eq abs_to_rel_eq rel_abs_inverse)
qed

theorem bitmask_positions_inverse_witness:
  "bitmask_rel_to_abs_pos (demo_mask 100 [3, 70, 99]) (bitmask_abs_to_rel_pos (demo_mask 100 [3, 70, 99]) 70) = 70"
  using bitmask_positions_inverse [of "demo_mask 100 [3, 70, 99]"] demo_mask_spec(3) [of 100 "[3, 70, 99]"] by simp



text \<open>C17. A comma-separated list of numbers, ranges and ranges with a positive stride is parsed into
  exactly the bits it lists.\<close>

theorem bitmask_parselist_correct:
  assumes "wf_bm bmp" and "\<forall>t \<in> set ts. term_ok (bm_size bmp) t" and "ts \<noteq> []"
  shows "\<exists>b. bitmask_parselist (list_text ts) bmp = Some (0, b) \<and> wf_bm b \<and> bm_size b = bm_size bmp
     \<and> bits b = (\<Union>t \<in> set ts. term_bits t)"
proof -
  obtain t us where ts: "ts = t # us" using assms(3) by (cases ts) auto
  from parselist_terms [of t us "bitmask_clearall bmp"] assms ts obtain b where
    "parselist_loop (token_list (Some (list_text ts))) (bitmask_clearall bmp) = Some (Inr b)" "wf_bm b"
    "bm_size b = bm_size bmp" "bits b = (\<Union>t \<in> set ts. term_bits t)"
    by (auto simp: bits_clearall)
  then show ?thesis by (simp add: bitmask_parselist_def)
qed

theorem bitmask_parselist_correct_witness:
  "\<exists>b. bitmask_parselist ''1,4-6,8-15:4'' (demo_mask 16 []) = Some (0, b) \<and> bits b = {1, 4, 5, 6, 8, 12}"
proof -
  have "\<exists>b. bitmask_parselist (list_text [One 1, Range 4 6, Stride 8 15 4]) (demo_mask 16 []) = Some (0, b) \<and> wf_bm b
      \<and> bm_size b = bm_size (demo_mask 16 []) \<and> bits b = (\<Union>t \<in> set [One 1, Range 4 6, Stride 8 15 4]. term_bits t)"
    by (rule bitmask_parselist_correct) (simp_all add: demo_mask_spec)
  moreover have "list_text [One 1, Range 4 6, Stride 8 15 4] = ''1,4-6,8-15:4''" by code_simp
  moreover have "(\<Union>t \<in> set [One 1, Range 4 6, Stride 8 15 4]. term_bits t) = {1, 4, 5, 6, 8, 12}"
  proof -
    have "i \<in> {8, 12}" if "8 \<le> i" "i \<le> 15" "4 dvd (i - 8)" for i :: nat
    proof -
      from that(3) obtain q where "i - 8 = 4 * q" by (elim dvdE)
      then have "i = 8 \<or> i = 12" using that(1,2) by presburger
      then show ?thesis by simp
    qed
    then show ?thesis by (auto simp: atLeastAtMost_def)
  qed
  ultimately show ?thesis by auto
qed

text \<open>C19. Parsing the displayed decimal list of a mask that has a bit set gives the same bits, if the
  buffer was large enough.\<close>

theorem bitmask_list_roundtrip:
  assumes "wf_bm m" and "wf_bm bmp" and "bm_size bmp = bm_size m" and "bits m \<noteq> {}" and "bm_size m \<le> 2 ^ 31"
    and "bitmask_displaylist buflen m = (Some t, len)" and "int len < buflen"
  shows "\<exists>b. bitmask_parselist t bmp = Some (0, b) \<and> wf_bm b \<and> bm_size b = bm_size m \<and> bits b = bits m"
proof -
  have "0 < buflen" using assms(7) by simp
  from displaylist_eq [OF this assms(5,4)] assms(6,7) obtain u us where
    t: "t = list_text (u # us)" "\<forall>v \<in> set (u # us). term_ok (bm_size m) v" "(\<Union>v \<in> set (u # us). term_bits v) = bits m"
    by auto
  from parselist_terms [of u us "bitmask_clearall bmp"] t(2) assms(2,3) obtain b where
    "parselist_loop (token_list (Some t)) (bitmask_clearall bmp) = Some (Inr b)" "wf_bm b"
    "bm_size b = bm_size m" "bits b = bits m"
    unfolding t(1) t(3) by (auto simp: bits_clearall)
  then show ?thesis by (simp add: bitmask_parselist_def)
qed

theorem bitmask_list_roundtrip_witness:
  "bitmask_displaylist 20 (demo_mask 16 [1, 4, 5, 6]) = (Some ''1,4-6'', 5)
   \<and> (\<exists>b. bitmask_parselist ''1,4-6'' (demo_mask 16 [9]) = Some (0, b) \<and> bits b = {1, 4, 5, 6})"
proof -
  have d: "bitmask_displaylist 20 (demo_mask 16 [1, 4, 5, 6]) = (Some ''1,4-6'', 5)" by code_simp
  have "\<exists>b. bitmask_parselist ''1,4-6'' (demo_mask 16 [9]) = Some (0, b) \<and> wf_bm b
      \<and> bm_size b = bm_size (demo_mask 16 [1, 4, 5, 6]) \<and> bits b = bits (demo_mask 16 [1, 4, 5, 6])"
    by (rule bitmask_list_roundtrip [OF _ _ _ _ _ d]) (simp_all add: demo_mask_spec)
  then show ?thesis using d demo_mask_spec(3) [of 16 "[1, 4, 5, 6]"] by auto
qed

text \<open>A range with stride 0 makes the parser loop forever.\<close>

theorem bitmask_parselist_stride_zero:
  assumes "wf_bm bmp" and "a \<le> b" and "b < bm_size bmp"
  shows "bitmask_parselist (dec a @ ''-'' @ dec b @ '':0'') bmp = None"
proof -
  have sz: "bm_size bmp < 2 ^ 32" using assms(1) by (simp add: wf_bm_def)
  let ?p = "dec a @ CHR ''-'' # dec b @ '':0''"
  have d0: "dec 0 = ''0''" by code_simp
  have "scan_u_c ?p = (2, a, CHR ''-'')" "scan_u_c (dec b @ '':0'') = (2, b, CHR '':'')" "scan_u_c ''0'' = (1, 0, NUL)"
    using scan_u_c_dec [of a "CHR ''-'' # dec b @ '':0''"] scan_u_c_dec [of b "'':0''"] scan_u_c_dec [of 0 "[]"] assms sz
    by (simp_all add: d0)
  then have "parse_term (bm_size bmp) ?p = Some (a, b, 0)"
    using assms by (simp add: parse_term_def nexttoken_dec scan_was_ok_def before_def)
  moreover have "token_list (Some ?p) = [(?p, None)]" by (simp add: nexttoken_dec)
  ultimately show ?thesis using assms sz by (simp add: bitmask_parselist_def stride_zero)
qed

theorem bitmask_parselist_stride_zero_witness: "bitmask_parselist ''0-7:0'' (demo_mask 16 []) = None"
proof -
  have "bitmask_parselist (dec 0 @ ''-'' @ dec 7 @ '':0'') (demo_mask 16 []) = None"
    by (rule bitmask_parselist_stride_zero) (simp_all add: demo_mask_spec)
  moreover have "dec 0 = ''0''" "dec 7 = ''7''" by code_simp+
  ultimately show ?thesis by simp
qed

text \<open>Text behind the last hexadecimal word is ignored, and the displayed text of a mask without bits is
  no list.\<close>

lemma parsehex_trailing_garbage: "fst (bitmask_parsehex ''00000021zz'' (demo_mask 32 [])) = 0"
  by code_simp

lemma parselist_empty: "bitmask_displaylist 20 (demo_mask 16 []) = (Some '''', 0)
   \<and> (case bitmask_parselist '''' (demo_mask 16 []) of Some (r, b) \<Rightarrow> r = - 1 | None \<Rightarrow> False)"
  by code_simp

end
