(* ===== verification/Random_Range.thy ===== *)
theory Random_Range
  imports C_Library "HOL-Library.Monad_Syntax"
begin

text \<open>
  \<^verbatim>\<open>lib/random_range.c\<close>: parsing lists of ranges \<^verbatim>\<open>min:max[:mult]\<close>, choosing a random multiple within a
  range, and choosing a random bit of a mask. The number that \<^verbatim>\<open>lrand48()\<close> returns is an argument
  (each function calls it at most once); POSIX promises that it is in \<open>0 .. 2 ^ 31 - 1\<close>. A signed overflow, a
  shift beyond the width of \<^verbatim>\<open>int\<close> and a loop that never ends are \<open>None\<close>.
\<close>

unbundle bit_operations_syntax

section \<open>Parsing lists of ranges\<close>

record range =
  r_min :: int
  r_max :: int
  r_mult :: int

datatype range_error =
    Parse_error cstr
  | Errmsg_overrun
  | Array_overrun
  | Undefined_number

text \<open>A parse function gets the string and the variable's present value; it returns its status and the value it
  leaves there. The default one is \<^verbatim>\<open>sscanf(str, "%i%c", ip, &c)\<close>, which is undefined for a number that does
  not fit.\<close>

type_synonym parse_func = "cstr \<Rightarrow> int \<Rightarrow> (int \<times> int) option"

definition str_to_int :: parse_func where
  "str_to_int str ip =
     (case scan_i str of
        None \<Rightarrow> Some (- 1, ip)
      | Some (v, rest) \<Rightarrow>
          (case i32 v of
             None \<Rightarrow> None
           | Some v \<Rightarrow> if rest = [] then Some (0, v) else Some (- 1, v)))"

text \<open>The three fields of a token: the second and third are null when their colon is missing.\<close>

definition split_token :: "cstr \<Rightarrow> cstr \<times> cstr option \<times> cstr option" where
  "split_token tok =
     (case strchr tok CHR '':'' of
        None \<Rightarrow> (tok, None, None)
      | Some cp \<Rightarrow>
          let n1str = take (length tok - length cp) tok; n2str = tl cp in
          (case strchr n2str CHR '':'' of
             None \<Rightarrow> (n1str, Some n2str, None)
           | Some cp2 \<Rightarrow> (n1str, Some (take (length n2str - length cp2) n2str), Some (tl cp2))))"

text \<open>\<^verbatim>\<open>sprintf(errmsg, ...)\<close> into the static array of 256 characters.\<close>

definition parse_error :: "cstr \<Rightarrow> range_error" where
  "parse_error s =
     (let msg = ''error parsing string '' @ s @ '' into an integer'' in
      if length msg < 256 then Parse_error msg else Errmsg_overrun)"

definition parse_field :: "parse_func \<Rightarrow> cstr \<Rightarrow> int \<Rightarrow> range_error + int" where
  "parse_field pf s v =
     (if s = [] then Inr v
      else case pf s v of
        None \<Rightarrow> Inl Undefined_number
      | Some (ret, v') \<Rightarrow> if ret < 0 then Inl (parse_error s) else Inr v')"

definition parse_token :: "parse_func \<Rightarrow> int \<Rightarrow> int \<Rightarrow> int \<Rightarrow> cstr \<Rightarrow> range_error + range" where
  "parse_token pf defmin defmax defmult tok =
     (let (n1str, n2str, multstr) = split_token tok in
      case parse_field pf n1str defmin of
        Inl e \<Rightarrow> Inl e
      | Inr mn \<Rightarrow>
          (case (case n2str of None \<Rightarrow> Inr mn | Some s \<Rightarrow> parse_field pf s defmax) of
             Inl e \<Rightarrow> Inl e
           | Inr mx \<Rightarrow>
               (case (case multstr of None \<Rightarrow> Inr defmult | Some s \<Rightarrow> parse_field pf s defmult) of
                  Inl e \<Rightarrow> Inl e
                | Inr mu \<Rightarrow> Inr \<lparr>r_min = mn, r_max = mx, r_mult = mu\<rparr>)))"

text \<open>The loop over the tokens. \<open>done\<close> is the part of the allocated array of \<open>nranges\<close> ranges that is filled.\<close>

fun parse_loop :: "nat \<Rightarrow> (cstr \<Rightarrow> range_error + range) \<Rightarrow> range list \<Rightarrow> cstr list \<Rightarrow> range_error + range list" where
  "parse_loop nranges f done [] = Inr done"
| "parse_loop nranges f done (tok # toks) =
     (if nranges \<le> length done then Inl Array_overrun
      else case f tok of Inl e \<Rightarrow> Inl e | Inr r \<Rightarrow> parse_loop nranges f (done @ [r]) toks)"

definition ncommas :: "cstr \<Rightarrow> nat" where
  "ncommas str = length (filter (\<lambda>c. c = CHR '','') str)"

text \<open>The returned number and the array, or why there is none (\<^verbatim>\<open>Parse_error\<close> stands for the return value \<open>-1\<close>
  with \<^verbatim>\<open>*errptr\<close> set).\<close>

definition parse_ranges ::
  "cstr \<Rightarrow> int \<Rightarrow> int \<Rightarrow> int \<Rightarrow> parse_func option \<Rightarrow> range_error + int \<times> range list" where
  "parse_ranges str defmin defmax defmult pf =
     (let parse_func = (case pf of None \<Rightarrow> str_to_int | Some f \<Rightarrow> f) in
      case parse_loop (ncommas str + 1) (parse_token parse_func defmin defmax defmult) [] (strtok str '','') of
        Inl e \<Rightarrow> Inl e
      | Inr ranges \<Rightarrow> Inr (int (length ranges), ranges))"

definition range_min :: "range list \<Rightarrow> nat \<Rightarrow> int option" where
  "range_min rbuf r = (if r < length rbuf then Some (r_min (rbuf ! r)) else None)"

definition range_max :: "range list \<Rightarrow> nat \<Rightarrow> int option" where
  "range_max rbuf r = (if r < length rbuf then Some (r_max (rbuf ! r)) else None)"

definition range_mult :: "range list \<Rightarrow> nat \<Rightarrow> int option" where
  "range_mult rbuf r = (if r < length rbuf then Some (r_mult (rbuf ! r)) else None)"

section \<open>Random numbers\<close>

text \<open>\<^verbatim>\<open>min += mult - r\<close> and \<^verbatim>\<open>max -= r\<close>, with the overflow check of the variables' width.\<close>

definition bump :: "(int \<Rightarrow> int option) \<Rightarrow> int \<Rightarrow> int \<Rightarrow> int option" where
  "bump fit mn mult =
     (let r = mn smod mult in
      if r \<noteq> 0 then do { d \<leftarrow> fit (mult - r); fit (mn + d) } else Some mn)"

definition reduce :: "(int \<Rightarrow> int option) \<Rightarrow> int \<Rightarrow> int \<Rightarrow> int option" where
  "reduce fit mx mult = (let r = mx smod mult in if r \<noteq> 0 then fit (mx - r) else Some mx)"

definition no_multiple :: "int \<Rightarrow> int \<Rightarrow> int \<Rightarrow> cstr" where
  "no_multiple orig_min orig_max orig_mult =
     ''no numbers in the range '' @ sdec orig_min @ '':'' @ sdec orig_max
     @ '' that are a multiple of '' @ sdec orig_mult"

text \<open>What the three functions have in common: the checks, and the number \<open>pick\<close> chooses given the adjusted
  bounds and the number of multiples between them. The result is the returned value and what \<^verbatim>\<open>*errp\<close> is
  set to.\<close>

definition random_select ::
  "(int \<Rightarrow> int option) \<Rightarrow> (int \<Rightarrow> int \<Rightarrow> int \<Rightarrow> int option) \<Rightarrow> int \<Rightarrow> int \<Rightarrow> int \<Rightarrow> (int \<times> cstr option) option" where
  "random_select fit pick mn mx mult =
     (if mult < 1 then Some (- 1, Some ''mult arg must be greater than 0'')
      else let (lo, hi) = (if mx < mn then (mx, mn) else (mn, mx)) in
        do {
          lo' \<leftarrow> bump fit lo mult;
          hi' \<leftarrow> reduce fit hi mult;
          if lo' > hi' then Some (- 1, Some (no_multiple mn mx mult))
          else do {
            d \<leftarrow> fit (hi' - lo');
            nmults \<leftarrow> fit (d sdiv mult + 1);
            v \<leftarrow> pick lo' hi' nmults;
            Some (v, None)
          }
        })"

text \<open>\<^verbatim>\<open>min + ((x % nmults) * mult)\<close> in 64 bits.\<close>

definition nth_multiple :: "int \<Rightarrow> int \<Rightarrow> int \<Rightarrow> int \<Rightarrow> int option" where
  "nth_multiple mn x nmults mult = do { p \<leftarrow> i64 ((x smod nmults) * mult); i64 (mn + p) }"

definition random_range :: "int \<Rightarrow> int \<Rightarrow> int \<Rightarrow> int \<Rightarrow> (int \<times> cstr option) option" where
  "random_range lrand mn mx mult = random_select i32 (\<lambda>lo hi nmults. nth_multiple lo lrand nmults mult) mn mx mult"

definition random_rangel :: "int \<Rightarrow> int \<Rightarrow> int \<Rightarrow> int \<Rightarrow> (int \<times> cstr option) option" where
  "random_rangel lrand mn mx mult = random_select i64 (\<lambda>lo hi nmults. nth_multiple lo lrand nmults mult) mn mx mult"

function divider :: "int \<Rightarrow> int \<Rightarrow> int \<Rightarrow> int \<Rightarrow> int \<Rightarrow> int option" where
  "divider lrand mn mx cnt rnd =
     (if cnt > 32 then Some (- 1)
      else let rnd = (if cnt = 0 \<or> rnd < - 1 then lrand else rnd) in
        do {
          diff \<leftarrow> i64 (mx - mn);
          if diff \<le> 2147483647 then i64 (mn + rnd)
          else do {
            let half = diff sdiv 2;
            med \<leftarrow> i64 (mn + half);
            bitc \<leftarrow> (if 0 \<le> cnt \<and> cnt < 31 then Some (rnd AND 2 ^ nat cnt \<noteq> 0) else None);
            if half \<le> 2147483647 then
              (if bitc then i64 (med + rnd) else i64 (mn + rnd))
            else if bitc then divider lrand med mx (cnt + 1) rnd
            else divider lrand mn med (cnt + 1) rnd
          }
        })"
  by pat_completeness auto
termination by (relation "measure (\<lambda>(lrand, mn, mx, cnt, rnd). nat (33 - cnt))") auto

declare divider.simps [simp del]

definition random_rangell :: "int \<Rightarrow> int \<Rightarrow> int \<Rightarrow> int \<Rightarrow> (int \<times> cstr option) option" where
  "random_rangell lrand mn mx mult =
     random_select i64
       (\<lambda>lo hi nmults.
          if hi \<le> 2147483647 then nth_multiple lo lrand nmults mult
          else do { randnum \<leftarrow> divider lrand lo hi 0 (- 1); nth_multiple lo randnum nmults mult })
       mn mx mult"

section \<open>Random bits\<close>

text \<open>\<^verbatim>\<open>long\<close> as a word of 64 bits; \<^verbatim>\<open>>>\<close> on it keeps the sign.\<close>

definition count_bits :: "64 word \<Rightarrow> int" where
  "count_bits m = fold (\<lambda>nshift nbits. if m AND push_bit nshift 1 \<noteq> 0 then nbits + 1 else nbits) [0..<64] 0"

partial_function (option) shift_loop :: "int \<Rightarrow> 64 word \<Rightarrow> nat \<Rightarrow> nat option" where
  "shift_loop b m nshift =
     (if b = 0 then Some nshift
      else shift_loop (if m AND 1 \<noteq> 0 then b - 1 else b) (signed_drop_bit 1 m) (nshift + 1))"

declare shift_loop.simps [code]

definition random_bit :: "int \<Rightarrow> 64 word \<Rightarrow> 64 word option" where
  "random_bit lrand m =
     (if m = 0 then Some 0
      else do {
        (b, errp) \<leftarrow> random_range lrand 1 (count_bits m) 1;
        nshift \<leftarrow> shift_loop b m 0;
        Some (push_bit (nshift - 1) 1)
      })"

section \<open>Correctness of the random numbers\<close>

lemma div_ge_0: "0 \<le> a \<Longrightarrow> 1 \<le> b \<Longrightarrow> 0 \<le> a div (b::int)"
  using pos_imp_zdiv_nonneg_iff [of b a] by linarith

text \<open>A width check that accepts everything from 0 to \<open>L\<close>.\<close>

definition fits :: "(int \<Rightarrow> int option) \<Rightarrow> int \<Rightarrow> bool" where
  "fits fit L = (\<forall>x. 0 \<le> x \<and> x \<le> L \<longrightarrow> fit x = Some x)"

lemma fitsD: "fits fit L \<Longrightarrow> 0 \<le> x \<Longrightarrow> x \<le> L \<Longrightarrow> fit x = Some x"
  by (simp add: fits_def)

lemma fits_i32: "fits i32 INT_MAX"
  by (simp add: fits_def i32_def INT_MIN_def)

lemma fits_i64: "fits i64 LLONG_MAX"
  by (simp add: fits_def i64_def LLONG_MIN_def)

lemma bump_ok:
  assumes "fits fit L" "0 \<le> mn" "1 \<le> mult" "mn + mult \<le> L"
  obtains lo where "bump fit mn mult = Some lo" "mn \<le> lo" "lo < mn + mult" "mult dvd lo"
proof (cases "mn mod mult = 0")
  case True
  then show ?thesis using that [of mn] assms by (auto simp: bump_def smod_nonneg Let_def)
next
  case False
  have r: "0 < mn mod mult" "mn mod mult < mult"
    using False assms(3) pos_mod_sign [of mult mn] pos_mod_bound [of mult mn] by linarith+
  have "mn + (mult - mn mod mult) = mult * (mn div mult + 1)"
    by (simp add: algebra_simps minus_mod_eq_mult_div [symmetric])
  then have d: "mult dvd mn + (mult - mn mod mult)" by simp
  have "fit (mult - mn mod mult) = Some (mult - mn mod mult)"
    "fit (mn + (mult - mn mod mult)) = Some (mn + (mult - mn mod mult))"
    using r assms(2-4) by (intro fitsD [OF assms(1)]; linarith)+
  then show ?thesis
    using that [of "mn + (mult - mn mod mult)"] r d False assms by (simp add: bump_def smod_nonneg Let_def)
qed

lemma reduce_ok:
  assumes "fits fit L" "0 \<le> mx" "1 \<le> mult" "mx \<le> L"
  obtains hi where "reduce fit mx mult = Some hi" "0 \<le> hi" "hi \<le> mx" "mx < hi + mult" "mult dvd hi"
proof -
  have r: "0 \<le> mx mod mult" "mx mod mult < mult" "mx mod mult \<le> mx"
    using assms by (simp_all add: zmod_le_nonneg_dividend)
  moreover have "fit (mx - mx mod mult) = Some (mx - mx mod mult)"
    using r(1,3) assms(2,4) by (intro fitsD [OF assms(1)]) linarith+
  ultimately have "reduce fit mx mult = Some (mx - mx mod mult)"
    using assms by (simp add: reduce_def smod_nonneg Let_def)
  then show ?thesis using that r by (simp add: dvd_minus_mod)
qed

lemma multiple_bounds:
  fixes lo hi mn mx mult x :: int
  assumes "1 \<le> mult" "mn \<le> lo" "lo < mn + mult" "mult dvd lo" "hi \<le> mx" "mx < hi + mult" "mult dvd hi"
    and "mult dvd x"
  shows "mn \<le> x \<and> x \<le> mx \<longleftrightarrow> lo \<le> x \<and> x \<le> hi"
proof -
  have "lo \<le> x" if "mn \<le> x"
  proof (rule ccontr)
    assume "\<not> lo \<le> x"
    then have "0 < lo - x" "lo - x < mult" "mult dvd lo - x" using that assms by auto
    then show False using zdvd_imp_le [of mult "lo - x"] by simp
  qed
  moreover have "x \<le> hi" if "x \<le> mx"
  proof (rule ccontr)
    assume "\<not> x \<le> hi"
    then have "0 < x - hi" "x - hi < mult" "mult dvd x - hi" using that assms by auto
    then show False using zdvd_imp_le [of mult "x - hi"] by simp
  qed
  ultimately show ?thesis using assms(2,5) by linarith
qed

text \<open>The shared part: the bounds become the least and greatest multiple within the range.\<close>

lemma random_select_ok:
  assumes "fits fit L" "0 \<le> m" "1 \<le> mult" "M + mult \<le> L"
    and "(if b < a then (b, a) else (a, b)) = (m, M)"
  obtains lo hi where "\<And>x. mult dvd x \<Longrightarrow> m \<le> x \<and> x \<le> M \<longleftrightarrow> lo \<le> x \<and> x \<le> hi"
    "mult dvd lo" "mult dvd hi" "m \<le> lo" "hi \<le> M"
    "\<And>pick. random_select fit pick a b mult =
       (if lo \<le> hi then map_option (\<lambda>v. (v, None)) (pick lo hi ((hi - lo) div mult + 1))
        else Some (- 1, Some (no_multiple a b mult)))"
proof -
  have M: "m \<le> M" "0 \<le> M" using assms(2,5) by (auto split: if_splits)
  obtain lo where lo: "bump fit m mult = Some lo" "m \<le> lo" "lo < m + mult" "mult dvd lo"
    by (rule bump_ok [OF assms(1,2,3)]) (use assms(4) M in linarith)+
  obtain hi where hi: "reduce fit (M) mult = Some hi" "0 \<le> hi" "hi \<le> M" "M < hi + mult" "mult dvd hi"
    by (rule reduce_ok [OF assms(1) _ assms(3), of "M"]) (use assms(3,4) M in linarith)+
  have n: "fit (hi - lo) = Some (hi - lo)"
    "fit ((hi - lo) sdiv mult + 1) = Some ((hi - lo) div mult + 1)" if "lo \<le> hi"
  proof -
    have "(hi - lo) div mult \<le> hi - lo" using that assms(3) zdiv_mono2 [of "hi - lo" 1 mult] by simp
    moreover have "0 \<le> (hi - lo) div mult" using that assms(3) by (intro div_ge_0) auto
    ultimately show "fit (hi - lo) = Some (hi - lo)"
      "fit ((hi - lo) sdiv mult + 1) = Some ((hi - lo) div mult + 1)"
      using that lo(2) hi(3) assms(2,3,4) M by (simp_all add: sdiv_nonneg fitsD [OF assms(1)])
  qed
  have "random_select fit pick a b mult =
       (if lo \<le> hi then map_option (\<lambda>v. (v, None)) (pick lo hi ((hi - lo) div mult + 1))
        else Some (- 1, Some (no_multiple a b mult)))" for pick
    unfolding random_select_def assms(5) using assms(3) lo(1) hi(1) n
    by (auto simp: Let_def map_conv_bind_option comp_def split: option.splits)
  then show thesis
    using multiple_bounds [OF assms(3) lo(2-4) hi(3-5)] by (intro that [of lo hi] lo hi)
qed

lemma nth_multiple_ok:
  assumes "0 \<le> x" "0 \<le> lo" "lo \<le> hi" "hi \<le> LLONG_MAX" "1 \<le> mult" "mult dvd lo" "mult dvd hi"
  obtains y where "nth_multiple lo x ((hi - lo) div mult + 1) mult = Some y" "lo \<le> y" "y \<le> hi" "mult dvd y"
proof -
  define n where "n = (hi - lo) div mult"
  have n0: "0 \<le> n" unfolding n_def using assms(3,5) by (intro div_ge_0) auto
  have nm: "n * mult = hi - lo" unfolding n_def using assms(6,7) by (intro dvd_div_mult_self dvd_diff)
  define k where "k = x mod (n + 1)"
  have k: "0 \<le> k" "k \<le> n" using n0 pos_mod_bound [of "n + 1" x] by (auto simp: k_def)
  have b: "0 \<le> k * mult" "k * mult \<le> hi - lo" using k assms(5) nm mult_right_mono [of k n mult] by auto
  have "nth_multiple lo x (n + 1) mult = Some (lo + k * mult)"
    using n0 b assms fitsD [OF fits_i64] by (simp add: nth_multiple_def smod_nonneg k_def)
  then show thesis using that [of "lo + k * mult"] b assms by (simp add: n_def)
qed

lemma nth_multiple_ex:
  assumes "0 \<le> x" "0 \<le> lo" "lo \<le> hi" "hi \<le> LLONG_MAX" "1 \<le> mult" "mult dvd lo" "mult dvd hi"
  shows "\<exists>y. nth_multiple lo x ((hi - lo) div mult + 1) mult = Some y \<and> lo \<le> y \<and> y \<le> hi \<and> mult dvd y"
  by (rule nth_multiple_ok [OF assms]) blast

lemma nth_multiple_reach:
  assumes "lo \<le> y" "y \<le> hi" "0 \<le> lo" "hi \<le> LLONG_MAX" "1 \<le> mult" "mult dvd lo" "mult dvd y"
  shows "nth_multiple lo ((y - lo) div mult) ((hi - lo) div mult + 1) mult = Some y"
proof -
  have 0: "0 \<le> (y - lo) div mult" using assms(1,5) by (intro div_ge_0) auto
  have le: "(y - lo) div mult \<le> (hi - lo) div mult" using assms by (intro zdiv_mono1) auto
  have "(y - lo) div mult * mult = y - lo" using assms(6,7) by (intro dvd_div_mult_self dvd_diff)
  moreover have "((y - lo) div mult) smod ((hi - lo) div mult + 1) = (y - lo) div mult"
    using 0 le by (simp add: smod_nonneg)
  ultimately show ?thesis using assms fitsD [OF fits_i64] by (simp add: nth_multiple_def)
qed

lemma half_ceil: "0 \<le> (d::int) \<Longrightarrow> d div 2 \<le> d - d div 2 \<and> 2 * (d - d div 2) \<le> d + 1"
  by presburger

text \<open>Halving at most 30 times brings the distance below \<open>2 ^ 32\<close>: neither the run-away guard nor a shift beyond
  the width of \<^verbatim>\<open>int\<close> is reached.\<close>

lemma divider_ok:
  assumes "mn \<le> mx" "0 \<le> R" "R < 2 ^ 31" "0 \<le> cnt" "cnt \<le> 30" "cnt = 0 \<or> r = R"
    and "(mx - mn - 1) * 2 ^ nat cnt < 2 ^ 62 - 2 ^ 30" "0 \<le> mn" "mx + 2 ^ 31 \<le> LLONG_MAX"
  shows "\<exists>y. divider R mn mx cnt r = Some y \<and> mn \<le> y"
  using assms
proof (induction "nat (30 - cnt)" arbitrary: mn mx cnt r rule: less_induct)
  case less
  define d where "d = mx - mn"
  define h where "h = d div 2"
  have d: "0 \<le> d" "(d - 1) * 2 ^ nat cnt < 2 ^ 62 - 2 ^ 30" "mn + d = mx" using less.prems by (auto simp: d_def)
  have h: "0 \<le> h" "h \<le> d - h" "2 * (d - h) \<le> d + 1" using half_ceil [OF d(1)] d(1) by (auto simp: h_def)
  have R: "(if cnt = 0 \<or> r < - 1 then R else r) = R" using less.prems by auto
  have fit: "i64 (mx - mn) = Some d" "i64 (mn + h) = Some (mn + h)" "i64 (mn + R) = Some (mn + R)"
    "i64 (mn + h + R) = Some (mn + h + R)"
    using less.prems d h unfolding d_def [symmetric] by (intro fitsD [OF fits_i64]; linarith)+
  have last: "h \<le> 2147483647" if "cnt = 30"
    using d(2) that by (simp add: h_def)
  show ?case
  proof (cases "h \<le> 2147483647")
    case True
    then show ?thesis using less.prems h fit d
      by (subst divider.simps) (auto simp: R sdiv_nonneg h_def [symmetric] Let_def)
  next
    case False
    then have c: "cnt < 30" using last less.prems(5) by fastforce
    have e: "divider R mn mx cnt r =
       (if R AND 2 ^ nat cnt \<noteq> 0 then divider R (mn + h) mx (cnt + 1) R else divider R mn (mn + h) (cnt + 1) R)"
      using False c less.prems(4) h fit d by (subst divider.simps) (simp add: R sdiv_nonneg h_def [symmetric] Let_def)
    have p: "(x - 1) * 2 ^ nat (cnt + 1) < 2 ^ 62 - 2 ^ 30" if "2 * x \<le> d + 1" for x
    proof -
      have "2 * (x - 1) * 2 ^ nat cnt \<le> (d - 1) * 2 ^ nat cnt"
        using that by (intro mult_right_mono) auto
      then show ?thesis using d(2) less.prems(4) by (simp add: nat_add_distrib algebra_simps)
    qed
    have "\<exists>y. divider R (mn + h) mx (cnt + 1) R = Some y \<and> mn + h \<le> y"
      using less.prems c h d p [of "d - h"] by (intro less.hyps) (auto simp: algebra_simps)
    moreover have "\<exists>y. divider R mn (mn + h) (cnt + 1) R = Some y \<and> mn \<le> y"
      using less.prems c h d p [of h] by (intro less.hyps) auto
    ultimately show ?thesis using e h(1) by fastforce
  qed
qed

text \<open>The contract of the three functions for bounds that are not negative: a multiple within the bounds, or the
  error when there is none.\<close>

definition has_multiple :: "int \<Rightarrow> int \<Rightarrow> int \<Rightarrow> bool" where
  "has_multiple a b mult = (\<exists>x. min a b \<le> x \<and> x \<le> max a b \<and> mult dvd x)"

locale range_chooser =
  fixes select :: "int \<Rightarrow> int \<Rightarrow> int \<Rightarrow> int \<Rightarrow> (int \<times> cstr option) option"
    and limit :: int
  assumes multiple: "0 \<le> rnd \<Longrightarrow> rnd < 2 ^ 31 \<Longrightarrow> 0 \<le> min a b \<Longrightarrow> 1 \<le> mult \<Longrightarrow> max a b + mult \<le> limit
      \<Longrightarrow> has_multiple a b mult
      \<Longrightarrow> \<exists>x. select rnd a b mult = Some (x, None) \<and> min a b \<le> x \<and> x \<le> max a b \<and> mult dvd x"
    and no_choice: "0 \<le> min a b \<Longrightarrow> 1 \<le> mult \<Longrightarrow> max a b + mult \<le> limit \<Longrightarrow> \<not> has_multiple a b mult
      \<Longrightarrow> select rnd a b mult = Some (- 1, Some (no_multiple a b mult))"
begin

lemma defined:
  assumes "0 \<le> rnd" "rnd < 2 ^ 31" "0 \<le> min a b" "1 \<le> mult" "max a b + mult \<le> limit"
  obtains x err where "select rnd a b mult = Some (x, err)"
    "err = None \<longleftrightarrow> has_multiple a b mult" "err = None \<Longrightarrow> min a b \<le> x \<and> x \<le> max a b \<and> mult dvd x"
proof (cases "has_multiple a b mult")
  case True
  then obtain x where x: "select rnd a b mult = Some (x, None)" "min a b \<le> x \<and> x \<le> max a b \<and> mult dvd x"
    using multiple [OF assms] by blast
  then show thesis by (intro that [of x None]) (simp_all add: True)
next
  case False
  show thesis by (rule that [of "- 1" "Some (no_multiple a b mult)"]) (simp_all add: False no_choice [OF assms(3-5) False])
qed

text \<open>With \<^verbatim>\<open>mult\<close> 1 there is always a number to choose, as the comment in the source says.\<close>

lemma any:
  assumes "0 \<le> rnd" "rnd < 2 ^ 31" "0 \<le> a" "a \<le> b" "b < limit"
  obtains x where "select rnd a b 1 = Some (x, None)" "a \<le> x" "x \<le> b"
proof -
  have "has_multiple a b 1" using assms(4) by (auto simp: has_multiple_def min_def max_def)
  then show thesis using multiple [of rnd a b 1] assms that by (auto simp: min_def max_def split: if_splits)
qed

end

lemma select_chooser:
  assumes "fits fit L"
    and "\<And>rnd lo hi mult. 0 \<le> rnd \<Longrightarrow> rnd < 2 ^ 31 \<Longrightarrow> 0 \<le> lo \<Longrightarrow> lo \<le> hi \<Longrightarrow> hi \<le> L \<Longrightarrow> 1 \<le> mult \<Longrightarrow> mult dvd lo
      \<Longrightarrow> mult dvd hi \<Longrightarrow> \<exists>y. pick rnd mult lo hi ((hi - lo) div mult + 1) = Some y \<and> lo \<le> y \<and> y \<le> hi \<and> mult dvd y"
  shows "range_chooser (\<lambda>rnd a b mult. random_select fit (pick rnd mult) a b mult) L"
proof
  fix rnd a b mult :: int
  assume a: "0 \<le> min a b" "1 \<le> mult" "max a b + mult \<le> L"
  have s: "(if b < a then (b, a) else (a, b)) = (min a b, max a b)" by simp
  obtain lo hi where lh: "\<And>x. mult dvd x \<Longrightarrow> min a b \<le> x \<and> x \<le> max a b \<longleftrightarrow> lo \<le> x \<and> x \<le> hi"
    "mult dvd lo" "mult dvd hi" "min a b \<le> lo" "hi \<le> max a b"
    "random_select fit (pick rnd mult) a b mult =
       (if lo \<le> hi then map_option (\<lambda>v. (v, None)) (pick rnd mult lo hi ((hi - lo) div mult + 1))
        else Some (- 1, Some (no_multiple a b mult)))"
    by (rule random_select_ok [OF assms(1) a s]) (simp only:)
  have m: "has_multiple a b mult \<longleftrightarrow> lo \<le> hi"
    unfolding has_multiple_def using lh(1) [of lo] lh(1,2) by (meson order_refl order_trans)
  show "\<exists>x. random_select fit (pick rnd mult) a b mult = Some (x, None) \<and> min a b \<le> x \<and> x \<le> max a b \<and> mult dvd x"
    if r: "0 \<le> rnd" "rnd < 2 ^ 31" "has_multiple a b mult"
  proof -
    have le: "lo \<le> hi" "0 \<le> lo" "hi \<le> L" using r(3) m a lh(4,5) by linarith+
    obtain y where "pick rnd mult lo hi ((hi - lo) div mult + 1) = Some y" "lo \<le> y" "y \<le> hi" "mult dvd y"
      using assms(2) [OF r(1,2) le(2,1,3) a(2) lh(2,3)] by blast
    then show ?thesis using lh(1) [of y] lh(6) le(1) by simp
  qed
  show "random_select fit (pick rnd mult) a b mult = Some (- 1, Some (no_multiple a b mult))" if "\<not> has_multiple a b mult"
    using that m lh(6) by simp
qed

interpretation ir: range_chooser random_range INT_MAX
  unfolding random_range_def
  by (rule select_chooser [OF fits_i32, of "\<lambda>rnd mult lo hi n. nth_multiple lo rnd n mult"])
     (auto intro!: nth_multiple_ex simp: INT_MAX_def LLONG_MAX_def simp del: div_diff)

interpretation lr: range_chooser random_rangel LLONG_MAX
  unfolding random_rangel_def
  by (rule select_chooser [OF fits_i64, of "\<lambda>rnd mult lo hi n. nth_multiple lo rnd n mult"])
     (auto intro!: nth_multiple_ex simp del: div_diff)

text \<open>For \<^verbatim>\<open>random_rangell\<close> the bounds stay away from the end of the type, where the sums of \<^verbatim>\<open>divider\<close> overflow.\<close>

interpretation llr: range_chooser random_rangell "2 ^ 62 - 2 ^ 30"
  unfolding random_rangell_def
proof (rule select_chooser [where pick = "\<lambda>rnd mult lo hi n. if hi \<le> 2147483647 then nth_multiple lo rnd n mult
          else do { randnum \<leftarrow> divider rnd lo hi 0 (- 1); nth_multiple lo randnum n mult }"])
  show "fits i64 (2 ^ 62 - 2 ^ 30)" by (simp add: fits_def i64_def LLONG_MIN_def LLONG_MAX_def)
  fix rnd lo hi mult :: int
  assume a: "0 \<le> rnd" "rnd < 2 ^ 31" "0 \<le> lo" "lo \<le> hi" "hi \<le> 2 ^ 62 - 2 ^ 30" "1 \<le> mult" "mult dvd lo" "mult dvd hi"
  have big: "hi \<le> LLONG_MAX" using a(5) by (simp add: LLONG_MAX_def)
  have "\<exists>x. divider rnd lo hi 0 (- 1) = Some x \<and> lo \<le> x"
    using a by (intro divider_ok) (auto simp: LLONG_MAX_def)
  then obtain x where x: "divider rnd lo hi 0 (- 1) = Some x" "0 \<le> x" using a(3) by auto
  have r: "\<exists>y. nth_multiple lo x ((hi - lo) div mult + 1) mult = Some y \<and> lo \<le> y \<and> y \<le> hi \<and> mult dvd y"
    if "0 \<le> x" for x
    by (rule nth_multiple_ex [OF that a(3,4) big a(6-8)])
  show "\<exists>y. (if hi \<le> 2147483647 then nth_multiple lo rnd ((hi - lo) div mult + 1) mult
      else do { randnum \<leftarrow> divider rnd lo hi 0 (- 1); nth_multiple lo randnum ((hi - lo) div mult + 1) mult }) = Some y
      \<and> lo \<le> y \<and> y \<le> hi \<and> mult dvd y"
    using r [OF a(1)] r [OF x(2)] x(1) by simp
qed

section \<open>Correctness of the random bits\<close>

abbreviation ones_below :: "64 word \<Rightarrow> nat \<Rightarrow> nat" where
  "ones_below m k \<equiv> length (filter (bit m) [0..<k])"

lemma filter_upt_Suc: "filter P [0..<Suc k] = (if P 0 then [0] else []) @ map Suc (filter (\<lambda>i. P (Suc i)) [0..<k])"
proof -
  have "[0..<Suc k] = 0 # map Suc [0..<k]" by (simp only: map_Suc_upt upt_conv_Cons zero_less_Suc)
  then show ?thesis by (simp only: filter.simps filter_map comp_def) simp
qed

lemma count_bits_eq: "count_bits m = int (ones_below m 64)"
proof -
  have "fold (\<lambda>nshift nbits. if m AND push_bit nshift 1 \<noteq> 0 then nbits + 1 else nbits) xs a
      = a + int (length (filter (bit m) xs))" for xs a
    by (induction xs arbitrary: a) (auto simp: bit_iff_and_push_bit_not_eq_0)
  then show ?thesis by (simp add: count_bits_def)
qed

lemma bit_sshift: "i < 63 \<Longrightarrow> bit (signed_drop_bit (Suc 0) m) i = bit m (Suc i)" for m :: "64 word"
  by (simp add: bit_signed_drop_bit_iff)

text \<open>The loop stops behind the \<open>b\<close>-th set bit.\<close>

lemma shift_loop_finds:
  assumes "1 \<le> b" "b \<le> int (ones_below m k)" "k \<le> 64"
  shows "\<exists>j<k. bit m j \<and> int (ones_below m j) = b - 1 \<and> shift_loop b m n = Some (n + j + 1)"
  using assms
proof (induction k arbitrary: b m n)
  case (Suc k)
  define m' where "m' = signed_drop_bit 1 m"
  have f: "filter (\<lambda>i. bit m (Suc i)) [0..<j] = filter (bit m') [0..<j]" if "j \<le> k" for j
    using that Suc.prems(3) by (intro filter_cong) (auto simp: m'_def bit_sshift)
  have cnt: "ones_below m (Suc j) = of_bool (bit m 0) + ones_below m' j" if "j \<le> k" for j
    by (simp only: filter_upt_Suc f [OF that]) simp
  have one: "m AND 1 \<noteq> 0 \<longleftrightarrow> bit m 0" by (simp add: bit_0 and_one_eq odd_iff_mod_2_eq_one)
  show ?case
  proof (cases "bit m 0 \<and> b = 1")
    case True
    then show ?thesis
      by (intro exI [of _ 0]) (use True in \<open>simp add: shift_loop.simps [of 1] shift_loop.simps [of 0] one bit_0\<close>)
  next
    case False
    define b' where "b' = (if bit m 0 then b - 1 else b)"
    have b': "1 \<le> b'" "b' \<le> int (ones_below m' k)" "k \<le> 64"
      using False Suc.prems cnt [of k] by (auto simp: b'_def)
    obtain j where j: "j < k" "bit m' j" "int (ones_below m' j) = b' - 1" "shift_loop b' m' (n + 1) = Some (n + 1 + j + 1)"
      using Suc.IH [OF b', of "n + 1"] by blast
    have "shift_loop b m n = shift_loop b' m' (n + 1)"
      using Suc.prems(1) by (subst shift_loop.simps) (simp add: one b'_def m'_def)
    moreover have "bit m (Suc j)" using j(1,2) Suc.prems(3) by (simp add: m'_def bit_sshift)
    moreover have "int (ones_below m (Suc j)) = b - 1" using cnt [of j] j(1,3) by (auto simp: b'_def)
    ultimately show ?thesis using j by (intro exI [of _ "Suc j"]) simp
  qed
qed simp

lemma random_range_ones:
  assumes "0 \<le> rnd" "1 \<le> n" "n < INT_MAX"
  shows "random_range rnd 1 n 1 = Some (1 + rnd mod n, None)"
proof -
  have m: "rnd mod n < n" "0 \<le> rnd mod n" using assms(2) by (auto intro: pos_mod_bound pos_mod_sign)
  have "i64 (rnd mod n) = Some (rnd mod n)" "i64 (1 + rnd mod n) = Some (1 + rnd mod n)"
    "i32 (n - 1) = Some (n - 1)" "i32 n = Some n"
    unfolding i64_Some i32_Some LLONG_MIN_def LLONG_MAX_def INT_MIN_def INT_MAX_def
    using assms m unfolding INT_MAX_def by auto
  then show ?thesis
    using assms by (simp add: random_range_def random_select_def bump_def reduce_def nth_multiple_def smod_nonneg Let_def)
qed

lemma ones_positive:
  assumes "m \<noteq> 0"
  shows "1 \<le> ones_below m 64"
proof -
  obtain j where "bit m j" using assms by (auto simp: bit_eq_iff)
  then have "j \<in> set (filter (bit m) [0..<64])" using bit_imp_le_length [of m j] by simp
  then show ?thesis by (cases "filter (bit m) [0..<64]") auto
qed

lemma ones_le: "ones_below m k \<le> k"
  using length_filter_le [of "bit m" "[0..<k]"] by simp

lemma random_range_reach:
  assumes "0 \<le> min a b" "1 \<le> mult" "max a b + mult \<le> INT_MAX" "min a b \<le> y" "y \<le> max a b" "mult dvd y"
  shows "\<exists>r. 0 \<le> r \<and> r < 2 ^ 31 \<and> random_range r a b mult = Some (y, None)"
proof -
  have s: "(if b < a then (b, a) else (a, b)) = (min a b, max a b)" by simp
  obtain lo hi where lh: "\<And>x. mult dvd x \<Longrightarrow> min a b \<le> x \<and> x \<le> max a b \<longleftrightarrow> lo \<le> x \<and> x \<le> hi"
    "mult dvd lo" "mult dvd hi" "min a b \<le> lo" "hi \<le> max a b"
    "\<And>pick. random_select i32 pick a b mult =
       (if lo \<le> hi then map_option (\<lambda>v. (v, None)) (pick lo hi ((hi - lo) div mult + 1))
        else Some (- 1, Some (no_multiple a b mult)))"
    by (rule random_select_ok [OF fits_i32 assms(1-3) s]) (simp only:)
  have y: "lo \<le> y" "y \<le> hi" using lh(1) [OF assms(6)] assms(4,5) by auto
  have lim: "0 \<le> lo" "hi \<le> LLONG_MAX" "y - lo < 2 ^ 31"
    using lh(4,5) y assms(1,2,3) by (auto simp: LLONG_MAX_def INT_MAX_def)
  have "(y - lo) div mult \<le> y - lo" using y(1) assms(2) zdiv_mono2 [of "y - lo" 1 mult] by simp
  moreover have "0 \<le> (y - lo) div mult" using y(1) assms(2) by (intro div_ge_0) auto
  moreover have "random_range ((y - lo) div mult) a b mult = Some (y, None)"
    using lh(6) nth_multiple_reach [OF y lim(1,2) assms(2) lh(2) assms(6)] y
    by (simp add: random_range_def)
  ultimately show ?thesis using lim(3) by (intro exI [of _ "(y - lo) div mult"]) linarith
qed

section \<open>Correctness of the range parser\<close>

text \<open>The documented forms of a range, with the fields that may be left blank.\<close>

datatype range_spec = Num int | Span "int option" "int option" "int option option"

fun field_text :: "int option \<Rightarrow> cstr" where
  "field_text None = []"
| "field_text (Some i) = sdec i"

fun spec_text :: "range_spec \<Rightarrow> cstr" where
  "spec_text (Num i) = sdec i"
| "spec_text (Span a b None) = field_text a @ '':'' @ field_text b"
| "spec_text (Span a b (Some c)) = field_text a @ '':'' @ field_text b @ '':'' @ field_text c"

definition or_default :: "int option \<Rightarrow> int \<Rightarrow> int" where
  "or_default f d = (case f of None \<Rightarrow> d | Some i \<Rightarrow> i)"

fun spec_range :: "int \<Rightarrow> int \<Rightarrow> int \<Rightarrow> range_spec \<Rightarrow> range" where
  "spec_range dmin dmax dmult (Num i) = \<lparr>r_min = i, r_max = i, r_mult = dmult\<rparr>"
| "spec_range dmin dmax dmult (Span a b c) =
     \<lparr>r_min = or_default a dmin, r_max = or_default b dmax,
      r_mult = (case c of None \<Rightarrow> dmult | Some m \<Rightarrow> or_default m dmult)\<rparr>"

fun field_ok :: "int option \<Rightarrow> bool" where
  "field_ok None = True"
| "field_ok (Some i) = (i32 i \<noteq> None)"

fun spec_ok :: "range_spec \<Rightarrow> bool" where
  "spec_ok (Num i) = (i32 i \<noteq> None)"
| "spec_ok (Span a b c) =
     (field_ok a \<and> field_ok b \<and> (case c of None \<Rightarrow> True | Some m \<Rightarrow> field_ok m))"

fun comma_join :: "cstr list \<Rightarrow> cstr" where
  "comma_join [] = []"
| "comma_join [t] = t"
| "comma_join (t # ts) = t @ '','' @ comma_join ts"

lemma field_chars: "c \<in> set (field_text f) \<Longrightarrow> isdigit c \<or> c = CHR ''-''"
  by (cases f) (auto dest: sdec_chars)

lemma field_no_sep: "CHR '':'' \<notin> set (field_text f)" "CHR '','' \<notin> set (field_text f)"
  using field_chars [of "CHR '':''" f] field_chars [of "CHR '',''" f] by (auto simp: isdigit_def)

lemma strchr_notin: "c \<notin> set s \<Longrightarrow> strchr s c = None"
  by (induction s) auto

lemma strchr_at: "c \<notin> set s \<Longrightarrow> strchr (s @ c # r) c = Some (c # r)"
  by (induction s) auto

lemma str_to_int_sdec: "i32 i \<noteq> None \<Longrightarrow> str_to_int (sdec i) v = Some (0, i)"
  using scan_i_sdec [of "[]" i] by (auto simp: str_to_int_def i32_def split: if_splits)

lemma parse_field_text:
  "field_ok f \<Longrightarrow> parse_field str_to_int (field_text f) d = Inr (or_default f d)"
  by (cases f) (simp_all add: parse_field_def or_default_def str_to_int_sdec)

lemma split_Num: "split_token (sdec i) = (sdec i, None, None)"
  using field_no_sep(1) [of "Some i"] by (simp add: split_token_def strchr_notin)

lemma split_Span:
  "split_token (field_text a @ CHR '':'' # field_text b) = (field_text a, Some (field_text b), None)"
  "split_token (field_text a @ CHR '':'' # field_text b @ CHR '':'' # field_text c)
   = (field_text a, Some (field_text b), Some (field_text c))"
  by (simp_all add: split_token_def strchr_at strchr_notin field_no_sep Let_def)

lemma parse_token_spec:
  assumes "spec_ok s"
  shows "parse_token str_to_int dmin dmax dmult (spec_text s) = Inr (spec_range dmin dmax dmult s)"
proof (cases s)
  case (Num i)
  then show ?thesis using assms parse_field_text [of "Some i" dmin]
    by (simp add: parse_token_def split_Num or_default_def)
next
  case (Span a b c)
  have "parse_field str_to_int (field_text a) dmin = Inr (or_default a dmin)"
    "parse_field str_to_int (field_text b) dmax = Inr (or_default b dmax)"
    using assms Span by (simp_all add: parse_field_text)
  moreover have "parse_field str_to_int (field_text m) dmult = Inr (or_default m dmult)" if "c = Some m" for m
    using assms Span that by (simp add: parse_field_text)
  ultimately show ?thesis using Span by (cases c) (simp_all add: parse_token_def split_Span)
qed

lemma spec_text_token: "spec_text s \<noteq> []" "\<forall>c \<in> set (spec_text s). c \<noteq> CHR '',''"
  by (cases s rule: spec_text.cases; use field_no_sep(2) in \<open>fastforce dest: sdec_chars simp: isdigit_def\<close>)+

lemma strtok_join: "strtok (comma_join (map spec_text specs)) '','' = map spec_text specs"
proof (induction specs rule: induct_list012)
  case 1
  show ?case by (simp add: strtok.simps)
next
  case (2 s)
  show ?case using spec_text_token [of s] by (simp add: strtok_last)
next
  case (3 s t ss)
  then show ?case using strtok_Cons [of "spec_text s" "'',''" "CHR '',''"] spec_text_token [of s] by simp
qed

lemma parse_loop_specs:
  assumes "list_all spec_ok specs" "length acc + length specs \<le> n"
  shows "parse_loop n (parse_token str_to_int dmin dmax dmult) acc (map spec_text specs)
    = Inr (acc @ map (spec_range dmin dmax dmult) specs)"
  using assms by (induction specs arbitrary: acc) (auto simp: parse_token_spec)

lemma parse_loop_bound:
  assumes "length acc + length toks \<le> n" "\<And>t. f t \<noteq> Inl Array_overrun"
  shows "parse_loop n f acc toks \<noteq> Inl Array_overrun"
    and "parse_loop n f acc toks = Inr rs \<Longrightarrow> length rs = length acc + length toks"
  using assms by (induction toks arbitrary: acc) (auto split: sum.splits)

lemma parse_token_no_overrun: "parse_token pf a b c t \<noteq> Inl Array_overrun"
  by (auto simp: parse_token_def parse_field_def parse_error_def Let_def split: sum.splits option.splits if_splits prod.splits)

lemma ncommas_tokens: "length (strtok str '','') \<le> ncommas str + 1"
  using strtok_length [of str "'',''"] by (simp add: ncommas_def)

section \<open>Properties\<close>

text \<open>C20. \<^verbatim>\<open>parse_ranges\<close> reads the documented syntax: for a comma-separated list of ranges in any of the
  forms \<^verbatim>\<open>num\<close>, \<^verbatim>\<open>min:max\<close> and \<^verbatim>\<open>min:max:mult\<close>, with any field left blank, it returns the number of ranges
  and an array that holds the written values, the defaults in place of the blank fields, and \<^verbatim>\<open>max = min\<close> for a
  single number.\<close>

theorem parse_ranges_correct:
  assumes "list_all spec_ok specs"
  shows "parse_ranges (comma_join (map spec_text specs)) defmin defmax defmult None
    = Inr (int (length specs), map (spec_range defmin defmax defmult) specs)"
proof -
  have "length specs \<le> ncommas (comma_join (map spec_text specs)) + 1"
    using ncommas_tokens [of "comma_join (map spec_text specs)"] strtok_join [of specs] by simp
  then show ?thesis
    using parse_loop_specs [OF assms, of "[]"] by (simp add: parse_ranges_def strtok_join)
qed

theorem parse_ranges_correct_witness:
  "parse_ranges ''7,-2:9,:5:,1::3'' 10 20 30 None =
     Inr (4, [\<lparr>r_min = 7, r_max = 7, r_mult = 30\<rparr>, \<lparr>r_min = - 2, r_max = 9, r_mult = 30\<rparr>,
              \<lparr>r_min = 10, r_max = 5, r_mult = 30\<rparr>, \<lparr>r_min = 1, r_max = 20, r_mult = 3\<rparr>])"
proof -
  let ?s = "[Num 7, Span (Some (- 2)) (Some 9) None, Span None (Some 5) (Some None), Span (Some 1) None (Some (Some 3))]"
  have "list_all spec_ok ?s" by code_simp
  moreover have "comma_join (map spec_text ?s) = ''7,-2:9,:5:,1::3''" by code_simp
  ultimately show ?thesis using parse_ranges_correct [of ?s 10 20 30] by (simp add: or_default_def)
qed





text \<open>C30. \<^verbatim>\<open>random_rangell\<close> for bounds between 0 and about \<open>4.6 * 10 ^ 18\<close>: its recursive helper \<^verbatim>\<open>divider\<close> ends
  without reaching the guard against running away, a shift beyond the width of \<^verbatim>\<open>int\<close> or an overflow, and
  the result is a multiple of \<^verbatim>\<open>mult\<close> between the bounds, or the error when there is none.\<close>

theorem random_rangell_correct:
  assumes "0 \<le> rnd" "rnd < 2 ^ 31" "0 \<le> a" "0 \<le> b" "1 \<le> mult" "max a b + mult \<le> 2 ^ 62 - 2 ^ 30"
  shows "(\<exists>y. divider rnd (min a b) (max a b) 0 (- 1) = Some y \<and> min a b \<le> y)
    \<and> (\<exists>x err. random_rangell rnd a b mult = Some (x, err)
      \<and> (err = None \<longleftrightarrow> has_multiple a b mult)
      \<and> (err = None \<longrightarrow> min a b \<le> x \<and> x \<le> max a b \<and> mult dvd x))"
proof -
  have m: "0 \<le> min a b" using assms(3,4) by simp
  have "\<exists>y. divider rnd (min a b) (max a b) 0 (- 1) = Some y \<and> min a b \<le> y"
    using m assms by (intro divider_ok) (auto simp: LLONG_MAX_def)
  then show ?thesis using llr.defined [OF assms(1,2) m assms(5,6)] by metis
qed

theorem random_rangell_correct_witness:
  "\<exists>x. random_rangell 77 0 (10 ^ 15) (10 ^ 14) = Some (x, None) \<and> 0 \<le> x \<and> x \<le> 10 ^ 15 \<and> 10 ^ 14 dvd x"
proof -
  have "has_multiple 0 (10 ^ 15) (10 ^ 14)" unfolding has_multiple_def by (rule exI [of _ 0]) simp
  moreover have "max 0 (10 ^ 15) + 10 ^ 14 \<le> (2 ^ 62 - 2 ^ 30 :: int)" by simp
  ultimately show ?thesis using random_rangell_correct [of 77 0 "10 ^ 15" "10 ^ 14"] by simp
qed

text \<open>\<^verbatim>\<open>random_bit\<close> ends and returns exactly one of the bits set in the mask (0 for the mask 0). Which one is
  decided by \<^verbatim>\<open>lrand48()\<close> alone: with \<open>n\<close> bits set it is the one that has \<open>lrand48() mod n\<close> set bits below it, so
  each of them can be chosen.\<close>

theorem random_bit_correct:
  assumes "0 \<le> rnd"
  shows "random_bit rnd 0 = Some 0
    \<and> (m \<noteq> 0 \<longrightarrow> (\<exists>j < 64. bit m j \<and> random_bit rnd m = Some (push_bit j 1)
         \<and> int (ones_below m j) = rnd mod int (ones_below m 64)))"
proof -
  have "\<exists>j < 64. bit m j \<and> random_bit rnd m = Some (push_bit j 1) \<and> int (ones_below m j) = rnd mod int (ones_below m 64)"
    if "m \<noteq> 0"
  proof -
    define n where "n = int (ones_below m 64)"
    have n: "1 \<le> n" "n < INT_MAX" using ones_positive [OF that] ones_le [of m 64] by (auto simp: n_def INT_MAX_def)
    have r: "random_range rnd 1 (count_bits m) 1 = Some (1 + rnd mod n, None)"
      using random_range_ones [OF assms n] by (simp add: count_bits_eq n_def)
    have "1 \<le> 1 + rnd mod n" "1 + rnd mod n \<le> int (ones_below m 64)"
      using n(1) pos_mod_sign [of n rnd] pos_mod_bound [of n rnd] unfolding n_def [symmetric] by linarith+
    then obtain j where "j < 64" "bit m j" "int (ones_below m j) = rnd mod n" "shift_loop (1 + rnd mod n) m 0 = Some (j + 1)"
      using shift_loop_finds [of "1 + rnd mod n" m 64 0] by auto
    then show ?thesis using that r by (intro exI [of _ j]) (simp add: random_bit_def n_def)
  qed
  then show ?thesis by (simp add: random_bit_def)
qed

theorem random_bit_correct_witness:
  "\<exists>j < 64. bit (0x30 :: 64 word) j \<and> random_bit 3 0x30 = Some (push_bit j 1) \<and> int (ones_below 0x30 j) = 1"
proof -
  have "ones_below 0x30 64 = 2" by code_simp
  then show ?thesis using random_bit_correct [of 3 "0x30"] by simp
qed

section \<open>Observations\<close>

text \<open>With negative bounds \<^verbatim>\<open>random_range\<close> leaves the range: the remainder of a negative number is negative, so
  \<^verbatim>\<open>max -= r\<close> rounds towards 0. Here the range is \<open>-9 .. -5\<close> and the result is \<open>-3\<close>.\<close>

lemma random_range_negative: "random_range 2 (- 9) (- 5) 3 = Some (- 3, None)"
  by code_simp

text \<open>The first multiple at or above a negative lower bound is skipped: \<open>-3\<close> is a multiple of 3 in \<open>-5 .. -3\<close>.\<close>

lemma random_range_misses: "map_option snd (random_range 0 (- 5) (- 3) 3) = Some (Some ''no numbers in the range -5:-3 that are a multiple of 3'')"
  by code_simp

text \<open>With a negative lower bound \<^verbatim>\<open>random_rangell\<close> can return a number far below it.\<close>

lemma random_rangell_negative: "random_rangell 0 (- 10000000000) 10000000000 1 = Some (- 20000000000, None)"
  by code_simp

text \<open>A field of 219 characters or more that is not a number overruns the static message buffer.\<close>

lemma parse_ranges_errmsg_overrun:
  "parse_ranges (replicate 219 (CHR ''x'')) 0 0 0 None = Inl Errmsg_overrun"
  by code_simp

end
