(* ===== verification/Timer.thy ===== *)
theory Timer
  imports C_Library
begin

text \<open>
  \<^verbatim>\<open>include/tst_timer.h\<close> and \<^verbatim>\<open>lib/tst_timer.c\<close>: conversions, comparison and arithmetic of time values, the
  interval timer accessors and the stopwatch of the test library. The model is for a 64-bit target, where
  \<^verbatim>\<open>time_t\<close>, \<^verbatim>\<open>long\<close> and \<^verbatim>\<open>long long\<close> have 64 bits and the members of the unions in \<^verbatim>\<open>struct tst_ts\<close> and
  \<^verbatim>\<open>struct tst_its\<close> have one layout, so that writing one member and reading another gives the same numbers.
  A signed overflow is the fault \<open>Overflow\<close>; \<^verbatim>\<open>tst_brk\<close>, which does not return, is the fault \<open>Brk\<close>.
\<close>

section \<open>Types\<close>

datatype timer_fault = Overflow | Brk ttype cstr | Uninitialised

definition ll :: "int \<Rightarrow> timer_fault + int" where
  "ll x = (case i64 x of None \<Rightarrow> Inl Overflow | Some y \<Rightarrow> Inr y)"

record timeval =
  tv_sec :: int
  tv_usec :: int

record timespec =
  ts_sec :: int
  ts_nsec :: int

datatype tst_ts_type = TST_LIBC_TIMESPEC | TST_KERN_OLD_TIMESPEC | TST_KERN_TIMESPEC | Other_type int

record tst_ts =
  ts_type :: tst_ts_type
  ts :: timespec

record tst_its =
  its_type :: tst_ts_type
  it_interval :: timespec
  it_value :: timespec

section \<open>Time values\<close>

definition tst_timeval_to_us :: "timeval \<Rightarrow> timer_fault + int" where
  "tst_timeval_to_us t = bindr (ll (tv_sec t * 1000000)) (\<lambda>a. ll (a + tv_usec t))"

definition tst_timeval_to_ms :: "timeval \<Rightarrow> timer_fault + int" where
  "tst_timeval_to_ms t =
     bindr (ll (tv_sec t * 1000)) (\<lambda>a. bindr (ll (tv_usec t + 500)) (\<lambda>b. ll (a + b sdiv 1000)))"

definition tst_ms_to_timeval :: "int \<Rightarrow> timeval" where
  "tst_ms_to_timeval ms = \<lparr>tv_sec = ms sdiv 1000, tv_usec = (ms smod 1000) * 1000\<rparr>"

definition tst_us_to_timeval :: "int \<Rightarrow> timeval" where
  "tst_us_to_timeval us = \<lparr>tv_sec = us sdiv 1000000, tv_usec = us smod 1000000\<rparr>"

definition tst_timeval_diff :: "timeval \<Rightarrow> timeval \<Rightarrow> timer_fault + timeval" where
  "tst_timeval_diff t1 t2 =
     bindr (ll (tv_sec t1 - tv_sec t2)) (\<lambda>s.
       if tv_usec t1 < tv_usec t2 then
         bindr (ll (s - 1)) (\<lambda>s'.
           bindr (ll (tv_usec t2 - tv_usec t1)) (\<lambda>u.
             bindr (ll (1000000 - u)) (\<lambda>u'. Inr \<lparr>tv_sec = s', tv_usec = u'\<rparr>)))
       else bindr (ll (tv_usec t1 - tv_usec t2)) (\<lambda>u. Inr \<lparr>tv_sec = s, tv_usec = u\<rparr>))"

definition tst_timeval_diff_us :: "timeval \<Rightarrow> timeval \<Rightarrow> timer_fault + int" where
  "tst_timeval_diff_us t1 t2 = bindr (tst_timeval_diff t1 t2) tst_timeval_to_us"

definition tst_timeval_diff_ms :: "timeval \<Rightarrow> timeval \<Rightarrow> timer_fault + int" where
  "tst_timeval_diff_ms t1 t2 = bindr (tst_timeval_diff t1 t2) tst_timeval_to_ms"

section \<open>Accessors\<close>

definition invalid_type :: "int \<Rightarrow> timer_fault" where
  "invalid_type n = Brk TBROK (''Invalid type: '' @ sdec n)"

definition tst_ts_get_sec :: "tst_ts \<Rightarrow> timer_fault + int" where
  "tst_ts_get_sec t =
     (case ts_type t of
        TST_LIBC_TIMESPEC \<Rightarrow> Inr (ts_sec (ts t))
      | TST_KERN_OLD_TIMESPEC \<Rightarrow> Inr (ts_sec (ts t))
      | TST_KERN_TIMESPEC \<Rightarrow> Inr (ts_sec (ts t))
      | Other_type n \<Rightarrow> Inl (invalid_type n))"

definition tst_ts_get_nsec :: "tst_ts \<Rightarrow> timer_fault + int" where
  "tst_ts_get_nsec t =
     (case ts_type t of
        TST_LIBC_TIMESPEC \<Rightarrow> Inr (ts_nsec (ts t))
      | TST_KERN_OLD_TIMESPEC \<Rightarrow> Inr (ts_nsec (ts t))
      | TST_KERN_TIMESPEC \<Rightarrow> Inr (ts_nsec (ts t))
      | Other_type n \<Rightarrow> Inl (invalid_type n))"

definition tst_ts_set_sec :: "tst_ts \<Rightarrow> int \<Rightarrow> timer_fault + tst_ts" where
  "tst_ts_set_sec t s =
     (case ts_type t of
        TST_LIBC_TIMESPEC \<Rightarrow> Inr (t\<lparr>ts := (ts t)\<lparr>ts_sec := s\<rparr>\<rparr>)
      | TST_KERN_OLD_TIMESPEC \<Rightarrow> Inr (t\<lparr>ts := (ts t)\<lparr>ts_sec := s\<rparr>\<rparr>)
      | TST_KERN_TIMESPEC \<Rightarrow> Inr (t\<lparr>ts := (ts t)\<lparr>ts_sec := s\<rparr>\<rparr>)
      | Other_type n \<Rightarrow> Inl (invalid_type n))"

definition tst_ts_set_nsec :: "tst_ts \<Rightarrow> int \<Rightarrow> timer_fault + tst_ts" where
  "tst_ts_set_nsec t n =
     (case ts_type t of
        TST_LIBC_TIMESPEC \<Rightarrow> Inr (t\<lparr>ts := (ts t)\<lparr>ts_nsec := n\<rparr>\<rparr>)
      | TST_KERN_OLD_TIMESPEC \<Rightarrow> Inr (t\<lparr>ts := (ts t)\<lparr>ts_nsec := n\<rparr>\<rparr>)
      | TST_KERN_TIMESPEC \<Rightarrow> Inr (t\<lparr>ts := (ts t)\<lparr>ts_nsec := n\<rparr>\<rparr>)
      | Other_type k \<Rightarrow> Inl (invalid_type k))"

text \<open>The numbers of the enumeration, for the message of the interval timer accessors, which accept only the two
  kernel types.\<close>

fun type_number :: "tst_ts_type \<Rightarrow> int" where
  "type_number TST_LIBC_TIMESPEC = 0"
| "type_number TST_KERN_OLD_TIMESPEC = 1"
| "type_number TST_KERN_TIMESPEC = 2"
| "type_number (Other_type n) = n"

definition tst_its_get_interval_sec :: "tst_its \<Rightarrow> timer_fault + int" where
  "tst_its_get_interval_sec its =
     (case its_type its of
        TST_KERN_OLD_TIMESPEC \<Rightarrow> Inr (ts_sec (it_interval its))
      | TST_KERN_TIMESPEC \<Rightarrow> Inr (ts_sec (it_interval its))
      | ty \<Rightarrow> Inl (invalid_type (type_number ty)))"

definition tst_its_get_interval_nsec :: "tst_its \<Rightarrow> timer_fault + int" where
  "tst_its_get_interval_nsec its =
     (case its_type its of
        TST_KERN_OLD_TIMESPEC \<Rightarrow> Inr (ts_nsec (it_interval its))
      | TST_KERN_TIMESPEC \<Rightarrow> Inr (ts_nsec (it_interval its))
      | ty \<Rightarrow> Inl (invalid_type (type_number ty)))"

definition tst_its_set_interval_sec :: "tst_its \<Rightarrow> int \<Rightarrow> timer_fault + tst_its" where
  "tst_its_set_interval_sec its s =
     (case its_type its of
        TST_KERN_OLD_TIMESPEC \<Rightarrow> Inr (its\<lparr>it_interval := (it_interval its)\<lparr>ts_sec := s\<rparr>\<rparr>)
      | TST_KERN_TIMESPEC \<Rightarrow> Inr (its\<lparr>it_interval := (it_interval its)\<lparr>ts_sec := s\<rparr>\<rparr>)
      | ty \<Rightarrow> Inl (invalid_type (type_number ty)))"

definition tst_its_set_interval_nsec :: "tst_its \<Rightarrow> int \<Rightarrow> timer_fault + tst_its" where
  "tst_its_set_interval_nsec its n =
     (case its_type its of
        TST_KERN_OLD_TIMESPEC \<Rightarrow> Inr (its\<lparr>it_interval := (it_interval its)\<lparr>ts_nsec := n\<rparr>\<rparr>)
      | TST_KERN_TIMESPEC \<Rightarrow> Inr (its\<lparr>it_interval := (it_interval its)\<lparr>ts_nsec := n\<rparr>\<rparr>)
      | ty \<Rightarrow> Inl (invalid_type (type_number ty)))"

definition tst_its_get_value_sec :: "tst_its \<Rightarrow> timer_fault + int" where
  "tst_its_get_value_sec its =
     (case its_type its of
        TST_KERN_OLD_TIMESPEC \<Rightarrow> Inr (ts_sec (it_value its))
      | TST_KERN_TIMESPEC \<Rightarrow> Inr (ts_sec (it_value its))
      | ty \<Rightarrow> Inl (invalid_type (type_number ty)))"

definition tst_its_get_value_nsec :: "tst_its \<Rightarrow> timer_fault + int" where
  "tst_its_get_value_nsec its =
     (case its_type its of
        TST_KERN_OLD_TIMESPEC \<Rightarrow> Inr (ts_nsec (it_value its))
      | TST_KERN_TIMESPEC \<Rightarrow> Inr (ts_nsec (it_value its))
      | ty \<Rightarrow> Inl (invalid_type (type_number ty)))"

definition tst_its_set_value_sec :: "tst_its \<Rightarrow> int \<Rightarrow> timer_fault + tst_its" where
  "tst_its_set_value_sec its s =
     (case its_type its of
        TST_KERN_OLD_TIMESPEC \<Rightarrow> Inr (its\<lparr>it_value := (it_value its)\<lparr>ts_sec := s\<rparr>\<rparr>)
      | TST_KERN_TIMESPEC \<Rightarrow> Inr (its\<lparr>it_value := (it_value its)\<lparr>ts_sec := s\<rparr>\<rparr>)
      | ty \<Rightarrow> Inl (invalid_type (type_number ty)))"

definition tst_its_set_value_nsec :: "tst_its \<Rightarrow> int \<Rightarrow> timer_fault + tst_its" where
  "tst_its_set_value_nsec its n =
     (case its_type its of
        TST_KERN_OLD_TIMESPEC \<Rightarrow> Inr (its\<lparr>it_value := (it_value its)\<lparr>ts_nsec := n\<rparr>\<rparr>)
      | TST_KERN_TIMESPEC \<Rightarrow> Inr (its\<lparr>it_value := (it_value its)\<lparr>ts_nsec := n\<rparr>\<rparr>)
      | ty \<Rightarrow> Inl (invalid_type (type_number ty)))"

section \<open>Conversions\<close>

definition tst_ts_valid :: "tst_ts \<Rightarrow> timer_fault + int" where
  "tst_ts_valid t =
     bindr (tst_ts_get_nsec t) (\<lambda>nsec.
       if nsec < 0 \<or> nsec \<ge> 1000000000 then Inr (- 2)
       else bindr (tst_ts_get_sec t) (\<lambda>s. if s = 0 \<and> nsec = 0 then Inr (- 1) else Inr 0))"

definition tst_ts_from_timespec :: "timespec \<Rightarrow> tst_ts" where
  "tst_ts_from_timespec t = \<lparr>ts_type = TST_LIBC_TIMESPEC, ts = \<lparr>ts_sec = ts_sec t, ts_nsec = ts_nsec t\<rparr>\<rparr>"

definition tst_ts_to_timespec :: "tst_ts \<Rightarrow> timespec" where
  "tst_ts_to_timespec t = ts t"

definition tst_ts_to_ns :: "tst_ts \<Rightarrow> timer_fault + int" where
  "tst_ts_to_ns t =
     bindr (tst_ts_get_sec t) (\<lambda>s. bindr (ll (s * 1000000000)) (\<lambda>a.
       bindr (tst_ts_get_nsec t) (\<lambda>n. ll (a + n))))"

definition tst_ts_to_us :: "tst_ts \<Rightarrow> timer_fault + int" where
  "tst_ts_to_us t =
     bindr (tst_ts_get_sec t) (\<lambda>s. bindr (ll (s * 1000000)) (\<lambda>a.
       bindr (tst_ts_get_nsec t) (\<lambda>n. bindr (ll (n + 500)) (\<lambda>b. ll (a + b sdiv 1000)))))"

definition tst_timespec_to_us :: "timespec \<Rightarrow> timer_fault + int" where
  "tst_timespec_to_us t = tst_ts_to_us (tst_ts_from_timespec t)"

definition tst_ts_to_ms :: "tst_ts \<Rightarrow> timer_fault + int" where
  "tst_ts_to_ms t =
     bindr (tst_ts_get_sec t) (\<lambda>s. bindr (ll (s * 1000)) (\<lambda>a.
       bindr (tst_ts_get_nsec t) (\<lambda>n. bindr (ll (n + 500000)) (\<lambda>b. ll (a + b sdiv 1000000)))))"

definition tst_timespec_to_ms :: "timespec \<Rightarrow> timer_fault + int" where
  "tst_timespec_to_ms t = tst_ts_to_ms (tst_ts_from_timespec t)"

text \<open>A \<^verbatim>\<open>struct tst_ts\<close> with only its type given; the rest is zero.\<close>

definition ts_of_type :: "tst_ts_type \<Rightarrow> tst_ts" where
  "ts_of_type ty = \<lparr>ts_type = ty, ts = \<lparr>ts_sec = 0, ts_nsec = 0\<rparr>\<rparr>"

definition tst_ts_from_ns :: "tst_ts_type \<Rightarrow> int \<Rightarrow> timer_fault + tst_ts" where
  "tst_ts_from_ns ty ns =
     bindr (tst_ts_set_sec (ts_of_type ty) (ns sdiv 1000000000)) (\<lambda>ret.
       tst_ts_set_nsec ret (ns smod 1000000000))"

definition tst_ts_from_us :: "tst_ts_type \<Rightarrow> int \<Rightarrow> timer_fault + tst_ts" where
  "tst_ts_from_us ty us =
     bindr (tst_ts_set_sec (ts_of_type ty) (us sdiv 1000000)) (\<lambda>ret.
       tst_ts_set_nsec ret ((us smod 1000000) * 1000))"

definition tst_timespec_from_us :: "int \<Rightarrow> timer_fault + timespec" where
  "tst_timespec_from_us us = bindr (tst_ts_from_us TST_LIBC_TIMESPEC us) (\<lambda>t. Inr (tst_ts_to_timespec t))"

definition tst_ts_from_ms :: "tst_ts_type \<Rightarrow> int \<Rightarrow> timer_fault + tst_ts" where
  "tst_ts_from_ms ty ms =
     bindr (tst_ts_set_sec (ts_of_type ty) (ms sdiv 1000)) (\<lambda>ret.
       tst_ts_set_nsec ret ((ms smod 1000) * 1000000))"

definition tst_timespec_from_ms :: "int \<Rightarrow> timer_fault + timespec" where
  "tst_timespec_from_ms ms = bindr (tst_ts_from_ms TST_LIBC_TIMESPEC ms) (\<lambda>t. Inr (tst_ts_to_timespec t))"

definition tst_its_set_interval_from_us :: "tst_its \<Rightarrow> int \<Rightarrow> timer_fault + tst_its" where
  "tst_its_set_interval_from_us its usec =
     bindr (tst_timespec_from_us usec) (\<lambda>tp.
       bindr (tst_its_set_interval_sec its (ts_sec tp)) (\<lambda>its'. tst_its_set_interval_nsec its' (ts_nsec tp)))"

definition tst_its_set_value_from_us :: "tst_its \<Rightarrow> int \<Rightarrow> timer_fault + tst_its" where
  "tst_its_set_value_from_us its usec =
     bindr (tst_timespec_from_us usec) (\<lambda>tp.
       bindr (tst_its_set_value_sec its (ts_sec tp)) (\<lambda>its'. tst_its_set_value_nsec its' (ts_nsec tp)))"

definition tst_its_set_interval_from_ts :: "tst_its \<Rightarrow> tst_ts \<Rightarrow> timer_fault + tst_its" where
  "tst_its_set_interval_from_ts its t =
     bindr (tst_ts_get_sec t) (\<lambda>s. bindr (tst_its_set_interval_sec its s) (\<lambda>its'.
       bindr (tst_ts_get_nsec t) (\<lambda>n. tst_its_set_interval_nsec its' n)))"

definition tst_its_set_value_from_ts :: "tst_its \<Rightarrow> tst_ts \<Rightarrow> timer_fault + tst_its" where
  "tst_its_set_value_from_ts its t =
     bindr (tst_ts_get_sec t) (\<lambda>s. bindr (tst_its_set_value_sec its s) (\<lambda>its'.
       bindr (tst_ts_get_nsec t) (\<lambda>n. tst_its_set_value_nsec its' n)))"

section \<open>Comparison and arithmetic\<close>

definition tst_ts_lt :: "tst_ts \<Rightarrow> tst_ts \<Rightarrow> timer_fault + bool" where
  "tst_ts_lt t1 t2 =
     bindr (tst_ts_get_sec t1) (\<lambda>s1. bindr (tst_ts_get_sec t2) (\<lambda>s2.
       if s1 = s2 then bindr (tst_ts_get_nsec t1) (\<lambda>n1. bindr (tst_ts_get_nsec t2) (\<lambda>n2. Inr (n1 < n2)))
       else Inr (s1 < s2)))"

definition tst_timespec_lt :: "timespec \<Rightarrow> timespec \<Rightarrow> timer_fault + bool" where
  "tst_timespec_lt t1 t2 = tst_ts_lt (tst_ts_from_timespec t1) (tst_ts_from_timespec t2)"

definition tst_ts_normalize :: "tst_ts \<Rightarrow> timer_fault + tst_ts" where
  "tst_ts_normalize t =
     bindr (tst_ts_get_sec t) (\<lambda>s. bindr (tst_ts_get_nsec t) (\<lambda>n.
       bindr (if n \<ge> 1000000000 then
                bindr (ll (s + 1)) (\<lambda>s'. bindr (tst_ts_set_sec t s') (\<lambda>t'.
                  bindr (ll (n - 1000000000)) (\<lambda>n'. tst_ts_set_nsec t' n')))
              else Inr t) (\<lambda>t.
         if n < 0 then
           bindr (ll (s - 1)) (\<lambda>s'. bindr (tst_ts_set_sec t s') (\<lambda>t'.
             bindr (ll (n + 1000000000)) (\<lambda>n'. tst_ts_set_nsec t' n')))
         else Inr t)))"

definition tst_ts_add_us :: "tst_ts \<Rightarrow> int \<Rightarrow> timer_fault + tst_ts" where
  "tst_ts_add_us t us =
     bindr (tst_ts_get_sec t) (\<lambda>s. bindr (ll (s + us sdiv 1000000)) (\<lambda>s'.
       bindr (tst_ts_set_sec (ts_of_type (ts_type t)) s') (\<lambda>res.
         bindr (tst_ts_get_nsec t) (\<lambda>n. bindr (ll (n + (us smod 1000000) * 1000)) (\<lambda>n'.
           bindr (tst_ts_set_nsec res n') tst_ts_normalize)))))"

definition tst_timespec_add_us :: "timespec \<Rightarrow> int \<Rightarrow> timer_fault + timespec" where
  "tst_timespec_add_us t us =
     bindr (tst_ts_add_us (tst_ts_from_timespec t) us) (\<lambda>res. Inr (tst_ts_to_timespec res))"

definition tst_ts_sub_us :: "tst_ts \<Rightarrow> int \<Rightarrow> timer_fault + tst_ts" where
  "tst_ts_sub_us t us =
     bindr (tst_ts_get_sec t) (\<lambda>s. bindr (ll (s - us sdiv 1000000)) (\<lambda>s'.
       bindr (tst_ts_set_sec (ts_of_type (ts_type t)) s') (\<lambda>res.
         bindr (tst_ts_get_nsec t) (\<lambda>n. bindr (ll (n - (us smod 1000000) * 1000)) (\<lambda>n'.
           bindr (tst_ts_set_nsec res n') tst_ts_normalize)))))"

definition tst_timespec_sub_us :: "timespec \<Rightarrow> int \<Rightarrow> timer_fault + timespec" where
  "tst_timespec_sub_us t us =
     bindr (tst_ts_sub_us (tst_ts_from_timespec t) us) (\<lambda>res. Inr (tst_ts_to_timespec res))"

definition tst_ts_add :: "tst_ts \<Rightarrow> tst_ts \<Rightarrow> timer_fault + tst_ts" where
  "tst_ts_add t1 t2 =
     bindr (tst_ts_get_sec t1) (\<lambda>s1. bindr (tst_ts_get_sec t2) (\<lambda>s2. bindr (ll (s1 + s2)) (\<lambda>s.
       bindr (tst_ts_set_sec (ts_of_type (ts_type t1)) s) (\<lambda>res.
         bindr (tst_ts_get_nsec t1) (\<lambda>n1. bindr (tst_ts_get_nsec t2) (\<lambda>n2. bindr (ll (n1 + n2)) (\<lambda>n.
           bindr (tst_ts_set_nsec res n) tst_ts_normalize)))))))"

definition tst_timespec_add :: "timespec \<Rightarrow> timespec \<Rightarrow> timer_fault + timespec" where
  "tst_timespec_add t1 t2 =
     bindr (tst_ts_add (tst_ts_from_timespec t1) (tst_ts_from_timespec t2)) (\<lambda>res. Inr (tst_ts_to_timespec res))"

definition tst_ts_diff :: "tst_ts \<Rightarrow> tst_ts \<Rightarrow> timer_fault + tst_ts" where
  "tst_ts_diff t1 t2 =
     bindr (tst_ts_get_sec t1) (\<lambda>s1. bindr (tst_ts_get_sec t2) (\<lambda>s2. bindr (ll (s1 - s2)) (\<lambda>s.
       bindr (tst_ts_set_sec (ts_of_type (ts_type t1)) s) (\<lambda>res.
         bindr (tst_ts_get_nsec t1) (\<lambda>n1. bindr (tst_ts_get_nsec t2) (\<lambda>n2. bindr (ll (n1 - n2)) (\<lambda>n.
           bindr (tst_ts_set_nsec res n) tst_ts_normalize)))))))"

definition tst_timespec_diff :: "timespec \<Rightarrow> timespec \<Rightarrow> timer_fault + timespec" where
  "tst_timespec_diff t1 t2 =
     bindr (tst_ts_diff (tst_ts_from_timespec t1) (tst_ts_from_timespec t2)) (\<lambda>res. Inr (tst_ts_to_timespec res))"

definition tst_ts_diff_ns :: "tst_ts \<Rightarrow> tst_ts \<Rightarrow> timer_fault + int" where
  "tst_ts_diff_ns t1 t2 = bindr (tst_ts_diff t1 t2) tst_ts_to_ns"

definition tst_timespec_diff_ns :: "timespec \<Rightarrow> timespec \<Rightarrow> timer_fault + int" where
  "tst_timespec_diff_ns t1 t2 = tst_ts_diff_ns (tst_ts_from_timespec t1) (tst_ts_from_timespec t2)"

definition tst_ts_diff_us :: "tst_ts \<Rightarrow> tst_ts \<Rightarrow> timer_fault + int" where
  "tst_ts_diff_us t1 t2 = bindr (tst_ts_diff t1 t2) tst_ts_to_us"

definition tst_timespec_diff_us :: "timespec \<Rightarrow> timespec \<Rightarrow> timer_fault + int" where
  "tst_timespec_diff_us t1 t2 = tst_ts_diff_us (tst_ts_from_timespec t1) (tst_ts_from_timespec t2)"

definition tst_ts_diff_ms :: "tst_ts \<Rightarrow> tst_ts \<Rightarrow> timer_fault + int" where
  "tst_ts_diff_ms t1 t2 = bindr (tst_ts_diff t1 t2) tst_ts_to_ms"

definition tst_timespec_diff_ms :: "timespec \<Rightarrow> timespec \<Rightarrow> timer_fault + int" where
  "tst_timespec_diff_ms t1 t2 = tst_ts_diff_ms (tst_ts_from_timespec t1) (tst_ts_from_timespec t2)"

definition tst_ts_abs_diff :: "tst_ts \<Rightarrow> tst_ts \<Rightarrow> timer_fault + tst_ts" where
  "tst_ts_abs_diff t1 t2 =
     bindr (tst_ts_lt t1 t2) (\<lambda>less. if less then tst_ts_diff t2 t1 else tst_ts_diff t1 t2)"

definition tst_ts_abs_diff_us :: "tst_ts \<Rightarrow> tst_ts \<Rightarrow> timer_fault + int" where
  "tst_ts_abs_diff_us t1 t2 = bindr (tst_ts_abs_diff t1 t2) tst_ts_to_us"

definition tst_timespec_abs_diff_us :: "timespec \<Rightarrow> timespec \<Rightarrow> timer_fault + int" where
  "tst_timespec_abs_diff_us t1 t2 = tst_ts_abs_diff_us (tst_ts_from_timespec t1) (tst_ts_from_timespec t2)"

definition tst_ts_abs_diff_ms :: "tst_ts \<Rightarrow> tst_ts \<Rightarrow> timer_fault + int" where
  "tst_ts_abs_diff_ms t1 t2 = bindr (tst_ts_abs_diff t1 t2) tst_ts_to_ms"

section \<open>The stopwatch\<close>

text \<open>The static variables, and what \<^verbatim>\<open>tst_clock_gettime\<close> does when it is called: the clock's time, or the error
  number. A failed call leaves the variable as it was.\<close>

record stopwatch =
  start_time :: timespec
  stop_time :: timespec
  clock_id :: int

type_synonym gettime = "int \<Rightarrow> int + timespec"

definition EINVAL :: int where "EINVAL = 22"

definition gettime_failed :: "ttype \<times> cstr" where
  "gettime_failed = (TWARN, ''tst_clock_gettime() failed'')"

definition tst_timer_check :: "(int \<Rightarrow> cstr) \<Rightarrow> gettime \<Rightarrow> int \<Rightarrow> stopwatch \<Rightarrow> timer_fault + stopwatch" where
  "tst_timer_check tst_clock_name gettime clk_id w =
     (case gettime clk_id of
        Inr t \<Rightarrow> Inr (w\<lparr>start_time := t\<rparr>)
      | Inl errno \<Rightarrow>
          if errno = EINVAL
          then Inl (Brk TCONF (''Clock id '' @ tst_clock_name clk_id @ ''('' @ dec (nat (clk_id mod 2 ^ 32))
                    @ '') not supported by kernel''))
          else Inl (Brk TBROK ''tst_clock_gettime() failed''))"

definition tst_timer_start :: "gettime \<Rightarrow> int \<Rightarrow> stopwatch \<Rightarrow> log \<times> stopwatch" where
  "tst_timer_start gettime clk_id w =
     (let w = w\<lparr>clock_id := clk_id\<rparr> in
      case gettime (clock_id w) of
        Inr t \<Rightarrow> ([], w\<lparr>start_time := t\<rparr>)
      | Inl errno \<Rightarrow> ([gettime_failed], w))"

definition tst_timer_expired_ms :: "gettime \<Rightarrow> int \<Rightarrow> stopwatch \<Rightarrow> log \<times> (timer_fault + bool)" where
  "tst_timer_expired_ms gettime ms w =
     (case gettime (clock_id w) of
        Inr cur_time \<Rightarrow> ([], bindr (tst_timespec_diff_ms cur_time (start_time w)) (\<lambda>d. Inr (d \<ge> ms)))
      | Inl errno \<Rightarrow> ([gettime_failed], Inl Uninitialised))"

definition tst_timer_stop :: "gettime \<Rightarrow> stopwatch \<Rightarrow> log \<times> stopwatch" where
  "tst_timer_stop gettime w =
     (case gettime (clock_id w) of
        Inr t \<Rightarrow> ([], w\<lparr>stop_time := t\<rparr>)
      | Inl errno \<Rightarrow> ([gettime_failed], w))"

definition tst_timer_elapsed :: "stopwatch \<Rightarrow> timer_fault + timespec" where
  "tst_timer_elapsed w = tst_timespec_diff (stop_time w) (start_time w)"

definition tst_timer_elapsed_ms :: "stopwatch \<Rightarrow> timer_fault + int" where
  "tst_timer_elapsed_ms w = bindr (tst_timer_elapsed w) tst_timespec_to_ms"

definition tst_timer_elapsed_us :: "stopwatch \<Rightarrow> timer_fault + int" where
  "tst_timer_elapsed_us w = bindr (tst_timer_elapsed w) tst_timespec_to_us"

section \<open>Time values as numbers of nanoseconds\<close>

definition ns :: "timespec \<Rightarrow> int" where
  "ns t = ts_sec t * 1000000000 + ts_nsec t"

definition normal :: "timespec \<Rightarrow> bool" where
  "normal t = (0 \<le> ts_nsec t \<and> ts_nsec t < 1000000000)"

fun known_type :: "tst_ts_type \<Rightarrow> bool" where
  "known_type (Other_type n) = False"
| "known_type _ = True"

text \<open>A normalised value of a known type whose seconds stay away from the limits of \<^verbatim>\<open>long long\<close>.\<close>

definition wf_ts :: "tst_ts \<Rightarrow> bool" where
  "wf_ts t = (known_type (ts_type t) \<and> normal (ts t) \<and> \<bar>ts_sec (ts t)\<bar> \<le> 2 ^ 61)"

text \<open>The outcome of an operation: a normalised value of the given type that stands for the given number of
  nanoseconds.\<close>

definition yields :: "timer_fault + tst_ts \<Rightarrow> tst_ts_type \<Rightarrow> int \<Rightarrow> bool" where
  "yields m ty v = (\<exists>r. m = Inr r \<and> ts_type r = ty \<and> normal (ts r) \<and> ns (ts r) = v)"

lemma yieldsE:
  assumes "yields m ty v"
  obtains r where "m = Inr r" "ts_type r = ty" "normal (ts r)" "ns (ts r) = v"
  using assms by (auto simp: yields_def)

lemma ll_ok: "- 9223372036854775808 \<le> x \<Longrightarrow> x \<le> 9223372036854775807 \<Longrightarrow> ll x = Inr x"
  by (simp add: ll_def i64_def LLONG_MIN_def LLONG_MAX_def)

lemma get_known [simp]:
  "known_type (ts_type t) \<Longrightarrow> tst_ts_get_sec t = Inr (ts_sec (ts t))"
  "known_type (ts_type t) \<Longrightarrow> tst_ts_get_nsec t = Inr (ts_nsec (ts t))"
  by (cases "ts_type t"; simp add: tst_ts_get_sec_def tst_ts_get_nsec_def)+

lemma set_known [simp]:
  "known_type (ts_type t) \<Longrightarrow> tst_ts_set_sec t s = Inr (t\<lparr>ts := (ts t)\<lparr>ts_sec := s\<rparr>\<rparr>)"
  "known_type (ts_type t) \<Longrightarrow> tst_ts_set_nsec t n = Inr (t\<lparr>ts := (ts t)\<lparr>ts_nsec := n\<rparr>\<rparr>)"
  by (cases "ts_type t"; simp add: tst_ts_set_sec_def tst_ts_set_nsec_def)+

lemma ts_of_type_simps [simp]: "ts_type (ts_of_type ty) = ty" "ts (ts_of_type ty) = \<lparr>ts_sec = 0, ts_nsec = 0\<rparr>"
  by (simp_all add: ts_of_type_def)

lemma from_timespec [simp]:
  "ts_type (tst_ts_from_timespec t) = TST_LIBC_TIMESPEC" "ts (tst_ts_from_timespec t) = t"
  by (simp_all add: tst_ts_from_timespec_def)

text \<open>\<^verbatim>\<open>/\<close> and \<^verbatim>\<open>%\<close> round towards 0.\<close>

lemma trunc_div:
  fixes a k :: int
  assumes "0 < k"
  shows "a = a sdiv k * k + a smod k" "\<bar>a smod k\<bar> < k" "\<bar>a sdiv k\<bar> \<le> \<bar>a\<bar> div k"
proof -
  show "a = a sdiv k * k + a smod k" by (simp add: sdiv_mult_smod_eq)
  show "\<bar>a smod k\<bar> < k" using smod_int_range [of k a] assms by auto
  show "\<bar>a sdiv k\<bar> \<le> \<bar>a\<bar> div k"
    using assms pos_imp_zdiv_nonneg_iff [of k "\<bar>a\<bar>"] by (simp add: signed_divide_int_def abs_mult)
qed

lemma normalize_yields:
  assumes "known_type (ts_type t)" "\<bar>ts_sec (ts t)\<bar> \<le> 4611686018427387904" "- 1000000000 \<le> ts_nsec (ts t)" "ts_nsec (ts t) < 2000000000"
  shows "yields (tst_ts_normalize t) (ts_type t) (ns (ts t))"
  using assms by (auto simp: tst_ts_normalize_def yields_def ll_ok normal_def ns_def)

lemma set_both_normalize:
  assumes "known_type ty" "\<bar>s\<bar> \<le> 4611686018427387904" "- 1000000000 \<le> n" "n < 2000000000" "v = s * 1000000000 + n"
  shows "yields (bindr (tst_ts_set_sec (ts_of_type ty) s) (\<lambda>res. bindr (tst_ts_set_nsec res n) tst_ts_normalize)) ty v"
  using assms normalize_yields [of "\<lparr>ts_type = ty, ts = \<lparr>ts_sec = s, ts_nsec = n\<rparr>\<rparr>"]
  by (simp add: ts_of_type_def ns_def)

lemma wf_tsD:
  assumes "wf_ts t"
  shows "known_type (ts_type t)" "0 \<le> ts_nsec (ts t)" "ts_nsec (ts t) < 1000000000" "\<bar>ts_sec (ts t)\<bar> \<le> 2305843009213693952"
  using assms by (auto simp: wf_ts_def normal_def)

lemma add_yields:
  assumes "wf_ts t1" "wf_ts t2"
  shows "yields (tst_ts_add t1 t2) (ts_type t1) (ns (ts t1) + ns (ts t2))"
proof -
  note w = wf_tsD [OF assms(1)] wf_tsD [OF assms(2)]
  let ?s = "ts_sec (ts t1) + ts_sec (ts t2)" and ?n = "ts_nsec (ts t1) + ts_nsec (ts t2)"
  have l: "ll ?s = Inr ?s" "ll ?n = Inr ?n" using w by (intro ll_ok; linarith)+
  have "tst_ts_add t1 t2 =
      bindr (tst_ts_set_sec (ts_of_type (ts_type t1)) ?s) (\<lambda>res. bindr (tst_ts_set_nsec res ?n) tst_ts_normalize)"
    using w l by (simp add: tst_ts_add_def)
  then show ?thesis using set_both_normalize [of "ts_type t1" ?s ?n] w by (simp add: ns_def algebra_simps)
qed

lemma diff_yields:
  assumes "wf_ts t1" "wf_ts t2"
  shows "yields (tst_ts_diff t1 t2) (ts_type t1) (ns (ts t1) - ns (ts t2))"
proof -
  note w = wf_tsD [OF assms(1)] wf_tsD [OF assms(2)]
  let ?s = "ts_sec (ts t1) - ts_sec (ts t2)" and ?n = "ts_nsec (ts t1) - ts_nsec (ts t2)"
  have l: "ll ?s = Inr ?s" "ll ?n = Inr ?n" using w by (intro ll_ok; linarith)+
  have "tst_ts_diff t1 t2 =
      bindr (tst_ts_set_sec (ts_of_type (ts_type t1)) ?s) (\<lambda>res. bindr (tst_ts_set_nsec res ?n) tst_ts_normalize)"
    using w l by (simp add: tst_ts_diff_def)
  then show ?thesis using set_both_normalize [of "ts_type t1" ?s ?n] w by (simp add: ns_def algebra_simps)
qed

lemma us_parts:
  assumes "i64 us \<noteq> None"
  shows "us = us sdiv 1000000 * 1000000 + us smod 1000000" "\<bar>us smod 1000000\<bar> < 1000000" "\<bar>us sdiv 1000000\<bar> \<le> 1152921504606846976"
proof -
  have "\<bar>us\<bar> \<le> 2 ^ 63" using assms by (auto simp: i64_def LLONG_MIN_def LLONG_MAX_def split: if_splits)
  then have "\<bar>us\<bar> div 1000000 \<le> 2 ^ 63 div 1000000" by (rule zdiv_mono1) simp
  then show "\<bar>us sdiv 1000000\<bar> \<le> 1152921504606846976" using trunc_div(3) [of 1000000 us] by simp
qed (use trunc_div [of 1000000 us] in simp_all)

lemma add_us_yields:
  assumes "wf_ts t" "i64 us \<noteq> None"
  shows "yields (tst_ts_add_us t us) (ts_type t) (ns (ts t) + us * 1000)"
proof -
  note w = wf_tsD [OF assms(1)] us_parts [OF assms(2)]
  let ?s = "ts_sec (ts t) + us sdiv 1000000" and ?n = "ts_nsec (ts t) + (us smod 1000000) * 1000"
  have l: "ll ?s = Inr ?s" "ll ?n = Inr ?n" using w by (intro ll_ok; linarith)+
  have "tst_ts_add_us t us =
      bindr (tst_ts_set_sec (ts_of_type (ts_type t)) ?s) (\<lambda>res. bindr (tst_ts_set_nsec res ?n) tst_ts_normalize)"
    using w(1) l by (simp add: tst_ts_add_us_def)
  moreover have "ns (ts t) + us * 1000 = ?s * 1000000000 + ?n" using w(5) by (simp add: ns_def algebra_simps)
  moreover have "\<bar>?s\<bar> \<le> 4611686018427387904" "- 1000000000 \<le> ?n" "?n < 2000000000" using w(2-4,6,7) by linarith+
  ultimately show ?thesis using set_both_normalize [of "ts_type t" ?s ?n] w(1) by metis
qed

lemma sub_us_yields:
  assumes "wf_ts t" "i64 us \<noteq> None"
  shows "yields (tst_ts_sub_us t us) (ts_type t) (ns (ts t) - us * 1000)"
proof -
  note w = wf_tsD [OF assms(1)] us_parts [OF assms(2)]
  let ?s = "ts_sec (ts t) - us sdiv 1000000" and ?n = "ts_nsec (ts t) - (us smod 1000000) * 1000"
  have l: "ll ?s = Inr ?s" "ll ?n = Inr ?n" using w by (intro ll_ok; linarith)+
  have "tst_ts_sub_us t us =
      bindr (tst_ts_set_sec (ts_of_type (ts_type t)) ?s) (\<lambda>res. bindr (tst_ts_set_nsec res ?n) tst_ts_normalize)"
    using w(1) l by (simp add: tst_ts_sub_us_def)
  moreover have "ns (ts t) - us * 1000 = ?s * 1000000000 + ?n" using w(5) by (simp add: ns_def algebra_simps)
  moreover have "\<bar>?s\<bar> \<le> 4611686018427387904" "- 1000000000 \<le> ?n" "?n < 2000000000" using w(2-4,6,7) by linarith+
  ultimately show ?thesis using set_both_normalize [of "ts_type t" ?s ?n] w(1) by metis
qed

section \<open>Conversions and comparison\<close>

lemma normal_sec_bound:
  assumes "normal t" "\<bar>ns t\<bar> \<le> 9000000000000000000"
  shows "\<bar>ts_sec t\<bar> \<le> 9000000000" "0 \<le> ts_nsec t" "ts_nsec t < 1000000000"
  using assms by (auto simp: normal_def ns_def)

lemma to_ns_ok:
  assumes "known_type (ts_type t)" "normal (ts t)" "\<bar>ns (ts t)\<bar> \<le> 9000000000000000000"
  shows "tst_ts_to_ns t = Inr (ns (ts t))"
  using normal_sec_bound [OF assms(2,3)] assms(1) by (simp add: tst_ts_to_ns_def ll_ok ns_def)

lemma to_us_ok:
  assumes "known_type (ts_type t)" "normal (ts t)" "\<bar>ns (ts t)\<bar> \<le> 9000000000000000000"
  shows "tst_ts_to_us t = Inr ((ns (ts t) + 500) div 1000)"
proof -
  note b = normal_sec_bound [OF assms(2,3)]
  have d: "(ts_nsec (ts t) + 500) sdiv 1000 = (ts_nsec (ts t) + 500) div 1000"
    using b by (intro sdiv_nonneg) auto
  have "(ts_nsec (ts t) + 500) div 1000 \<le> 1000001" "0 \<le> (ts_nsec (ts t) + 500) div 1000" using b by linarith+
  then have "tst_ts_to_us t = Inr (ts_sec (ts t) * 1000000 + (ts_nsec (ts t) + 500) div 1000)"
    using b assms(1) by (simp add: tst_ts_to_us_def ll_ok d)
  moreover have "ns (ts t) + 500 = (ts_nsec (ts t) + 500) + ts_sec (ts t) * 1000000 * 1000" by (simp add: ns_def)
  ultimately show ?thesis by (simp only: div_mult_self1 zero_neq_numeral not_False_eq_True add.commute)
qed

lemma to_ms_ok:
  assumes "known_type (ts_type t)" "normal (ts t)" "\<bar>ns (ts t)\<bar> \<le> 9000000000000000000"
  shows "tst_ts_to_ms t = Inr ((ns (ts t) + 500000) div 1000000)"
proof -
  note b = normal_sec_bound [OF assms(2,3)]
  have d: "(ts_nsec (ts t) + 500000) sdiv 1000000 = (ts_nsec (ts t) + 500000) div 1000000"
    using b by (intro sdiv_nonneg) auto
  have "(ts_nsec (ts t) + 500000) div 1000000 \<le> 1001" "0 \<le> (ts_nsec (ts t) + 500000) div 1000000" using b by linarith+
  then have "tst_ts_to_ms t = Inr (ts_sec (ts t) * 1000 + (ts_nsec (ts t) + 500000) div 1000000)"
    using b assms(1) by (simp add: tst_ts_to_ms_def ll_ok d)
  moreover have "ns (ts t) + 500000 = (ts_nsec (ts t) + 500000) + ts_sec (ts t) * 1000 * 1000000" by (simp add: ns_def)
  ultimately show ?thesis by (simp only: div_mult_self1 zero_neq_numeral not_False_eq_True add.commute)
qed

lemma lt_ok:
  assumes "wf_ts t1" "wf_ts t2"
  shows "tst_ts_lt t1 t2 = Inr (ns (ts t1) < ns (ts t2))"
  using wf_tsD [OF assms(1)] wf_tsD [OF assms(2)] by (auto simp: tst_ts_lt_def ns_def)

lemma abs_diff_yields:
  assumes "wf_ts t1" "wf_ts t2"
  shows "yields (tst_ts_abs_diff t1 t2) (if ns (ts t1) < ns (ts t2) then ts_type t2 else ts_type t1)
    \<bar>ns (ts t1) - ns (ts t2)\<bar>"
  using diff_yields [OF assms] diff_yields [OF assms(2,1)] by (auto simp: tst_ts_abs_diff_def lt_ok assms)

lemma converted:
  assumes "yields m ty v" "known_type ty" "\<bar>v\<bar> \<le> 9000000000000000000"
  shows "bindr m tst_ts_to_ns = Inr v" "bindr m tst_ts_to_us = Inr ((v + 500) div 1000)"
    "bindr m tst_ts_to_ms = Inr ((v + 500000) div 1000000)"
  using assms by (auto elim!: yieldsE simp: to_ns_ok to_us_ok to_ms_ok)

lemma known_type_diff:
  "wf_ts t1 \<Longrightarrow> wf_ts t2 \<Longrightarrow> known_type (if b then ts_type t2 else ts_type t1)"
  by (simp add: wf_ts_def)

section \<open>Round trips\<close>

lemma from_ns_eq: "known_type ty \<Longrightarrow>
    tst_ts_from_ns ty v = Inr \<lparr>ts_type = ty, ts = \<lparr>ts_sec = v sdiv 1000000000, ts_nsec = v smod 1000000000\<rparr>\<rparr>"
  by (simp add: tst_ts_from_ns_def ts_of_type_def)

lemma from_us_eq: "known_type ty \<Longrightarrow>
    tst_ts_from_us ty v = Inr \<lparr>ts_type = ty, ts = \<lparr>ts_sec = v sdiv 1000000, ts_nsec = (v smod 1000000) * 1000\<rparr>\<rparr>"
  by (simp add: tst_ts_from_us_def ts_of_type_def)

lemma from_ms_eq: "known_type ty \<Longrightarrow>
    tst_ts_from_ms ty v = Inr \<lparr>ts_type = ty, ts = \<lparr>ts_sec = v sdiv 1000, ts_nsec = (v smod 1000) * 1000000\<rparr>\<rparr>"
  by (simp add: tst_ts_from_ms_def ts_of_type_def)

lemma timespec_from_us_eq:
  "tst_timespec_from_us v = Inr \<lparr>ts_sec = v sdiv 1000000, ts_nsec = (v smod 1000000) * 1000\<rparr>"
  by (simp add: tst_timespec_from_us_def from_us_eq tst_ts_to_timespec_def)

text \<open>The whole part of a number that fits, scaled back, still fits.\<close>

lemma trunc_fits:
  assumes "i64 v \<noteq> None" "0 < k"
  shows "ll (v sdiv k * k) = Inr (v sdiv k * k)" "ll v = Inr v"
proof -
  have r: "- 9223372036854775808 \<le> v" "v \<le> 9223372036854775807"
    using assms by (auto simp: i64_def LLONG_MIN_def LLONG_MAX_def split: if_splits)
  then show "ll v = Inr v" by (rule ll_ok)
  have "\<bar>v sdiv k\<bar> * k \<le> \<bar>v\<bar> div k * k" using trunc_div(3) [OF assms(2), of v] assms(2) by (intro mult_right_mono) auto
  also have "\<dots> \<le> \<bar>v\<bar>" using assms(2) by (simp add: minus_mod_eq_div_mult [symmetric])
  finally have b: "\<bar>v sdiv k * k\<bar> \<le> \<bar>v\<bar>" using assms(2) by (simp add: abs_mult)
  have "v sdiv k \<le> 0" if "v < 0"
    using that assms(2) pos_imp_zdiv_nonneg_iff [of k "\<bar>v\<bar>"] by (simp add: signed_divide_int_def)
  then have "v sdiv k * k \<le> 0 \<or> 0 \<le> v" using assms(2) by (auto simp: mult_le_0_iff)
  then show "ll (v sdiv k * k) = Inr (v sdiv k * k)" using b r by (intro ll_ok) linarith+
qed

lemma ns_roundtrip:
  assumes "known_type ty" "i64 v \<noteq> None"
  shows "bindr (tst_ts_from_ns ty v) tst_ts_to_ns = Inr v"
  using assms trunc_fits [OF assms(2), of 1000000000]
  by (simp add: from_ns_eq tst_ts_to_ns_def sdiv_mult_smod_eq)

lemma half_up: "0 \<le> (r::int) \<Longrightarrow> 0 < k \<Longrightarrow> (r * (2 * k) + k) sdiv (2 * k) = r"
  by (subst sdiv_nonneg) auto

lemma us_roundtrip:
  assumes "known_type ty" "i64 v \<noteq> None" "0 \<le> v"
  shows "bindr (tst_ts_from_us ty v) tst_ts_to_us = Inr v"
proof -
  have r: "0 \<le> v smod 1000000" "v smod 1000000 < 1000000" using assms(3) by (simp_all add: smod_nonneg)
  then have "(v smod 1000000 * 1000 + 500) sdiv 1000 = v smod 1000000"
    using half_up [of "v smod 1000000" 500] by simp
  then show ?thesis
    using assms trunc_fits [OF assms(2), of 1000000] r
    by (simp add: from_us_eq tst_ts_to_us_def ll_ok sdiv_mult_smod_eq)
qed

lemma ms_roundtrip:
  assumes "known_type ty" "i64 v \<noteq> None" "0 \<le> v"
  shows "bindr (tst_ts_from_ms ty v) tst_ts_to_ms = Inr v"
proof -
  have r: "0 \<le> v smod 1000" "v smod 1000 < 1000" using assms(3) by (simp_all add: smod_nonneg)
  then have "(v smod 1000 * 1000000 + 500000) sdiv 1000000 = v smod 1000"
    using half_up [of "v smod 1000" 500000] by simp
  then show ?thesis
    using assms trunc_fits [OF assms(2), of 1000] r
    by (simp add: from_ms_eq tst_ts_to_ms_def ll_ok sdiv_mult_smod_eq)
qed

lemma timeval_roundtrip:
  assumes "i64 v \<noteq> None"
  shows "tst_timeval_to_us (tst_us_to_timeval v) = Inr v"
    and "0 \<le> v \<Longrightarrow> tst_timeval_to_ms (tst_ms_to_timeval v) = Inr v"
proof -
  show "tst_timeval_to_us (tst_us_to_timeval v) = Inr v"
    using trunc_fits [OF assms, of 1000000] by (simp add: tst_timeval_to_us_def tst_us_to_timeval_def sdiv_mult_smod_eq)
  assume "0 \<le> v"
  then have r: "0 \<le> v smod 1000" "v smod 1000 < 1000" by (simp_all add: smod_nonneg)
  then have "(v smod 1000 * 1000 + 500) sdiv 1000 = v smod 1000"
    using half_up [of "v smod 1000" 500] by simp
  then show "tst_timeval_to_ms (tst_ms_to_timeval v) = Inr v"
    using trunc_fits [OF assms, of 1000] r by (simp add: tst_timeval_to_ms_def tst_ms_to_timeval_def ll_ok sdiv_mult_smod_eq)
qed

section \<open>Accessors as cells\<close>

text \<open>The contract that \<^verbatim>\<open>struct tst_ts\<close> and the two members of \<^verbatim>\<open>struct tst_its\<close> share: seconds and nanoseconds
  are independent variables, and an unknown type stops the test.\<close>

locale time_cell =
  fixes get_sec get_nsec :: "'c \<Rightarrow> timer_fault + int"
    and set_sec set_nsec :: "'c \<Rightarrow> int \<Rightarrow> timer_fault + 'c"
    and ok :: "'c \<Rightarrow> bool" and frame :: "'c \<Rightarrow> 'f"
  assumes set_sec: "ok c \<Longrightarrow> \<exists>d. set_sec c s = Inr d \<and> ok d \<and> frame d = frame c \<and> get_sec d = Inr s \<and> get_nsec d = get_nsec c"
    and set_nsec: "ok c \<Longrightarrow> \<exists>d. set_nsec c n = Inr d \<and> ok d \<and> frame d = frame c \<and> get_sec d = get_sec c \<and> get_nsec d = Inr n"
    and set_bad: "\<not> ok c \<Longrightarrow> \<exists>m. set_sec c s = Inl (Brk TBROK m)"
begin

lemma set_both:
  assumes "ok c"
  shows "\<exists>d. bindr (set_sec c s) (\<lambda>c'. set_nsec c' n) = Inr d \<and> ok d \<and> frame d = frame c
    \<and> get_sec d = Inr s \<and> get_nsec d = Inr n"
proof -
  obtain d where d: "set_sec c s = Inr d" "ok d" "frame d = frame c" "get_sec d = Inr s"
    using set_sec [OF assms] by blast
  then show ?thesis using set_nsec [OF d(2), of n] by auto
qed

lemma set_both_bad: "\<not> ok c \<Longrightarrow> \<exists>m. bindr (set_sec c s) f = Inl (Brk TBROK m)"
  using set_bad [of c s] by auto

end

fun kernel_type :: "tst_ts_type \<Rightarrow> bool" where
  "kernel_type TST_KERN_OLD_TIMESPEC = True"
| "kernel_type TST_KERN_TIMESPEC = True"
| "kernel_type _ = False"

interpretation tsc: time_cell tst_ts_get_sec tst_ts_get_nsec tst_ts_set_sec tst_ts_set_nsec
  "\<lambda>t. known_type (ts_type t)" ts_type
proof
  fix c :: tst_ts and s
  assume "\<not> known_type (ts_type c)"
  then show "\<exists>m. tst_ts_set_sec c s = Inl (Brk TBROK m)"
    by (cases "ts_type c") (simp_all add: tst_ts_set_sec_def invalid_type_def)
qed simp_all

interpretation itv: time_cell tst_its_get_interval_sec tst_its_get_interval_nsec
  tst_its_set_interval_sec tst_its_set_interval_nsec "\<lambda>c. kernel_type (its_type c)" "\<lambda>c. (its_type c, it_value c)"
  by (unfold_locales; case_tac "its_type c";
      simp add: tst_its_set_interval_sec_def tst_its_set_interval_nsec_def tst_its_get_interval_sec_def
        tst_its_get_interval_nsec_def invalid_type_def)

interpretation vlu: time_cell tst_its_get_value_sec tst_its_get_value_nsec
  tst_its_set_value_sec tst_its_set_value_nsec "\<lambda>c. kernel_type (its_type c)" "\<lambda>c. (its_type c, it_interval c)"
  by (unfold_locales; case_tac "its_type c";
      simp add: tst_its_set_value_sec_def tst_its_set_value_nsec_def tst_its_get_value_sec_def
        tst_its_get_value_nsec_def invalid_type_def)

section \<open>Properties\<close>

text \<open>C8. The arithmetic of \<^verbatim>\<open>struct tst_ts\<close> implements the arithmetic of integers: for normalised arguments of any
  known types the sum, the difference, and the sum and difference with any number of microseconds (also a
  negative one) are computed without overflow, are normalised, have the type of the first argument, and stand
  for exactly that number of nanoseconds.\<close>

theorem ts_arith_refines:
  assumes "wf_ts t1" "wf_ts t2" "i64 us \<noteq> None"
  shows "yields (tst_ts_add t1 t2) (ts_type t1) (ns (ts t1) + ns (ts t2))
    \<and> yields (tst_ts_diff t1 t2) (ts_type t1) (ns (ts t1) - ns (ts t2))
    \<and> yields (tst_ts_add_us t1 us) (ts_type t1) (ns (ts t1) + us * 1000)
    \<and> yields (tst_ts_sub_us t1 us) (ts_type t1) (ns (ts t1) - us * 1000)"
  by (intro conjI add_yields diff_yields add_us_yields sub_us_yields assms)

theorem ts_arith_refines_witness:
  "let t1 = \<lparr>ts_type = TST_KERN_TIMESPEC, ts = \<lparr>ts_sec = 1, ts_nsec = 999999999\<rparr>\<rparr>;
       t2 = \<lparr>ts_type = TST_LIBC_TIMESPEC, ts = \<lparr>ts_sec = 2, ts_nsec = 5\<rparr>\<rparr> in
     yields (tst_ts_add t1 t2) TST_KERN_TIMESPEC 4000000004
     \<and> yields (tst_ts_diff t1 t2) TST_KERN_TIMESPEC (- 6)
     \<and> yields (tst_ts_sub_us t1 (- 7)) TST_KERN_TIMESPEC 2000006999"
proof -
  let ?t1 = "\<lparr>ts_type = TST_KERN_TIMESPEC, ts = \<lparr>ts_sec = 1, ts_nsec = 999999999\<rparr>\<rparr>"
  let ?t2 = "\<lparr>ts_type = TST_LIBC_TIMESPEC, ts = \<lparr>ts_sec = 2, ts_nsec = 5\<rparr>\<rparr>"
  have "wf_ts ?t1" "wf_ts ?t2" "i64 (- 7) \<noteq> None" by code_simp+
  from ts_arith_refines [OF this] show ?thesis by (simp add: ns_def)
qed

text \<open>C21. Comparison and differences of normalised times are those of the numbers of nanoseconds, and the
  conversions to microseconds and milliseconds round to the nearest, halves upwards, also for negative
  differences.\<close>

theorem ts_diff_correct:
  assumes "wf_ts t1" "wf_ts t2" "\<bar>ns (ts t1)\<bar> \<le> 4000000000000000000" "\<bar>ns (ts t2)\<bar> \<le> 4000000000000000000"
  shows "let d = ns (ts t1) - ns (ts t2) in
    tst_ts_lt t1 t2 = Inr (d < 0)
    \<and> tst_ts_diff_ns t1 t2 = Inr d
    \<and> tst_ts_diff_us t1 t2 = Inr ((d + 500) div 1000)
    \<and> tst_ts_diff_ms t1 t2 = Inr ((d + 500000) div 1000000)
    \<and> tst_ts_abs_diff_us t1 t2 = Inr ((\<bar>d\<bar> + 500) div 1000)
    \<and> tst_ts_abs_diff_ms t1 t2 = Inr ((\<bar>d\<bar> + 500000) div 1000000)"
proof -
  have k: "known_type (ts_type t1)" using assms(1) by (simp add: wf_ts_def)
  have b: "\<bar>ns (ts t1) - ns (ts t2)\<bar> \<le> 9000000000000000000" using assms(3,4) by linarith
  have "\<bar>\<bar>ns (ts t1) - ns (ts t2)\<bar>\<bar> \<le> 9000000000000000000" using b by simp
  note c = converted [OF diff_yields [OF assms(1,2)] k b]
    converted [OF abs_diff_yields [OF assms(1,2)] known_type_diff [OF assms(1,2)] this]
  show ?thesis
    by (simp add: Let_def lt_ok assms(1,2) tst_ts_diff_ns_def tst_ts_diff_us_def tst_ts_diff_ms_def
        tst_ts_abs_diff_us_def tst_ts_abs_diff_ms_def c)
qed

theorem ts_diff_correct_witness:
  "let t1 = \<lparr>ts_type = TST_LIBC_TIMESPEC, ts = \<lparr>ts_sec = 1, ts_nsec = 0\<rparr>\<rparr>;
       t2 = \<lparr>ts_type = TST_KERN_OLD_TIMESPEC, ts = \<lparr>ts_sec = 2, ts_nsec = 600000\<rparr>\<rparr> in
     tst_ts_lt t1 t2 = Inr True \<and> tst_ts_diff_ms t1 t2 = Inr (- 1001) \<and> tst_ts_abs_diff_us t1 t2 = Inr 1000600"
proof -
  let ?t1 = "\<lparr>ts_type = TST_LIBC_TIMESPEC, ts = \<lparr>ts_sec = 1, ts_nsec = 0\<rparr>\<rparr>"
  let ?t2 = "\<lparr>ts_type = TST_KERN_OLD_TIMESPEC, ts = \<lparr>ts_sec = 2, ts_nsec = 600000\<rparr>\<rparr>"
  have "wf_ts ?t1" "wf_ts ?t2" "\<bar>ns (ts ?t1)\<bar> \<le> 4000000000000000000" "\<bar>ns (ts ?t2)\<bar> \<le> 4000000000000000000"
    by code_simp+
  from ts_diff_correct [OF this] show ?thesis by (simp add: ns_def Let_def)
qed

text \<open>C33. Converting a number that fits \<^verbatim>\<open>long long\<close> to a time and back gives it again: for nanoseconds in
  \<^verbatim>\<open>struct tst_ts\<close> and microseconds in \<^verbatim>\<open>struct timeval\<close> always, for the conversions that round when the number
  is not negative.\<close>

theorem time_roundtrips:
  assumes "known_type ty" "i64 v \<noteq> None"
  shows "bindr (tst_ts_from_ns ty v) tst_ts_to_ns = Inr v
    \<and> tst_timeval_to_us (tst_us_to_timeval v) = Inr v
    \<and> (0 \<le> v \<longrightarrow> bindr (tst_ts_from_us ty v) tst_ts_to_us = Inr v
        \<and> bindr (tst_ts_from_ms ty v) tst_ts_to_ms = Inr v
        \<and> tst_timeval_to_ms (tst_ms_to_timeval v) = Inr v)"
  using assms by (intro conjI impI ns_roundtrip us_roundtrip ms_roundtrip timeval_roundtrip)

theorem time_roundtrips_witness:
  "bindr (tst_ts_from_ns TST_KERN_TIMESPEC (- 9223372036854775808)) tst_ts_to_ns = Inr (- 9223372036854775808)
   \<and> bindr (tst_ts_from_ms TST_LIBC_TIMESPEC 1234567) tst_ts_to_ms = Inr 1234567"
proof -
  have "i64 (- 9223372036854775808) \<noteq> None" "i64 1234567 \<noteq> None" by code_simp+
  then show ?thesis
    using time_roundtrips [of TST_KERN_TIMESPEC "- 9223372036854775808"] time_roundtrips [of TST_LIBC_TIMESPEC 1234567]
    by simp
qed





section \<open>Observations\<close>

text \<open>The rounding conversions add one half before a division that rounds towards 0, so a negative number does not
  survive the round trip.\<close>

lemma us_roundtrip_negative: "bindr (tst_ts_from_us TST_LIBC_TIMESPEC (- 1)) tst_ts_to_us = Inr 0"
  by code_simp

lemma timeval_ms_negative: "tst_timeval_to_ms (tst_ms_to_timeval (- 1)) = Inr 0"
  by code_simp

text \<open>\<^verbatim>\<open>tst_timer_expired_ms(1000)\<close> already holds after 999.5 milliseconds.\<close>

lemma expired_early:
  "tst_timer_expired_ms (\<lambda>_. Inr \<lparr>ts_sec = 0, ts_nsec = 999500000\<rparr>) 1000
     \<lparr>start_time = \<lparr>ts_sec = 0, ts_nsec = 0\<rparr>, stop_time = \<lparr>ts_sec = 0, ts_nsec = 0\<rparr>, clock_id = 0\<rparr> = ([], Inr True)"
  by code_simp

end
