(* ===== verification/Splitstr.thy ===== *)
theory Splitstr
  imports C_Library
begin

text \<open>
  \<^verbatim>\<open>pan/splitstr.c\<close>: splitting a string into an array of words that ends with null pointers. Whether an allocation of
  that many array elements succeeds is an argument. A cell of fresh memory is \<open>Uninit\<close>.
\<close>

datatype cell = Uninit | Null | Ptr cstr

datatype split_error = Exit_1 | Array_end

text \<open>The loop over the words: \<open>num_toks\<close> is \<open>num\<close>, \<open>max_toks\<close> is \<open>mx\<close>.\<close>

fun split_loop ::
  "(nat \<Rightarrow> bool) \<Rightarrow> cstr list \<Rightarrow> cell list \<Rightarrow> nat \<Rightarrow> nat \<Rightarrow> split_error + cell list \<times> nat \<times> nat" where
  "split_loop alloc [] arr num mx = Inr (arr, num, mx)"
| "split_loop alloc (cur_tok # toks) arr num mx =
     (if length arr \<le> num then Inl Array_end
      else let arr = arr[num := Ptr cur_tok]; num = num + 1 in
        if num = mx then
          if alloc (mx + 20) then split_loop alloc toks (arr @ replicate 20 Uninit) num (mx + 20)
          else Inl Exit_1
        else split_loop alloc toks arr num mx)"

text \<open>\<^verbatim>\<open>for (i = num_toks + 1; i < max_toks; i++) arr[i] = NULL\<close>, after the cell of \<open>num_toks\<close> itself.\<close>

definition null_rest :: "cell list \<Rightarrow> nat \<Rightarrow> nat \<Rightarrow> cell list" where
  "null_rest arr num mx = fold (\<lambda>i a. a[i := Null]) [num + 1..<mx] (arr[num := Null])"

definition separators :: "cstr option \<Rightarrow> cstr" where
  "separators separator = (case separator of None \<Rightarrow> [SPACE, TAB] | Some p \<Rightarrow> p)"

text \<open>The array (or a null pointer) and what is stored through \<^verbatim>\<open>argcount\<close>.\<close>

definition splitstr ::
  "(nat \<Rightarrow> bool) \<Rightarrow> cstr option \<Rightarrow> cstr option \<Rightarrow> split_error + cell list option \<times> nat" where
  "splitstr alloc str separator =
     (case str of
        None \<Rightarrow> Inr (None, 0)
      | Some s \<Rightarrow>
          if \<not> alloc 20 then Inr (None, 0)
          else case split_loop alloc (strtok s (separators separator)) (replicate 20 Uninit) 0 20 of
              Inl e \<Rightarrow> Inl e
            | Inr (arr, num, mx) \<Rightarrow>
                if length arr \<le> num \<or> length arr < mx then Inl Array_end
                else Inr (Some (null_rest arr num mx), num))"

text \<open>\<^verbatim>\<open>splitstr_free\<close> reads the first element before it looks at the pointer itself; the result says whether that is
  possible.\<close>

definition splitstr_free :: "cell list option \<Rightarrow> bool" where
  "splitstr_free p_return = (case p_return of None \<Rightarrow> False | Some arr \<Rightarrow> arr \<noteq> [])"

section \<open>Lemmas\<close>

lemma split_loop_spec:
  assumes "num < mx" "length arr = mx"
  shows "(\<forall>n. alloc n) \<Longrightarrow> \<exists>arr' mx'. split_loop alloc toks arr num mx = Inr (arr', num + length toks, mx')
      \<and> num + length toks < mx' \<and> length arr' = mx' \<and> take (num + length toks) arr' = take num arr @ map Ptr toks"
    and "split_loop alloc toks arr num mx \<noteq> Inl Array_end"
    and "split_loop alloc toks arr num mx = Inr (arr', num', mx') \<Longrightarrow> num' < mx' \<and> length arr' = mx'"
  using assms
proof (induction toks arbitrary: arr num mx)
  case (Cons t ts)
  {
    case 1
    define arr1 where "arr1 = arr[num := Ptr t] @ (if num + 1 = mx then replicate 20 Uninit else [])"
    define mx1 where "mx1 = (if num + 1 = mx then mx + 20 else mx)"
    have e: "split_loop alloc (t # ts) arr num mx = split_loop alloc ts arr1 (num + 1) mx1"
      using 1 by (auto simp: arr1_def mx1_def Let_def)
    have p: "num + 1 < mx1" "length arr1 = mx1" using 1 by (auto simp: arr1_def mx1_def)
    have t: "take (num + 1) arr1 = take num arr @ [Ptr t]"
      using 1 by (simp add: arr1_def take_Suc_conv_app_nth)
    show ?case using Cons.IH(1) [OF 1(1) p] unfolding e t by (simp add: add.commute add.left_commute)
  next
    case 2
    then show ?case using Cons.IH(2) by (auto simp: Let_def)
  next
    case 3
    then show ?case using Cons.IH(3) by (auto simp: Let_def split: if_splits)
  }
qed (auto)

lemma null_rest_nth:
  assumes "length arr = mx" "i < mx"
  shows "null_rest arr num mx ! i = (if num \<le> i then Null else arr ! i)" "length (null_rest arr num mx) = mx"
proof -
  have f: "length (fold (\<lambda>i a. a[i := Null]) js a) = length a
      \<and> (\<forall>i < length a. fold (\<lambda>i a. a[i := Null]) js a ! i = (if i \<in> set js then Null else a ! i))" for js and a :: "cell list"
    by (induction js arbitrary: a) auto
  show "length (null_rest arr num mx) = mx" using f assms(1) by (simp add: null_rest_def)
  show "null_rest arr num mx ! i = (if num \<le> i then Null else arr ! i)"
    using f [of "[num + 1..<mx]" "arr[num := Null]"] assms
    by (cases "i = num") (auto simp: null_rest_def)
qed

lemma strtok_tokens:
  "t \<in> set (strtok s sep) \<Longrightarrow> t \<noteq> [] \<and> set t \<inter> set sep = {}"
proof (induction s sep rule: strtok.induct)
  case (1 s sep)
  define p where "p = dropWhile (\<lambda>c. c \<in> set sep) s"
  show ?case
  proof (cases "p = []")
    case True
    then show ?thesis using 1(2) by (subst (asm) strtok.simps) (simp add: p_def [symmetric])
  next
    case False
    have "hd p \<notin> set sep" using False unfolding p_def by (metis hd_dropWhile)
    then have "takeWhile (\<lambda>c. c \<notin> set sep) p \<noteq> []" using False by (cases p) auto
    moreover have "set (takeWhile (\<lambda>c. c \<notin> set sep) p) \<inter> set sep = {}" by (auto dest: set_takeWhileD)
    moreover have "t = takeWhile (\<lambda>c. c \<notin> set sep) p \<or> t \<in> set (strtok (dropWhile (\<lambda>c. c \<notin> set sep) p) sep)"
      using 1(2) False by (subst (asm) strtok.simps) (auto simp: p_def [symmetric] Let_def)
    ultimately show ?thesis by (elim disjE) (simp_all add: 1(1) [OF p_def False])
  qed
qed

lemma strtok_concat: "concat (strtok s sep) = filter (\<lambda>c. c \<notin> set sep) s"
proof (induction s sep rule: strtok.induct)
  case (1 s sep)
  define p where "p = dropWhile (\<lambda>c. c \<in> set sep) s"
  have fs: "filter (\<lambda>c. c \<notin> set sep) s = filter (\<lambda>c. c \<notin> set sep) p"
    unfolding p_def by (induction s) auto
  have fp: "filter (\<lambda>c. c \<notin> set sep) p = takeWhile (\<lambda>c. c \<notin> set sep) p @ filter (\<lambda>c. c \<notin> set sep) (dropWhile (\<lambda>c. c \<notin> set sep) p)"
    by (induction p) auto
  show ?case
  proof (cases "p = []")
    case True
    then show ?thesis using fs by (subst strtok.simps) (simp add: p_def [symmetric])
  next
    case False
    then show ?thesis using 1 [OF p_def False] fs fp by (subst strtok.simps) (simp add: p_def [symmetric] Let_def)
  qed
qed

section \<open>Properties\<close>



section \<open>Observations\<close>

text \<open>The null pointer that \<^verbatim>\<open>splitstr\<close> returns on an error must not be passed to \<^verbatim>\<open>splitstr_free\<close>.\<close>

lemma splitstr_free_null: "splitstr alloc None sep = Inr (None, 0) \<and> \<not> splitstr_free None"
  by (simp add: splitstr_def splitstr_free_def)

end
