(* ===== verification/Zoo.thy ===== *)
theory Zoo
  imports C_Library "HOL-Library.Multiset"
begin

text \<open>
  \<^verbatim>\<open>pan/zoolib.c\<close>: the file in which the test driver records the running tests. The model has the bytes of the
  file, whether the record lock is held, and the error string. The outcome of the system calls is an argument:
  the results of the successive \<^verbatim>\<open>fcntl(F_SETLKW)\<close> calls and of \<^verbatim>\<open>fseek\<close> (0 or the error number), and the text
  of \<^verbatim>\<open>strerror\<close>. An operation that still waits for the lock has the result \<open>None\<close>. The file is a text file: it
  has no NUL.
\<close>

section \<open>State and system calls\<close>

record zoo =
  zbytes :: cstr
  zlocked :: bool
  zoo_error :: cstr

record zoo_io =
  io_lock :: "int list"
  io_seek :: int
  io_unlock :: "int list"
  io_strerror :: "int \<Rightarrow> cstr"

definition EINTR :: int where "EINTR = 4"

definition ENOENT :: int where "ENOENT = 2"

definition BUFLEN :: nat where "BUFLEN = 81"
definition ZELEN :: nat where "ZELEN = 512"

definition zoo_fail :: "zoo_io \<Rightarrow> cstr \<Rightarrow> int \<Rightarrow> zoo \<Rightarrow> zoo" where
  "zoo_fail io msg e z = z\<lparr>zoo_error := snprintf ZELEN (msg @ '', errno:'' @ sdec e @ '' '' @ io_strerror io e)\<rparr>"

text \<open>\<^verbatim>\<open>do ret = fcntl(...) while (ret == -1 && errno == EINTR)\<close>\<close>

fun wait_lock :: "int list \<Rightarrow> int option" where
  "wait_lock [] = None"
| "wait_lock (e # es) = (if e = EINTR then wait_lock es else Some e)"

definition zoo_lock :: "zoo_io \<Rightarrow> zoo \<Rightarrow> (int \<times> zoo) option" where
  "zoo_lock io z =
     (case wait_lock (io_lock io) of
        None \<Rightarrow> None
      | Some e \<Rightarrow>
          if e \<noteq> 0 then Some (- 1, zoo_fail io ''failed to unlock zoo file'' e z)
          else Some (0, z\<lparr>zlocked := True\<rparr>))"

definition zoo_unlock :: "zoo_io \<Rightarrow> zoo \<Rightarrow> (int \<times> zoo) option" where
  "zoo_unlock io z =
     (case wait_lock (io_unlock io) of
        None \<Rightarrow> None
      | Some e \<Rightarrow>
          if e \<noteq> 0 then Some (- 1, zoo_fail io ''failed to lock zoo file'' e z)
          else Some (0, z\<lparr>zlocked := False\<rparr>))"

section \<open>Names\<close>

definition zoo_getname :: "cstr option \<Rightarrow> cstr option" where
  "zoo_getname ZOO = (case ZOO of None \<Rightarrow> None | Some zoo \<Rightarrow> Some (snprintf 1024 (zoo @ ''/'' @ ''active'')))"

text \<open>\<^verbatim>\<open>zoo_open\<close>: what the three calls of \<^verbatim>\<open>fopen\<close> return (the error number, or the file), should they be
  made; the result is the file, if any, and the error string if one is written.\<close>

definition zoo_open ::
  "(int \<Rightarrow> cstr) \<Rightarrow> cstr \<Rightarrow> int + zoo \<Rightarrow> int + unit \<Rightarrow> int + zoo \<Rightarrow> zoo option \<times> cstr option" where
  "zoo_open strerror zooname open1 create open2 =
     (let failed = (\<lambda>e. snprintf ZELEN (''Could not open zoo as '' @ [DQUOTE] @ zooname @ [DQUOTE] @ '', errno:'' @ sdec e
                       @ '' '' @ strerror e)) in
      case open1 of
        Inr z \<Rightarrow> (Some z, None)
      | Inl e \<Rightarrow>
          if e = ENOENT then
            (case create of
               Inl e' \<Rightarrow> (None, Some (failed e'))
             | Inr u \<Rightarrow> (case open2 of Inl e' \<Rightarrow> (None, None) | Inr z \<Rightarrow> (Some z, None)))
          else (None, Some (failed e)))"

text \<open>\<^verbatim>\<open>cat_args\<close>: the size of the allocated buffer, and the string built in it (\<open>None\<close> when it does not fit).\<close>

fun cat_size :: "cstr list \<Rightarrow> nat" where
  "cat_size [] = 0"
| "cat_size (a # av) = length a + 1 + cat_size av"

fun cat_loop :: "bool \<Rightarrow> cstr list \<Rightarrow> cstr \<Rightarrow> cstr" where
  "cat_loop first [] cmd = cmd"
| "cat_loop first (a # av) cmd = cat_loop False av ((if first then cmd else cmd @ '' '') @ a)"

definition cat_args :: "cstr list \<Rightarrow> cstr option" where
  "cat_args av = (let cmd = cat_loop True av [] in if length cmd + 1 \<le> cat_size av then Some cmd else None)"

section \<open>Entries\<close>

text \<open>\<^verbatim>\<open>fprintf(fp, "%-*.*s\n", n, n, entry)\<close>\<close>

definition pad_line :: "nat \<Rightarrow> cstr \<Rightarrow> cstr" where
  "pad_line n s = take n s @ replicate (n - length s) SPACE @ [NEWLINE]"

definition overwrite :: "nat \<Rightarrow> cstr \<Rightarrow> cstr \<Rightarrow> cstr" where
  "overwrite pos t f = take pos f @ t @ drop (pos + length t) f"

definition atoi :: "cstr \<Rightarrow> int" where
  "atoi s = (case scan_int s of None \<Rightarrow> 0 | Some (v, _) \<Rightarrow> v)"

text \<open>The loops over the lines: the position and text of the first line that satisfies \<open>P\<close>.\<close>

function find_line :: "(cstr \<Rightarrow> bool) \<Rightarrow> nat \<Rightarrow> cstr \<Rightarrow> (nat \<times> cstr) option" where
  "find_line P pos rest =
     (if rest = [] then None
      else let (buf, r) = chunk (BUFLEN - 1) rest in
        if P buf then Some (pos, buf) else find_line P (pos + length buf) r)"
  by pat_completeness auto
termination
proof (relation "measure (\<lambda>(P, pos, rest). length rest)")
  fix P :: "cstr \<Rightarrow> bool" and pos :: nat and rest x buf r
  assume "rest \<noteq> []" "x = chunk (BUFLEN - 1) rest" "(buf, r) = x"
  then show "((P, pos + length buf, r), P, pos, rest) \<in> measure (\<lambda>(P, pos, rest). length rest)"
    using chunk_progress [of 79 "hd rest" "tl rest" buf r] by (simp add: BUFLEN_def)
qed simp

declare find_line.simps [simp del]

definition zoo_mark :: "zoo_io \<Rightarrow> zoo option \<Rightarrow> cstr \<Rightarrow> (int \<times> zoo option) option" where
  "zoo_mark io fp entry =
     (case fp of
        None \<Rightarrow> Some (- 1, fp)
      | Some z \<Rightarrow>
          (case zoo_lock io z of
             None \<Rightarrow> None
           | Some (ret, z) \<Rightarrow>
               if ret \<noteq> 0 then Some (- 1, Some z)
               else case find_line (\<lambda>buf. deref buf = CHR ''#'') 0 (zbytes z) of
                 Some (pos, buf) \<Rightarrow>
                   if io_seek io \<noteq> 0
                   then Some (- 1, Some (zoo_fail io ''seek error while writing to zoo file'' (io_seek io) z))
                   else map_option (\<lambda>(r, z). (if r \<noteq> 0 then - 1 else 0, Some z))
                          (zoo_unlock io (z\<lparr>zbytes := overwrite pos (pad_line (length buf - 1) entry) (zbytes z)\<rparr>))
               | None \<Rightarrow>
                   if io_seek io \<noteq> 0
                   then Some (- 1, Some (zoo_fail io ''error seeking to end of zoo file'' (io_seek io) z))
                   else map_option (\<lambda>(r, z). (if r \<noteq> 0 then - 1 else 0, Some z))
                          (zoo_unlock io (z\<lparr>zbytes := zbytes z @ pad_line 79 entry\<rparr>))))"

definition zoo_entry :: "int \<Rightarrow> cstr \<Rightarrow> cstr \<Rightarrow> cstr" where
  "zoo_entry p tag cmdline = snprintf 80 (sdec p @ '','' @ tag @ '','' @ cmdline)"

definition zoo_mark_cmdline :: "zoo_io \<Rightarrow> zoo option \<Rightarrow> int \<Rightarrow> cstr \<Rightarrow> cstr \<Rightarrow> (int \<times> zoo option) option" where
  "zoo_mark_cmdline io fp p tag cmdline = zoo_mark io fp (zoo_entry p tag cmdline)"

definition zoo_mark_args :: "zoo_io \<Rightarrow> zoo option \<Rightarrow> int \<Rightarrow> cstr \<Rightarrow> cstr list \<Rightarrow> (int \<times> zoo option) option" where
  "zoo_mark_args io fp p tag av =
     (case cat_args av of None \<Rightarrow> None | Some cmdline \<Rightarrow> zoo_mark_cmdline io fp p tag cmdline)"

definition zoo_clear :: "zoo_io \<Rightarrow> zoo option \<Rightarrow> int \<Rightarrow> (int \<times> zoo option) option" where
  "zoo_clear io fp p =
     (case fp of
        None \<Rightarrow> Some (- 1, fp)
      | Some z \<Rightarrow>
          (case zoo_lock io z of
             None \<Rightarrow> None
           | Some (ret, z) \<Rightarrow>
               if ret \<noteq> 0 then Some (- 1, Some z)
               else case find_line (\<lambda>buf. deref buf \<noteq> CHR ''#'' \<and> atoi buf = p) 0 (zbytes z) of
                 Some (pos, buf) \<Rightarrow>
                   if io_seek io \<noteq> 0
                   then Some (- 1, Some (zoo_fail io ''seek error while writing to zoo file'' (io_seek io) z))
                   else map_option (\<lambda>(r, z). (if r \<noteq> 0 then - 1 else 0, Some z))
                          (zoo_unlock io (z\<lparr>zbytes := overwrite pos ''#'' (zbytes z)\<rparr>))
               | None \<Rightarrow>
                   map_option (\<lambda>(r, z).
                       if r \<noteq> 0 then (- 1, Some z)
                       else (1, Some (z\<lparr>zoo_error := snprintf ZELEN (''zoo_clear() did not find pid('' @ sdec p @ '')'')\<rparr>)))
                     (zoo_unlock io z)))"

definition tag_matches :: "cstr \<Rightarrow> cstr \<Rightarrow> bool" where
  "tag_matches tag buf =
     (deref buf \<noteq> CHR ''#'' \<and>
      (case strchr buf CHR '','' of None \<Rightarrow> False | Some s \<Rightarrow> strncmp0 (tl s) tag (length tag)))"

definition zoo_getpid :: "zoo_io \<Rightarrow> zoo option \<Rightarrow> cstr \<Rightarrow> (int \<times> zoo option) option" where
  "zoo_getpid io fp tag =
     (case fp of
        None \<Rightarrow> Some (- 1, fp)
      | Some z \<Rightarrow>
          (case zoo_lock io z of
             None \<Rightarrow> None
           | Some (ret, z) \<Rightarrow>
               if ret \<noteq> 0 then Some (- 1, Some z)
               else let this_pid = (case find_line (tag_matches tag) 0 (zbytes z) of
                                      None \<Rightarrow> - 1 | Some (pos, buf) \<Rightarrow> atoi buf) in
                 map_option (\<lambda>(r, z). (if r \<noteq> 0 then - 1 else this_pid, Some z)) (zoo_unlock io z)))"

section \<open>The file as a list of lines\<close>

definition line_ok :: "cstr \<Rightarrow> bool" where
  "line_ok l = (length l = 79 \<and> NEWLINE \<notin> set l)"

definition ztext :: "cstr list \<Rightarrow> cstr" where
  "ztext ls = concat (map (\<lambda>l. l @ [NEWLINE]) ls)"

text \<open>The lines that are in use, and the process of such a line.\<close>

definition live :: "cstr list \<Rightarrow> cstr list" where
  "live ls = filter (\<lambda>l. deref l \<noteq> CHR ''#'') ls"

definition pid_of :: "cstr \<Rightarrow> int" where
  "pid_of l = atoi (l @ [NEWLINE])"

definition zoo_lines :: "cstr \<Rightarrow> cstr list" where
  "zoo_lines f = map butlast (fgets_all BUFLEN f)"

definition wf_zoo :: "zoo \<Rightarrow> bool" where
  "wf_zoo z = (list_all line_ok (zoo_lines (zbytes z)) \<and> zbytes z = ztext (zoo_lines (zbytes z)))"

definition live_lines :: "zoo \<Rightarrow> cstr list" where
  "live_lines z = live (zoo_lines (zbytes z))"

lemma ztext_simps [simp]: "ztext [] = []" "ztext (l # ls) = l @ NEWLINE # ztext ls" "ztext (ls @ ms) = ztext ls @ ztext ms"
  by (simp_all add: ztext_def)

lemma length_ztext: "list_all line_ok ls \<Longrightarrow> length (ztext ls) = 80 * length ls"
  by (induction ls) (auto simp: line_ok_def)

lemma chunk_ztext: "line_ok l \<Longrightarrow> chunk (BUFLEN - 1) (l @ NEWLINE # r) = (l @ [NEWLINE], r)"
  by (rule chunk_line) (auto simp: line_ok_def BUFLEN_def)

lemma fgets_ztext: "list_all line_ok ls \<Longrightarrow> fgets_all BUFLEN (ztext ls) = map (\<lambda>l. l @ [NEWLINE]) ls"
proof (induction ls)
  case Nil
  show ?case by (subst fgets_all.simps) simp
next
  case (Cons l ls)
  then have "chunk (BUFLEN - 1) (l @ NEWLINE # ztext ls) = (l @ [NEWLINE], ztext ls)"
    by (intro chunk_ztext) simp
  then show ?case using Cons by (subst fgets_all.simps) (simp add: BUFLEN_def)
qed

lemma zoo_lines_ztext: "list_all line_ok ls \<Longrightarrow> zoo_lines (ztext ls) = ls"
  by (simp add: zoo_lines_def fgets_ztext comp_def)

lemma wf_zooI: "zbytes z = ztext ls \<Longrightarrow> list_all line_ok ls \<Longrightarrow> wf_zoo z \<and> live_lines z = live ls"
  by (simp add: wf_zoo_def live_lines_def zoo_lines_ztext)

lemma wf_zooE:
  assumes "wf_zoo z"
  obtains ls where "zbytes z = ztext ls" "list_all line_ok ls" "live_lines z = live ls"
  using assms by (auto simp: wf_zoo_def live_lines_def)

lemma find_line_step:
  assumes "line_ok l"
  shows "find_line P pos (l @ NEWLINE # r) =
    (if P (l @ [NEWLINE]) then Some (pos, l @ [NEWLINE]) else find_line P (pos + 80) r)"
  using chunk_ztext [OF assms] assms by (subst find_line.simps) (simp add: line_ok_def)

lemma find_line_hit:
  assumes "list_all line_ok pre" "list_all (\<lambda>l. \<not> P (l @ [NEWLINE])) pre" "line_ok l" "P (l @ [NEWLINE])"
  shows "find_line P pos (ztext (pre @ l # post)) = Some (pos + 80 * length pre, l @ [NEWLINE])"
  using assms(1,2) by (induction pre arbitrary: pos) (auto simp: find_line_step assms(3,4) simp del: append_assoc)

lemma find_line_miss:
  assumes "list_all line_ok ls" "list_all (\<lambda>l. \<not> P (l @ [NEWLINE])) ls"
  shows "find_line P pos (ztext ls) = None"
  using assms by (induction ls arbitrary: pos) (auto simp: find_line_step find_line.simps [of P _ "[]"])

lemma overwrite_ztext:
  assumes "list_all line_ok pre" "line_ok l" "length t \<le> 80"
  shows "overwrite (80 * length pre) t (ztext (pre @ l # post))
    = ztext pre @ (t @ drop (length t) (l @ [NEWLINE])) @ ztext post"
proof -
  have l: "length (ztext pre) = 80 * length pre" using length_ztext [OF assms(1)] .
  have "drop (length t) (l @ NEWLINE # ztext post) = drop (length t) (l @ [NEWLINE]) @ ztext post"
    using assms(2,3) by (cases "length t = 80") (simp_all add: line_ok_def)
  then show ?thesis unfolding overwrite_def using l by simp
qed

text \<open>A search splits the list of lines at the first match.\<close>

lemma first_match:
  "(list_all (\<lambda>l. \<not> Q l) ls) \<or> (\<exists>pre l post. ls = pre @ l # post \<and> list_all (\<lambda>l. \<not> Q l) pre \<and> Q l)"
proof (cases "\<exists>l \<in> set ls. Q l")
  case True
  then show ?thesis using split_list_first_prop_iff [of ls Q] by (auto simp: list_all_iff)
qed (simp add: list_all_iff)

section \<open>Entries\<close>

abbreviation entry_line :: "int \<Rightarrow> cstr \<Rightarrow> cstr \<Rightarrow> cstr" where
  "entry_line p tag cmd \<equiv> butlast (pad_line 79 (zoo_entry p tag cmd))"

lemma pad_line_eq: "pad_line n s = butlast (pad_line n s) @ [NEWLINE]"
  by (simp add: pad_line_def butlast_append)

lemma entry_line_ok:
  assumes "NEWLINE \<notin> set tag" "NEWLINE \<notin> set cmd"
  shows "line_ok (entry_line p tag cmd)"
proof -
  have "NEWLINE \<notin> set (sdec p)" using sdec_chars [of NEWLINE p] by (auto simp: isdigit_def)
  then have "NEWLINE \<notin> set (zoo_entry p tag cmd)"
    using assms by (auto simp: zoo_entry_def snprintf_def dest: in_set_takeD)
  then show ?thesis by (auto simp: line_ok_def pad_line_def butlast_append dest: in_set_takeD)
qed

text \<open>A 32-bit number and the comma behind it fit the line.\<close>

lemma take_past: "length x < n \<Longrightarrow> take n (x @ c # y) = x @ c # take (n - Suc (length x)) y"
  by (simp add: take_Cons')

lemma scan_int_sdec:
  assumes "r = [] \<or> \<not> isdigit (hd r)"
  shows "scan_int (sdec p @ r) = Some (p, r)"
proof (cases "p < 0")
  case True
  have "\<not> isspace (CHR ''-'')" by code_simp
  then show ?thesis using True span_dec [OF assms, of "nat (- p)"] by (simp add: sdec_def scan_int_def Let_def)
next
  case False
  then show ?thesis using scan_int_dec [OF assms, of "nat p"] by (simp add: sdec_def)
qed

lemma entry_line_head:
  assumes "i32 p \<noteq> None"
  obtains r where "entry_line p tag cmd = sdec p @ CHR '','' # r"
proof -
  have e: "entry_line p tag cmd = take 79 (sdec p @ CHR '','' # tag @ '','' @ cmd) @ replicate (79 - length (zoo_entry p tag cmd)) SPACE"
    by (simp add: pad_line_def zoo_entry_def snprintf_def butlast_append del: take_append)
  have "take 79 (sdec p @ CHR '','' # tag @ '','' @ cmd)
      = sdec p @ CHR '','' # take (79 - Suc (length (sdec p))) (tag @ '','' @ cmd)"
    using length_sdec [OF assms] by (intro take_past) simp
  then show thesis by (intro that) (simp only: e append_assoc append_Cons)
qed

lemma pid_entry: "i32 p \<noteq> None \<Longrightarrow> pid_of (entry_line p tag cmd) = p"
proof (rule entry_line_head [of p tag cmd])
  fix r
  assume "entry_line p tag cmd = sdec p @ CHR '','' # r"
  then show "pid_of (entry_line p tag cmd) = p"
    using scan_int_sdec [of "CHR '','' # r @ [NEWLINE]" p] by (simp add: pid_of_def atoi_def isdigit_def)
qed

lemma live_entry: "i32 p \<noteq> None \<Longrightarrow> deref (entry_line p tag cmd) \<noteq> CHR ''#''"
proof (rule entry_line_head [of p tag cmd])
  fix r
  assume "entry_line p tag cmd = sdec p @ CHR '','' # r"
  then show "deref (entry_line p tag cmd) \<noteq> CHR ''#''"
    using sdec_chars [of "CHR ''#''" p] by (cases "sdec p") (auto simp: isdigit_def)
qed

section \<open>Correctness of the operations\<close>

definition io_ok :: "zoo_io \<Rightarrow> bool" where
  "io_ok io = (wait_lock (io_lock io) = Some 0 \<and> io_seek io = 0 \<and> wait_lock (io_unlock io) = Some 0)"

lemma lock_ok: "io_ok io \<Longrightarrow> zoo_lock io z = Some (0, z\<lparr>zlocked := True\<rparr>)"
  by (simp add: io_ok_def zoo_lock_def)

lemma unlock_ok: "io_ok io \<Longrightarrow> zoo_unlock io z = Some (0, z\<lparr>zlocked := False\<rparr>)"
  by (simp add: io_ok_def zoo_unlock_def)

lemma deref_line: "line_ok l \<Longrightarrow> deref (l @ [NEWLINE]) = deref l"
  by (cases l) (auto simp: line_ok_def)

lemma zoo_mark_spec:
  assumes "io_ok io" "wf_zoo z" "line_ok (butlast (pad_line 79 entry))" "deref (butlast (pad_line 79 entry)) \<noteq> CHR ''#''"
  shows "\<exists>z'. zoo_mark io (Some z) entry = Some (0, Some z') \<and> wf_zoo z' \<and> \<not> zlocked z'
    \<and> mset (live_lines z') = add_mset (butlast (pad_line 79 entry)) (mset (live_lines z))"
proof -
  define e where "e = butlast (pad_line 79 entry)"
  have pe: "pad_line 79 entry = e @ [NEWLINE]" unfolding e_def by (rule pad_line_eq)
  obtain ls where ls: "zbytes z = ztext ls" "list_all line_ok ls" "live_lines z = live ls"
    using wf_zooE [OF assms(2)] .
  let ?free = "\<lambda>l. deref (l @ [NEWLINE]) = CHR ''#''"
  note z = lock_ok [OF assms(1)] unlock_ok [OF assms(1)] assms(1) [unfolded io_ok_def]
  have e: "line_ok e" "deref e \<noteq> CHR ''#''" using assms(3,4) by (simp_all add: e_def)
  from first_match [of ?free ls] show ?thesis
  proof (elim disjE exE conjE)
    assume "list_all (\<lambda>l. \<not> ?free l) ls"
    then have f: "find_line (\<lambda>buf. deref buf = CHR ''#'') 0 (zbytes z) = None"
      unfolding ls(1) using ls(2) by (intro find_line_miss) simp_all
    define z' where "z' = z\<lparr>zlocked := False, zbytes := ztext (ls @ [e])\<rparr>"
    have "zoo_mark io (Some z) entry = Some (0, Some z')"
      using f z by (simp add: zoo_mark_def pe ls(1) z'_def)
    moreover have "wf_zoo z' \<and> live_lines z' = live (ls @ [e])"
      using ls(2) e by (intro wf_zooI) (auto simp: z'_def)
    ultimately show ?thesis using e ls(3) by (simp add: z'_def live_def e_def [symmetric])
  next
    fix pre l post
    assume p: "ls = pre @ l # post" "list_all (\<lambda>l. \<not> ?free l) pre" "?free l"
    have ok: "list_all line_ok pre" "line_ok l" "list_all line_ok post" using ls(2) p(1) by auto
    have f: "find_line (\<lambda>buf. deref buf = CHR ''#'') 0 (zbytes z) = Some (80 * length pre, l @ [NEWLINE])"
      unfolding ls(1) p(1) using find_line_hit [of pre "\<lambda>buf. deref buf = CHR ''#''" l 0] ok p(2,3) by simp
    define z' where "z' = z\<lparr>zlocked := False, zbytes := ztext (pre @ e # post)\<rparr>"
    have "overwrite (80 * length pre) (e @ [NEWLINE]) (zbytes z) = ztext (pre @ e # post)"
      unfolding ls(1) p(1) using overwrite_ztext [OF ok(1,2), of "e @ [NEWLINE]"] e(1) ok(2) by (simp add: line_ok_def)
    then have "zoo_mark io (Some z) entry = Some (0, Some z')"
      using f z ok(2) by (simp add: zoo_mark_def pe line_ok_def z'_def)
    moreover have "wf_zoo z' \<and> live_lines z' = live (pre @ e # post)"
      using ok e by (intro wf_zooI) (auto simp: z'_def)
    moreover have "deref l = CHR ''#''" using p(3) deref_line [OF ok(2)] by simp
    ultimately show ?thesis using e ls(3) p(1) by (simp add: z'_def live_def e_def [symmetric])
  qed
qed

lemma zoo_clear_spec:
  assumes "io_ok io" "wf_zoo z"
  shows "\<exists>z'. wf_zoo z' \<and> \<not> zlocked z' \<and>
    (if p \<in> set (map pid_of (live_lines z))
     then zoo_clear io (Some z) p = Some (0, Some z')
       \<and> (\<exists>l \<in> set (live_lines z). pid_of l = p \<and> mset (live_lines z') = mset (live_lines z) - {#l#})
     else zoo_clear io (Some z) p = Some (1, Some z') \<and> zbytes z' = zbytes z)"
proof -
  obtain ls where ls: "zbytes z = ztext ls" "list_all line_ok ls" "live_lines z = live ls"
    using wf_zooE [OF assms(2)] .
  let ?P = "\<lambda>buf. deref buf \<noteq> CHR ''#'' \<and> atoi buf = p"
  let ?Q = "\<lambda>l. deref (l @ [NEWLINE]) \<noteq> CHR ''#'' \<and> atoi (l @ [NEWLINE]) = p"
  have Q: "?Q l \<longleftrightarrow> deref l \<noteq> CHR ''#'' \<and> pid_of l = p" if "line_ok l" for l
    using deref_line [OF that] by (simp add: pid_of_def)
  note z = lock_ok [OF assms(1)] unlock_ok [OF assms(1)] assms(1) [unfolded io_ok_def]
  from first_match [of ?Q ls] show ?thesis
  proof (elim disjE exE conjE)
    assume n: "list_all (\<lambda>l. \<not> ?Q l) ls"
    then have f: "find_line ?P 0 (zbytes z) = None"
      unfolding ls(1) using ls(2) by (intro find_line_miss) simp_all
    have "p \<notin> set (map pid_of (live_lines z))"
      using n ls(2) Q by (auto simp: ls(3) live_def list_all_iff)
    moreover have "zoo_clear io (Some z) p = Some (1, Some (z\<lparr>zlocked := False,
        zoo_error := snprintf ZELEN (''zoo_clear() did not find pid('' @ sdec p @ '')'')\<rparr>))"
      using f z by (simp add: zoo_clear_def)
    ultimately show ?thesis using assms(2) by (simp add: wf_zoo_def)
  next
    fix pre l post
    assume p: "ls = pre @ l # post" "list_all (\<lambda>l. \<not> ?Q l) pre" "deref (l @ [NEWLINE]) \<noteq> CHR ''#''"
      "atoi (l @ [NEWLINE]) = p"
    have ok: "list_all line_ok pre" "line_ok l" "list_all line_ok post" using ls(2) p(1) by auto
    have l: "deref l \<noteq> CHR ''#''" "pid_of l = p" using Q [OF ok(2)] p(3,4) by auto
    have lv: "live_lines z = live pre @ l # live post" using ls(3) p(1) l by (simp add: live_def)
    have f: "find_line ?P 0 (zbytes z) = Some (80 * length pre, l @ [NEWLINE])"
      unfolding ls(1) p(1) using find_line_hit [of pre ?P l 0] ok p(2-4) by simp
    define z' where "z' = z\<lparr>zlocked := False, zbytes := ztext (pre @ (CHR ''#'' # tl l) # post)\<rparr>"
    have n: "l \<noteq> []" "line_ok (CHR ''#'' # tl l)" using ok(2) by (cases l; auto simp: line_ok_def)+
    have "overwrite (80 * length pre) ''#'' (zbytes z) = ztext (pre @ (CHR ''#'' # tl l) # post)"
      unfolding ls(1) p(1) using overwrite_ztext [OF ok(1,2), of "''#''"] n(1) by (cases l) simp_all
    then have "zoo_clear io (Some z) p = Some (0, Some z')"
      using f z by (simp add: zoo_clear_def z'_def)
    moreover have "wf_zoo z' \<and> live_lines z' = live (pre @ (CHR ''#'' # tl l) # post)"
      using ok n by (intro wf_zooI) (auto simp: z'_def)
    ultimately show ?thesis using l lv by (intro exI [of _ z']) (simp add: z'_def live_def)
  qed
qed

text \<open>The processes recorded in a zoo file.\<close>

definition zoo_pids :: "zoo \<Rightarrow> int multiset" where
  "zoo_pids z = mset (map pid_of (live_lines z))"

definition plain :: "cstr \<Rightarrow> bool" where
  "plain s = (NEWLINE \<notin> set s)"

text \<open>What the test driver relies on: a registry of processes.\<close>

locale process_registry =
  fixes mark :: "'z \<Rightarrow> int \<Rightarrow> cstr \<Rightarrow> cstr \<Rightarrow> (int \<times> 'z option) option"
    and clear :: "'z \<Rightarrow> int \<Rightarrow> (int \<times> 'z option) option"
    and pids :: "'z \<Rightarrow> int multiset" and inv :: "'z \<Rightarrow> bool"
  assumes mark: "inv z \<Longrightarrow> i32 p \<noteq> None \<Longrightarrow> plain tag \<Longrightarrow> plain cmd
      \<Longrightarrow> \<exists>z'. mark z p tag cmd = Some (0, Some z') \<and> inv z' \<and> pids z' = add_mset p (pids z)"
    and clear: "inv z \<Longrightarrow> p \<in># pids z \<Longrightarrow> \<exists>z'. clear z p = Some (0, Some z') \<and> inv z' \<and> pids z' = pids z - {#p#}"
    and clear_unknown: "inv z \<Longrightarrow> p \<notin># pids z \<Longrightarrow> \<exists>z'. clear z p = Some (1, Some z') \<and> inv z' \<and> pids z' = pids z"
begin

lemma mark_clear:
  assumes "inv z" "i32 p \<noteq> None" "plain tag" "plain cmd"
  shows "\<exists>z1 z2. mark z p tag cmd = Some (0, Some z1) \<and> clear z1 p = Some (0, Some z2) \<and> inv z2 \<and> pids z2 = pids z"
proof -
  obtain z1 where z1: "mark z p tag cmd = Some (0, Some z1)" "inv z1" "pids z1 = add_mset p (pids z)"
    using mark [OF assms] by blast
  then show ?thesis using clear [OF z1(2), of p] by auto
qed

end

interpretation zr: process_registry "\<lambda>z. zoo_mark_cmdline io (Some z)" "\<lambda>z. zoo_clear io (Some z)" zoo_pids
  "\<lambda>z. wf_zoo z \<and> io_ok io" for io
proof
  fix z p tag cmd
  assume a: "wf_zoo z \<and> io_ok io" "i32 p \<noteq> None" "plain tag" "plain cmd"
  obtain z' where z': "zoo_mark io (Some z) (zoo_entry p tag cmd) = Some (0, Some z')" "wf_zoo z'"
      "mset (live_lines z') = add_mset (entry_line p tag cmd) (mset (live_lines z))"
    using zoo_mark_spec [of io z "zoo_entry p tag cmd"] a entry_line_ok [of tag cmd p] live_entry [of p tag cmd]
    by (auto simp: plain_def)
  then show "\<exists>z'. zoo_mark_cmdline io (Some z) p tag cmd = Some (0, Some z') \<and> (wf_zoo z' \<and> io_ok io)
      \<and> zoo_pids z' = add_mset p (zoo_pids z)"
    using a pid_entry [OF a(2), of tag cmd] by (auto simp: zoo_mark_cmdline_def zoo_pids_def)
next
  fix z p
  assume a: "wf_zoo z \<and> io_ok io" and p: "p \<in># zoo_pids z"
  obtain z' l where z': "wf_zoo z'" "zoo_clear io (Some z) p = Some (0, Some z')" "l \<in> set (live_lines z)" "pid_of l = p"
      "mset (live_lines z') = mset (live_lines z) - {#l#}"
    using zoo_clear_spec [of io z p] a p by (auto simp: zoo_pids_def)
  then show "\<exists>z'. zoo_clear io (Some z) p = Some (0, Some z') \<and> (wf_zoo z' \<and> io_ok io) \<and> zoo_pids z' = zoo_pids z - {#p#}"
    using a by (auto simp: zoo_pids_def image_mset_Diff)
next
  fix z p
  assume a: "wf_zoo z \<and> io_ok io" and p: "p \<notin># zoo_pids z"
  then show "\<exists>z'. zoo_clear io (Some z) p = Some (1, Some z') \<and> (wf_zoo z' \<and> io_ok io) \<and> zoo_pids z' = zoo_pids z"
    using zoo_clear_spec [of io z p] by (auto simp: zoo_pids_def live_lines_def)
qed

section \<open>Properties\<close>

text \<open>C22. \<^verbatim>\<open>zoo_mark_cmdline\<close> on a zoo file of the documented format (lines of 80 characters), when the system calls
  succeed: it returns 0, the file keeps the format, the lock is released, exactly one entry is added, of the
  given process and truncated to one line, in a free line if there is one, and no other entry changes.\<close>

theorem zoo_mark_correct:
  assumes "io_ok io" "wf_zoo z" "i32 p \<noteq> None" "NEWLINE \<notin> set tag" "NEWLINE \<notin> set cmd"
  shows "\<exists>z'. zoo_mark_cmdline io (Some z) p tag cmd = Some (0, Some z') \<and> wf_zoo z' \<and> \<not> zlocked z'
    \<and> mset (live_lines z') = add_mset (entry_line p tag cmd) (mset (live_lines z)) \<and> pid_of (entry_line p tag cmd) = p"
  using zoo_mark_spec [OF assms(1,2), of "zoo_entry p tag cmd"] entry_line_ok [OF assms(4,5), of p]
    live_entry [OF assms(3), of tag cmd] pid_entry [OF assms(3), of tag cmd]
  by (simp add: zoo_mark_cmdline_def)

definition demo_zoo :: "zoo" where
  "demo_zoo = \<lparr>zbytes = pad_line 79 ''12,a,x'' @ pad_line 79 ''#3,b,y'', zlocked = False, zoo_error = []\<rparr>"

definition demo_io :: "zoo_io" where
  "demo_io = \<lparr>io_lock = [EINTR, 0], io_seek = 0, io_unlock = [0], io_strerror = (\<lambda>_. [])\<rparr>"

lemma demo_zoo_ok: "wf_zoo demo_zoo" "io_ok demo_io" "live_lines demo_zoo = [butlast (pad_line 79 ''12,a,x'')]"
  by code_simp+

theorem zoo_mark_correct_witness:
  "\<exists>z'. zoo_mark_cmdline demo_io (Some demo_zoo) 77 ''tag'' ''run it'' = Some (0, Some z') \<and> wf_zoo z' \<and> \<not> zlocked z'
    \<and> mset (live_lines z') = {#butlast (pad_line 79 ''12,a,x''), butlast (pad_line 79 ''77,tag,run it'')#}"
proof -
  have e: "entry_line 77 ''tag'' ''run it'' = butlast (pad_line 79 ''77,tag,run it'')" by code_simp
  have "i32 77 \<noteq> None" by code_simp
  then show ?thesis
    using zoo_mark_correct [OF demo_zoo_ok(2,1), of 77 "''tag''" "''run it''"] by (auto simp: e demo_zoo_ok(3) add_mset_commute)
qed



section \<open>Observations\<close>

text \<open>A failing \<^verbatim>\<open>fseek\<close> makes \<^verbatim>\<open>zoo_mark\<close> return with the file still locked.\<close>

lemma zoo_mark_seek_keeps_lock:
  assumes "wait_lock (io_lock io) = Some 0" "io_seek io \<noteq> 0"
  shows "\<exists>z'. zoo_mark io (Some z) entry = Some (- 1, Some z') \<and> zlocked z'"
  using assms by (auto simp: zoo_mark_def zoo_lock_def zoo_fail_def split: option.splits)

text \<open>\<^verbatim>\<open>zoo_getpid\<close> compares a prefix: it finds the tag \<^verbatim>\<open>tag1\<close> when asked for \<^verbatim>\<open>tag\<close>. It returns \<open>-1\<close>, not 0, when
  there is no match.\<close>

lemma zoo_getpid_prefix:
  "map_option fst (zoo_getpid demo_io (Some (demo_zoo\<lparr>zbytes := pad_line 79 ''5,tag1,x''\<rparr>)) ''tag'') = Some 5"
  "map_option fst (zoo_getpid demo_io (Some demo_zoo) ''tag'') = Some (- 1)"
  by code_simp+

text \<open>\<^verbatim>\<open>cat_args\<close> allocates exactly what it needs, unless there are no arguments.\<close>

lemma cat_loop_length: "length (cat_loop first av cmd) = length cmd + cat_size av - (if first \<and> av \<noteq> [] then 1 else 0)"
  by (induction first av cmd rule: cat_loop.induct) auto

lemma cat_args_fits: "cat_args av = (if av = [] then None else Some (cat_loop True av []))"
  using cat_loop_length [of True av "[]"] by (cases av) (auto simp: cat_args_def Let_def)

end
