(* ===== verification/Pan_Collection.thy ===== *)
theory Pan_Collection
  imports Splitstr
begin

text \<open>
  \<^verbatim>\<open>pan/ltp-pan.c\<close>, the part before the scheduler: the options, the collection of commands read from a file and from
  the command line, and how the child executes a command.
\<close>

section \<open>The collection\<close>

record coll_entry =
  e_name :: cstr
  e_cmdline :: cstr
  e_pcnt_f :: bool

datatype coll_error = Not_read | No_command cstr | Workstr_overrun

text \<open>The pieces between newlines, the last one included.\<close>

fun split_lines :: "cstr \<Rightarrow> cstr list" where
  "split_lines [] = [[]]"
| "split_lines (c # s) =
     (if c = NEWLINE then [] # split_lines s
      else case split_lines s of [] \<Rightarrow> [[c]] | l # ls \<Rightarrow> (c # l) # ls)"

text \<open>\<^verbatim>\<open>if ((n->pcnt_f = strstr(a, "%f"))) n->pcnt_f[1] = 's'\<close>\<close>

definition mark_pcnt_f :: "cstr \<Rightarrow> cstr \<times> bool" where
  "mark_pcnt_f a =
     (case strstr a ''%f'' of
        None \<Rightarrow> (a, False)
      | Some p \<Rightarrow> (take (length a - length p) a @ ''%s'' @ drop 2 p, True))"

text \<open>\<^verbatim>\<open>strsep(&a, " \t")\<close>: the text before the first delimiter, and the text behind it unless there is none.\<close>

definition strsep :: "cstr \<Rightarrow> cstr \<times> cstr option" where
  "strsep a =
     (case dropWhile (\<lambda>c. c \<noteq> SPACE \<and> c \<noteq> TAB) a of
        [] \<Rightarrow> (a, None)
      | _ # r \<Rightarrow> (takeWhile (\<lambda>c. c \<noteq> SPACE \<and> c \<noteq> TAB) a, Some r))"

definition parse_entry :: "cstr \<Rightarrow> coll_error + coll_entry option" where
  "parse_entry a =
     (if deref a = CHR ''#'' \<or> deref a = NUL \<or> deref a = SPACE then Inr None
      else let (a, pcnt_f) = mark_pcnt_f a; (name, rest) = strsep a in
        case map_option (dropWhile isspace) rest of
          None \<Rightarrow> Inl (No_command name)
        | Some cmd \<Rightarrow>
            if cmd = [] then Inl (No_command name)
            else Inr (Some \<lparr>e_name = name, e_cmdline = cmd, e_pcnt_f = pcnt_f\<rparr>))"

fun parse_lines :: "cstr list \<Rightarrow> coll_error + coll_entry list" where
  "parse_lines [] = Inr []"
| "parse_lines (a # ls) =
     bindr (parse_entry a) (\<lambda>e. bindr (parse_lines ls) (\<lambda>es. Inr (case e of None \<Rightarrow> es | Some n \<Rightarrow> n # es)))"

text \<open>\<^verbatim>\<open>strncat(workstr, s, left)\<close>: the count is a \<^verbatim>\<open>size_t\<close>, so a negative one is no limit.\<close>

definition strncat_n :: "cstr \<Rightarrow> cstr \<Rightarrow> int \<Rightarrow> cstr" where
  "strncat_n w s left = w @ (if left < 0 then s else take (nat left) s)"

fun fill_args :: "cstr list \<Rightarrow> cstr \<Rightarrow> int \<Rightarrow> cstr option" where
  "fill_args [] w left = Some w"
| "fill_args (a # av) w left =
     (let w1 = strncat_n w a left; left1 = left - int (length a);
          w2 = strncat_n w1 '' '' left1
      in if length w1 < 1024 \<and> length w2 < 1024 then fill_args av w2 (left1 - 1) else None)"

definition cmdln_entry :: "cstr list \<Rightarrow> coll_error + coll_entry list" where
  "cmdln_entry args =
     (if args = [] then Inr []
      else case fill_args args [] 1023 of
        None \<Rightarrow> Inl Workstr_overrun
      | Some workstr \<Rightarrow>
          let (w, pcnt_f) = mark_pcnt_f workstr in
          Inr [\<lparr>e_name = ''cmdln'', e_cmdline = w, e_pcnt_f = pcnt_f\<rparr>])"

definition get_collection :: "cstr option \<Rightarrow> cstr list \<Rightarrow> coll_error + coll_entry list" where
  "get_collection buf args =
     (case buf of
        None \<Rightarrow> Inl Not_read
      | Some b \<Rightarrow>
          bindr (parse_lines (split_lines b)) (\<lambda>es. bindr (cmdln_entry args) (\<lambda>c. Inr (es @ c))))"

section \<open>Executing a command\<close>

text \<open>\<^verbatim>\<open>snprintf(new_cmdline, 1024, cmdline, arg)\<close>: the command line is the format and has one argument, a string.
  Any conversion but the first \<^verbatim>\<open>%s\<close> and \<^verbatim>\<open>%%\<close> is undefined.\<close>

fun format_s :: "cstr \<Rightarrow> bool \<Rightarrow> cstr \<Rightarrow> cstr option" where
  "format_s arg used [] = Some []"
| "format_s arg used (c # f) =
     (if c \<noteq> CHR ''%'' then map_option (\<lambda>r. c # r) (format_s arg used f)
      else case f of
        [] \<Rightarrow> None
      | d # g \<Rightarrow>
          if d = CHR ''%'' then map_option (\<lambda>r. c # r) (format_s arg used g)
          else if d = CHR ''s'' \<and> \<not> used then map_option (\<lambda>r. arg @ r) (format_s arg True g)
          else None)"

text \<open>The command line to execute and the counter afterwards.\<close>

definition subst_pcnt_f :: "int \<Rightarrow> int \<Rightarrow> coll_entry \<Rightarrow> cstr option \<times> int" where
  "subst_pcnt_f getpid counter colle =
     (if \<not> e_pcnt_f colle then (Some (e_cmdline colle), counter)
      else let pid_and_counter = snprintf 20 (sdec getpid @ ''_'' @ sdec counter) in
        (map_option (snprintf 1024) (format_s pid_and_counter False (e_cmdline colle)), counter + 1))"

datatype exec_call = Exec_sh cstr | Exec_args "cell list"

definition shell_chars :: cstr where
  "shell_chars = [DQUOTE, CHR 0x27, CHR '';'', CHR ''|'', CHR ''<'', CHR ''>'', CHR ''$'', CHR 0x5C]"

text \<open>How the child executes the command line; \<open>None\<close> when the words cannot be allocated (the code then uses a null
  pointer).\<close>

definition child_exec :: "(nat \<Rightarrow> bool) \<Rightarrow> cstr \<Rightarrow> exec_call option" where
  "child_exec alloc c_cmdline =
     (if list_ex (\<lambda>c. c \<in> set shell_chars) c_cmdline then Some (Exec_sh c_cmdline)
      else case splitstr alloc (Some c_cmdline) None of
        Inr (Some arg_v, n) \<Rightarrow> Some (Exec_args arg_v)
      | _ \<Rightarrow> None)"

section \<open>Options\<close>

record pan_opts =
  has_brakes :: bool
  track_exit_stats :: bool
  test_out_dir :: "cstr option"
  sequential :: bool
  zooname :: "cstr option"
  failcmdfilename :: "cstr option"
  no_kmsg :: bool
  tconfcmdfilename :: "cstr option"
  debug :: int
  cmdfilename :: cstr
  logfilename :: "cstr option"
  panname :: "cstr option"
  outputfilename :: "cstr option"
  fmt_print :: bool
  quiet_mode :: bool
  reporttype :: "cstr option"
  opt_starts :: int
  run_time :: int
  modifier :: char
  timed :: bool
  opt_keep_active :: int
  opt_fork_in_road :: bool

definition default_opts :: pan_opts where
  "default_opts = \<lparr>has_brakes = False, track_exit_stats = False, test_out_dir = None, sequential = False,
     zooname = None, failcmdfilename = None, no_kmsg = False, tconfcmdfilename = None, debug = 0,
     cmdfilename = ''/dev/null'', logfilename = None, panname = None, outputfilename = None, fmt_print = False,
     quiet_mode = False, reporttype = None, opt_starts = - 1, run_time = - 1, modifier = CHR ''m'', timed = False,
     opt_keep_active = 1, opt_fork_in_road = False\<rparr>"

definition c_atoi :: "cstr \<Rightarrow> int" where
  "c_atoi s = (case scan_int s of None \<Rightarrow> 0 | Some (v, _) \<Rightarrow> v)"

text \<open>\<^verbatim>\<open>-t\<close>: \<^verbatim>\<open>sscanf(optarg, "%d%c", &run_time, &modifier)\<close>. An empty argument makes \<^verbatim>\<open>sscanf\<close> return \<open>EOF\<close>, which the
  code takes for two conversions. \<open>Inl\<close> is the exit status, \<open>None\<close> inside an overflow of \<^verbatim>\<open>int\<close>.\<close>

definition scale_time :: "pan_opts \<Rightarrow> int + int option" where
  "scale_time opt =
     (if modifier opt = CHR ''s'' then Inr (i32 (run_time opt))
      else if modifier opt = CHR ''m'' then Inr (i32 (run_time opt * 60))
      else if modifier opt = CHR ''h'' then Inr (i32 (run_time opt * 60 * 60))
      else if modifier opt = CHR ''d'' then Inr (i32 (run_time opt * 60 * 60 * 24))
      else Inl (- 1))"

definition opt_time :: "cstr \<Rightarrow> pan_opts \<Rightarrow> int + pan_opts option" where
  "opt_time optarg opt =
     (let eof = (dropWhile isspace optarg = []) in
      case scan_int optarg of
        None \<Rightarrow>
          if eof then bindr (scale_time opt) (\<lambda>t. Inr (map_option (\<lambda>t. opt\<lparr>run_time := t, timed := True\<rparr>) t))
          else Inr (Some opt)
      | Some (v, rest) \<Rightarrow>
          (case i32 v of
             None \<Rightarrow> Inr None
           | Some v \<Rightarrow>
               (case rest of
                  [] \<Rightarrow> Inr (Some (opt\<lparr>run_time := v, timed := True\<rparr>))
                | m # _ \<Rightarrow>
                    let opt' = opt\<lparr>run_time := v, modifier := m\<rparr> in
                    bindr (scale_time opt') (\<lambda>t. Inr (map_option (\<lambda>t. opt'\<lparr>run_time := t, timed := True\<rparr>) t)))))"

text \<open>One option as \<^verbatim>\<open>getopt\<close> returns it; unknown characters are ignored.\<close>

definition apply_opt :: "char \<Rightarrow> cstr \<Rightarrow> pan_opts \<Rightarrow> int + pan_opts option" where
  "apply_opt c optarg opt =
     (if c = CHR ''A'' then Inr (Some (opt\<lparr>has_brakes := True, track_exit_stats := True\<rparr>))
      else if c = CHR ''O'' then Inr (Some (opt\<lparr>test_out_dir := Some optarg\<rparr>))
      else if c = CHR ''S'' then Inr (Some (opt\<lparr>sequential := True\<rparr>))
      else if c = CHR ''a'' then Inr (Some (opt\<lparr>zooname := Some optarg\<rparr>))
      else if c = CHR ''C'' then Inr (Some (opt\<lparr>failcmdfilename := Some optarg\<rparr>))
      else if c = CHR ''Q'' then Inr (Some (opt\<lparr>no_kmsg := True\<rparr>))
      else if c = CHR ''T'' then Inr (Some (opt\<lparr>tconfcmdfilename := Some optarg\<rparr>))
      else if c = CHR ''d'' then
        Inr (case scan_i optarg of None \<Rightarrow> Some opt | Some (v, _) \<Rightarrow> map_option (\<lambda>v. opt\<lparr>debug := v\<rparr>) (i32 v))
      else if c = CHR ''e'' then Inr (Some (opt\<lparr>track_exit_stats := True\<rparr>))
      else if c = CHR ''f'' then Inr (Some (opt\<lparr>cmdfilename := optarg\<rparr>))
      else if c = CHR ''h'' then Inl 0
      else if c = CHR ''l'' then Inr (Some (opt\<lparr>logfilename := Some optarg\<rparr>))
      else if c = CHR ''n'' then Inr (Some (opt\<lparr>panname := Some optarg\<rparr>))
      else if c = CHR ''o'' then Inr (Some (opt\<lparr>outputfilename := Some optarg\<rparr>))
      else if c = CHR ''p'' then Inr (Some (opt\<lparr>fmt_print := True\<rparr>))
      else if c = CHR ''q'' then Inr (Some (opt\<lparr>quiet_mode := True\<rparr>))
      else if c = CHR ''r'' then Inr (Some (opt\<lparr>reporttype := Some optarg\<rparr>))
      else if c = CHR ''s'' then Inr (Some (opt\<lparr>opt_starts := c_atoi optarg\<rparr>))
      else if c = CHR ''t'' then opt_time optarg opt
      else if c = CHR ''x'' then Inr (Some (opt\<lparr>opt_keep_active := c_atoi optarg\<rparr>))
      else if c = CHR ''y'' then Inr (Some (opt\<lparr>opt_fork_in_road := True\<rparr>))
      else Inr (Some opt))"

fun apply_opts :: "(char \<times> cstr) list \<Rightarrow> pan_opts \<Rightarrow> int + pan_opts option" where
  "apply_opts [] opt = Inr (Some opt)"
| "apply_opts ((c, a) # os) opt =
     bindr (apply_opt c a opt) (\<lambda>r. case r of None \<Rightarrow> Inr None | Some opt' \<Rightarrow> apply_opts os opt')"

text \<open>The default for the number of starts.\<close>

definition default_starts :: "pan_opts \<Rightarrow> int \<Rightarrow> int" where
  "default_starts opt cnt =
     (if timed opt \<and> opt_starts opt = - 1 then - 1
      else if opt_starts opt = - 1 then (if sequential opt then cnt else 1)
      else if opt_starts opt = 0 then - 1
      else if opt_starts opt < opt_keep_active opt then opt_keep_active opt
      else opt_starts opt)"

section \<open>Correctness\<close>

text \<open>The lines of a command file: those that are skipped, and commands.\<close>

datatype cmd_line = Skipped cstr | Command cstr cstr

fun line_text :: "cmd_line \<Rightarrow> cstr" where
  "line_text (Skipped s) = s"
| "line_text (Command n c) = n @ SPACE # c"

fun cmd_line_ok :: "cmd_line \<Rightarrow> bool" where
  "cmd_line_ok (Skipped s) = (NEWLINE \<notin> set s \<and> (s = [] \<or> hd s = CHR ''#'' \<or> hd s = SPACE))"
| "cmd_line_ok (Command n c) =
     (n \<noteq> [] \<and> list_all (\<lambda>x. x \<noteq> SPACE \<and> x \<noteq> TAB \<and> x \<noteq> NEWLINE \<and> x \<noteq> CHR ''%'') n \<and> hd n \<noteq> CHR ''#'' \<and> hd n \<noteq> NUL
      \<and> c \<noteq> [] \<and> \<not> isspace (hd c) \<and> NEWLINE \<notin> set c)"

fun line_entries :: "cmd_line \<Rightarrow> coll_entry list" where
  "line_entries (Skipped s) = []"
| "line_entries (Command n c) = [\<lparr>e_name = n, e_cmdline = fst (mark_pcnt_f c), e_pcnt_f = snd (mark_pcnt_f c)\<rparr>]"

lemma split_lines_line: "NEWLINE \<notin> set l \<Longrightarrow> split_lines (l @ NEWLINE # s) = l # split_lines s"
  by (induction l) auto

lemma split_lines_text:
  "list_all cmd_line_ok ls \<Longrightarrow>
     split_lines (concat (map (\<lambda>l. line_text l @ [NEWLINE]) ls)) = map line_text ls @ [[]]"
proof (induction ls)
  case (Cons l ls)
  have "NEWLINE \<notin> set (line_text l)" using Cons.prems by (cases l) (auto simp: list_all_iff)
  then show ?case using Cons split_lines_line [of "line_text l"] by simp
qed simp

lemma strstr_no_percent: "CHR ''%'' \<notin> set n \<Longrightarrow> strstr (n @ x # r) ''%f'' = strstr (x # r) ''%f''"
  by (induction n) auto

lemma strstr_length: "strstr s p = Some r \<Longrightarrow> length r \<le> length s"
  by (drule strstr_SomeD) auto

lemma mark_prefix:
  assumes "CHR ''%'' \<notin> set n"
  shows "mark_pcnt_f (n @ SPACE # c) = (n @ SPACE # fst (mark_pcnt_f c), snd (mark_pcnt_f c))"
proof (cases "strstr c ''%f''")
  case None
  then show ?thesis using strstr_no_percent [OF assms, of SPACE c] by (simp add: mark_pcnt_f_def)
next
  case (Some p)
  have "strstr (n @ SPACE # c) ''%f'' = Some p" using Some strstr_no_percent [OF assms, of SPACE c] by simp
  moreover have "length p \<le> length c" using strstr_length [OF Some] .
  ultimately show ?thesis using Some by (simp add: mark_pcnt_f_def Suc_diff_le)
qed

lemma mark_nonempty: "c \<noteq> [] \<Longrightarrow> fst (mark_pcnt_f c) \<noteq> []"
  by (auto simp: mark_pcnt_f_def split: option.splits)

lemma mark_hd: "c \<noteq> [] \<Longrightarrow> hd (fst (mark_pcnt_f c)) = hd c"
proof (cases "strstr c ''%f''")
  case (Some p)
  then obtain q where q: "c = q @ p" "starts_with ''%f'' p" using strstr_SomeD by blast
  then obtain r where "p = ''%f'' @ r" by (auto simp: starts_with_iff)
  then show ?thesis using Some q(1) by (cases q) (simp_all add: mark_pcnt_f_def)
qed (simp add: mark_pcnt_f_def)

lemma strsep_word:
  assumes "list_all (\<lambda>x. x \<noteq> SPACE \<and> x \<noteq> TAB) n"
  shows "strsep (n @ SPACE # c) = (n, Some c)"
proof -
  have "dropWhile (\<lambda>c. c \<noteq> SPACE \<and> c \<noteq> TAB) (n @ SPACE # c) = SPACE # c"
    "takeWhile (\<lambda>c. c \<noteq> SPACE \<and> c \<noteq> TAB) (n @ SPACE # c) = n"
    using assms by (auto simp: list_all_iff dropWhile_append2 takeWhile_append2)
  then show ?thesis by (simp add: strsep_def)
qed

lemma parse_entry_line:
  assumes "cmd_line_ok l"
  shows "\<exists>e. parse_entry (line_text l) = Inr e \<and> (case e of None \<Rightarrow> [] | Some n \<Rightarrow> [n]) = line_entries l"
proof (cases l)
  case (Skipped s)
  then show ?thesis using assms by (cases s) (auto simp: parse_entry_def)
next
  case (Command n c)
  have ok: "n \<noteq> []" "list_all (\<lambda>x. x \<noteq> SPACE \<and> x \<noteq> TAB) n" "CHR ''%'' \<notin> set n" "hd n \<noteq> CHR ''#''" "hd n \<noteq> NUL" "hd n \<noteq> SPACE"
    "c \<noteq> []" "\<not> isspace (hd c)"
    using assms Command by (auto simp: list_all_iff)
  have d: "deref (n @ SPACE # c) = hd n" using ok(1) by (cases n) auto
  have w: "dropWhile isspace (fst (mark_pcnt_f c)) = fst (mark_pcnt_f c)"
    using mark_hd [OF ok(7)] mark_nonempty [OF ok(7)] ok(8) by (cases "fst (mark_pcnt_f c)") auto
  show ?thesis
    using Command ok d w mark_nonempty [OF ok(7)] by (simp add: parse_entry_def mark_prefix strsep_word)
qed

lemma parse_lines_text:
  "list_all cmd_line_ok ls \<Longrightarrow> parse_lines (map line_text ls @ [[]]) = Inr (concat (map line_entries ls))"
proof (induction ls)
  case Nil
  show ?case by (simp add: parse_entry_def)
next
  case (Cons l ls)
  then show ?case using parse_entry_line [of l] by (auto split: option.splits)
qed

lemma strstr_here: "CHR ''%'' \<notin> set u \<Longrightarrow> strstr (u @ ''%f'' @ v) ''%f'' = Some (''%f'' @ v)"
  by (induction u) auto

lemma format_plain: "CHR ''%'' \<notin> set v \<Longrightarrow> format_s arg used v = Some v"
  by (induction v) auto

lemma format_once: "CHR ''%'' \<notin> set u \<Longrightarrow> CHR ''%'' \<notin> set v \<Longrightarrow> format_s arg False (u @ ''%s'' @ v) = Some (u @ arg @ v)"
  by (induction u) (auto simp: format_plain)

section \<open>Properties\<close>

text \<open>C36. Reading a command file: blank lines, comments and lines that start with a space are skipped, and the others
  give, in order, an entry with the name before the first space and the rest of the line as the command. A
  \<^verbatim>\<open>%f\<close> in the command is later replaced by the process number and a running counter.\<close>

theorem collection_correct:
  assumes "list_all cmd_line_ok ls"
  shows "get_collection (Some (concat (map (\<lambda>l. line_text l @ [NEWLINE]) ls))) [] = Inr (concat (map line_entries ls))
    \<and> (CHR ''%'' \<notin> set u \<and> CHR ''%'' \<notin> set v \<and> line_entries (Command n (u @ ''%f'' @ v)) = [e] \<longrightarrow>
        subst_pcnt_f pid k e = (Some (snprintf 1024 (u @ snprintf 20 (sdec pid @ ''_'' @ sdec k) @ v)), k + 1))"
proof (intro conjI impI)
  show "get_collection (Some (concat (map (\<lambda>l. line_text l @ [NEWLINE]) ls))) [] = Inr (concat (map line_entries ls))"
    using parse_lines_text [OF assms] by (simp add: get_collection_def split_lines_text [OF assms] cmdln_entry_def)
  assume a: "CHR ''%'' \<notin> set u \<and> CHR ''%'' \<notin> set v \<and> line_entries (Command n (u @ ''%f'' @ v)) = [e]"
  have "mark_pcnt_f (u @ ''%f'' @ v) = (u @ ''%s'' @ v, True)"
    using a strstr_here [of u v] by (simp add: mark_pcnt_f_def)
  then have "e = \<lparr>e_name = n, e_cmdline = u @ ''%s'' @ v, e_pcnt_f = True\<rparr>" using a by auto
  then show "subst_pcnt_f pid k e = (Some (snprintf 1024 (u @ snprintf 20 (sdec pid @ ''_'' @ sdec k) @ v)), k + 1)"
    using a format_once [of u v] by (simp add: subst_pcnt_f_def Let_def)
qed

theorem collection_correct_witness:
  "get_collection (Some (''#c'' @ [NEWLINE] @ ''t1 run -x'' @ [NEWLINE, NEWLINE] @ ''t2 cp %f'' @ [NEWLINE])) [] =
     Inr [\<lparr>e_name = ''t1'', e_cmdline = ''run -x'', e_pcnt_f = False\<rparr>, \<lparr>e_name = ''t2'', e_cmdline = ''cp %s'', e_pcnt_f = True\<rparr>]
   \<and> subst_pcnt_f 42 7 \<lparr>e_name = ''t2'', e_cmdline = ''cp %s'', e_pcnt_f = True\<rparr> = (Some ''cp 42_7'', 8)"
proof -
  let ?ls = "[Skipped ''#c'', Command ''t1'' ''run -x'', Skipped [], Command ''t2'' ''cp %f'']"
  have ok: "list_all cmd_line_ok ?ls" by code_simp
  have t: "concat (map (\<lambda>l. line_text l @ [NEWLINE]) ?ls) =
      ''#c'' @ [NEWLINE] @ ''t1 run -x'' @ [NEWLINE, NEWLINE] @ ''t2 cp %f'' @ [NEWLINE]" by code_simp
  have e: "concat (map line_entries ?ls) =
      [\<lparr>e_name = ''t1'', e_cmdline = ''run -x'', e_pcnt_f = False\<rparr>, \<lparr>e_name = ''t2'', e_cmdline = ''cp %s'', e_pcnt_f = True\<rparr>]"
    "line_entries (Command ''t2'' (''cp '' @ ''%f'' @ [])) = [\<lparr>e_name = ''t2'', e_cmdline = ''cp %s'', e_pcnt_f = True\<rparr>]"
    by code_simp+
  have s: "snprintf 1024 (''cp '' @ snprintf 20 (sdec 42 @ ''_'' @ sdec 7) @ []) = ''cp 42_7''" by code_simp
  have p: "CHR ''%'' \<notin> set ''cp ''" "CHR ''%'' \<notin> set []" by code_simp+
  show ?thesis
    using collection_correct [OF ok, of "''cp ''" "[]" "''t2''" _ 42 7] p e(2) unfolding t e(1) s by simp
qed

section \<open>Observations\<close>

text \<open>A second \<^verbatim>\<open>%f\<close>, or any other percent sign, in a command with \<^verbatim>\<open>%f\<close> is taken as a conversion without an
  argument.\<close>

lemma subst_second_pcnt_f:
  "fst (subst_pcnt_f 1 1 \<lparr>e_name = ''t'', e_cmdline = fst (mark_pcnt_f ''a %f %f''), e_pcnt_f = True\<rparr>) = None"
  by code_simp

text \<open>An argument of 1024 characters or more makes the remaining length negative, and \<^verbatim>\<open>strncat\<close> then writes past the
  end of the array.\<close>

lemma fill_args_overrun: "fill_args [replicate 1023 (CHR ''x''), ''y''] [] 1023 = None"
  by code_simp

end
