(* ===== verification/Pan_Scheduler.thy ===== *)
theory Pan_Scheduler
  imports Zoo Pan_Collection
begin

text \<open>
  \<^verbatim>\<open>pan/ltp-pan.c\<close>: the scheduler of the test driver as a state machine. A state is the program point of \<^verbatim>\<open>main\<close> and its
  variables: the table of running tests, the list of orphaned process groups, the counters and the signal
  variables, and the zoo file. What the kernel answers (whether a child starts, what \<^verbatim>\<open>wait\<close> returns, the results
  of \<^verbatim>\<open>kill\<close> and of the operations on the zoo file) is an argument of each operation, and a caught signal may
  arrive between any two of them. Debug and error messages and all times are left out; the log lines, the lines of
  the two command files, the test reports, the kernel log and the signals sent are recorded in \<open>events\<close>.
\<close>

section \<open>State\<close>

record slot =
  s_pgrp :: int
  s_stopping :: bool
  s_cmd :: "coll_entry option"

text \<open>\<open>Ev_run\<close> and \<open>Ev_reap\<close> are not output: they note that \<^verbatim>\<open>run_child\<close> was called for a command, and that
  \<^verbatim>\<open>check_pids\<close> returned this value for a child.\<close>

datatype pan_event =
    Ev_run nat
  | Ev_reap int int
  | Ev_start cstr cstr
  | Ev_kmsg cstr
  | Ev_end cstr cstr int bool
  | Ev_copy cstr
  | Ev_raw cstr cstr int bool
  | Ev_log cstr cstr int
  | Ev_failcmd cstr cstr
  | Ev_tconfcmd cstr cstr
  | Ev_kill int int
  | Ev_totals int int int

record pan =
  running :: "slot list"
  orphans :: "int list"
  num_active :: int
  failcnt :: int
  tconfcnt :: int
  starts :: int
  c_idx :: nat
  stop :: int
  go_idle :: int
  exit_stat :: int
  fork_in_road :: bool
  rec_signal :: int
  send_signal :: int
  lastsent :: int
  pcnt_counter :: int
  zoofile :: zoo
  events :: "pan_event list"

text \<open>What does not change while the scheduler runs: the options, the collection and the driver's own process
  number.\<close>

record pan_cfg =
  opts :: pan_opts
  coll :: "coll_entry list"
  self_pid :: int

definition keep_active :: "pan_cfg \<Rightarrow> nat" where
  "keep_active cfg = nat (opt_keep_active (opts cfg))"

definition buffering :: "pan_cfg \<Rightarrow> bool" where
  "buffering cfg = (test_out_dir (opts cfg) \<noteq> None)"

text \<open>Why the program ends, or why a step has no result: it waits for the lock of the zoo file, or its behaviour is
  undefined.\<close>

datatype pan_stop = Exit int | Blocked | Undefined

text \<open>A wait status; the flag says whether the core was dumped.\<close>

datatype wstatus = Signaled int bool | Exited int | Stopped int | Other_status

text \<open>How the attempt to start a child goes: the output file, the pipe or the fork fails, the child reports that it cannot
  execute the command and ends with that status, or it runs with that process number.\<close>

datatype child = No_output | No_pipe | No_fork | Exec_failed cstr wstatus | Runs int

datatype wait_result = Wait_error int | Waited int wstatus

text \<open>What the environment answers during one step: the result of \<^verbatim>\<open>kill(-pgrp, sig)\<close> (0 or the error number), the
  system calls of the zoo library, whether \<^verbatim>\<open>/dev/kmsg\<close> can be opened, what \<^verbatim>\<open>slurp\<close> returns for the output of a
  test, \<^verbatim>\<open>lrand48\<close>, how a child starts, what \<^verbatim>\<open>wait\<close> returns, and whether \<^verbatim>\<open>PAN_STOP_FILE\<close> exists.\<close>

record env =
  kill_res :: "int \<Rightarrow> int \<Rightarrow> int"
  zio :: zoo_io
  kmsg_ok :: bool
  slurped :: "cstr option"
  lrand :: int
  child_res :: child
  wait_res :: wait_result
  stop_file :: bool

definition SIGHUP :: int where "SIGHUP = 1"
definition SIGINT :: int where "SIGINT = 2"
definition SIGKILL :: int where "SIGKILL = 9"
definition SIGUSR1 :: int where "SIGUSR1 = 10"
definition SIGUSR2 :: int where "SIGUSR2 = 12"
definition SIGALRM :: int where "SIGALRM = 14"
definition SIGTERM :: int where "SIGTERM = 15"
definition EPERM :: int where "EPERM = 1"
definition ESRCH :: int where "ESRCH = 3"
definition TCONF_exit :: int where "TCONF_exit = 32"

definition emits :: "pan_event list \<Rightarrow> pan \<Rightarrow> pan" where
  "emits es s = s\<lparr>events := events s @ es\<rparr>"

section \<open>Signals\<close>

definition wait_handler :: "int \<Rightarrow> pan \<Rightarrow> pan" where
  "wait_handler sig s =
     (if sig = 0 then s\<lparr>lastsent := 0\<rparr>
      else let s = s\<lparr>rec_signal := sig\<rparr> in
        if sig = SIGUSR2 then s
        else let send = (if lastsent s = 0 then sig
                         else if lastsent s = SIGUSR1 then SIGINT
                         else if lastsent s = sig then SIGTERM
                         else if lastsent s = SIGTERM then SIGHUP
                         else if lastsent s = SIGHUP then SIGKILL
                         else send_signal s)
             in s\<lparr>send_signal := send, lastsent := send\<rparr>)"

text \<open>The zoo operations on the state.\<close>

definition mark_zoo :: "env \<Rightarrow> int \<Rightarrow> cstr \<Rightarrow> cstr \<Rightarrow> pan \<Rightarrow> pan_stop + int \<times> pan" where
  "mark_zoo env p tag cmd s =
     (case zoo_mark_cmdline (zio env) (Some (zoofile s)) p tag cmd of
        None \<Rightarrow> Inl Blocked
      | Some (r, z) \<Rightarrow> Inr (r, case z of None \<Rightarrow> s | Some z \<Rightarrow> s\<lparr>zoofile := z\<rparr>))"

definition clear_zoo :: "env \<Rightarrow> int \<Rightarrow> pan \<Rightarrow> pan_stop + int \<times> pan" where
  "clear_zoo env p s =
     (case zoo_clear (zio env) (Some (zoofile s)) p of
        None \<Rightarrow> Inl Blocked
      | Some (r, z) \<Rightarrow> Inr (r, case z of None \<Rightarrow> s | Some z \<Rightarrow> s\<lparr>zoofile := z\<rparr>))"

text \<open>\<^verbatim>\<open>check_orphans\<close>: the loop over the list; a group that does not exist any more is forgotten.\<close>

fun orphan_loop :: "env \<Rightarrow> int \<Rightarrow> int list \<Rightarrow> pan \<Rightarrow> pan_stop + int list \<times> pan" where
  "orphan_loop env sig [] s = Inr ([], s)"
| "orphan_loop env sig (p # ps) s =
     (if p = 0 then bindr (orphan_loop env sig ps s) (\<lambda>(ps', s). Inr (0 # ps', s))
      else let s = emits [Ev_kill p sig] s in
        if kill_res env p sig = ESRCH then
          bindr (clear_zoo env p s) (\<lambda>(r, s).
            bindr (orphan_loop env sig ps s) (\<lambda>(ps', s). Inr (0 # ps', s)))
        else bindr (orphan_loop env sig ps s) (\<lambda>(ps', s). Inr (p # ps', s)))"

definition check_orphans :: "env \<Rightarrow> int \<Rightarrow> pan \<Rightarrow> pan_stop + pan" where
  "check_orphans env sig s = bindr (orphan_loop env sig (orphans s) s) (\<lambda>(os, s). Inr (s\<lparr>orphans := os\<rparr>))"

text \<open>\<^verbatim>\<open>mark_orphan\<close>: the first free element of the list, or a new one behind the head.\<close>

fun use_free :: "int \<Rightarrow> int list \<Rightarrow> int list option" where
  "use_free cpid [] = None"
| "use_free cpid (p # ps) = (if p = 0 then Some (cpid # ps) else map_option ((#) p) (use_free cpid ps))"

definition mark_orphan :: "int list \<Rightarrow> int \<Rightarrow> int list" where
  "mark_orphan os cpid =
     (case use_free cpid os of
        Some os' \<Rightarrow> os'
      | None \<Rightarrow> (case os of [] \<Rightarrow> [cpid] | h # t \<Rightarrow> h # cpid # t))"

definition propagate_signal :: "env \<Rightarrow> pan \<Rightarrow> pan_stop + pan" where
  "propagate_signal env s =
     (let s = (if rec_signal s = SIGALRM then s\<lparr>rec_signal := SIGTERM\<rparr> else s);
          s = emits (map (\<lambda>p. Ev_kill p (send_signal s)) (filter (\<lambda>p. p \<noteq> 0) (map s_pgrp (running s)))) s;
          s = s\<lparr>running := map (\<lambda>r. if s_pgrp r = 0 then r else r\<lparr>s_stopping := True\<rparr>) (running s)\<rparr>
      in bindr (check_orphans env (send_signal s) s) (\<lambda>s. Inr (s\<lparr>rec_signal := 0, send_signal := 0\<rparr>)))"

section \<open>Starting a child\<close>

definition kmsg_text :: "coll_entry \<Rightarrow> cstr" where
  "kmsg_text e =
     ''LTP: starting '' @ e_name e @ (if e_name e \<noteq> e_cmdline e then '' ('' @ e_cmdline e @ '')'' else []) @ [NEWLINE]"

definition write_test_start :: "pan_cfg \<Rightarrow> env \<Rightarrow> coll_entry \<Rightarrow> pan \<Rightarrow> pan_stop + pan" where
  "write_test_start cfg env e s =
     (let s = (if reporttype (opts cfg) = Some ''rts'' then emits [Ev_start (e_name e) (e_cmdline e)] s else s) in
      if no_kmsg (opts cfg) then Inr s
      else if kmsg_ok env then Inr (emits [Ev_kmsg (kmsg_text e)] s) else Inl (Exit 1))"

definition write_test_end :: "pan_cfg \<Rightarrow> cstr \<Rightarrow> cstr \<Rightarrow> int \<Rightarrow> bool \<Rightarrow> pan \<Rightarrow> pan" where
  "write_test_end cfg init_status term_type term_id core s =
     (if reporttype (opts cfg) = Some ''rts'' then emits [Ev_end init_status term_type term_id core] s else s)"

fun term_of :: "wstatus \<Rightarrow> int \<times> cstr" where
  "term_of (Signaled g core) = (g, ''signaled'')"
| "term_of (Exited w) = (w, ''exited'')"
| "term_of (Stopped g) = (g, ''stopped'')"
| "term_of Other_status = (0, ''unknown'')"

fun core_of :: "wstatus \<Rightarrow> bool" where
  "core_of (Signaled g core) = core"
| "core_of _ = False"

definition log_start_failure :: "pan_cfg \<Rightarrow> cstr \<Rightarrow> wstatus \<Rightarrow> pan \<Rightarrow> pan" where
  "log_start_failure cfg name st s =
     (let (termid, termtype) = term_of st in
      if logfilename (opts cfg) = None then s
      else if \<not> fmt_print (opts cfg) then emits [Ev_raw name termtype termid (core_of st)] s
      else emits [Ev_log name (if termid \<noteq> 0 then ''FAIL'' else ''PASS'') termid]
             (if termid \<noteq> 0 then s\<lparr>failcnt := failcnt s + 1\<rparr> else s))"

definition run_child :: "pan_cfg \<Rightarrow> env \<Rightarrow> nat \<Rightarrow> coll_entry \<Rightarrow> pan \<Rightarrow> pan_stop + int \<times> pan" where
  "run_child cfg env i colle s =
     (if buffering cfg \<and> child_res env = No_output then Inr (- 1, s)
      else case subst_pcnt_f (self_pid cfg) (pcnt_counter s) colle of
        (None, n) \<Rightarrow> Inl Undefined
      | (Some c_cmdline, n) \<Rightarrow>
          let s = s\<lparr>pcnt_counter := n\<rparr> in
          if child_res env = No_pipe then Inr (- 1, s)
          else let s = s\<lparr>running := (running s)[i := (running s ! i)\<lparr>s_cmd := Some colle\<rparr>]\<rparr> in
            bindr (if \<not> buffering cfg \<and> \<not> quiet_mode (opts cfg) then write_test_start cfg env colle s else Inr s)
              (\<lambda>s. case child_res env of
                 Exec_failed errbuf st \<Rightarrow>
                   let s = log_start_failure cfg (e_name colle) st s in
                   Inr (- 1, if quiet_mode (opts cfg) then s
                             else write_test_end cfg errbuf (snd (term_of st)) (fst (term_of st)) (core_of st) s)
               | Runs cpid \<Rightarrow>
                   let s = s\<lparr>running := (running s)[i := (running s ! i)\<lparr>s_pgrp := cpid, s_stopping := False\<rparr>]\<rparr> in
                   bindr (mark_zoo env cpid (e_name colle) (e_cmdline colle) s)
                     (\<lambda>(r, s). if r \<noteq> 0 then Inl (Exit 1) else Inr (cpid, s))
               | _ \<Rightarrow> Inr (- 1, s)))"

text \<open>The condition of the inner loop of \<^verbatim>\<open>main\<close> and its guard, and one iteration; the flag says whether the loop is
  left with \<^verbatim>\<open>break\<close>.\<close>

definition can_start :: "pan_cfg \<Rightarrow> pan \<Rightarrow> bool" where
  "can_start cfg s =
     (num_active s < int (keep_active cfg) \<and> starts s \<noteq> 0 \<and> stop s = 0 \<and> rec_signal s = 0 \<and> go_idle s = 0)"

fun free_slot :: "slot list \<Rightarrow> nat" where
  "free_slot [] = 0"
| "free_slot (r # rs) = (if s_pgrp r = 0 then 0 else Suc (free_slot rs))"

definition fill_one :: "pan_cfg \<Rightarrow> env \<Rightarrow> pan \<Rightarrow> pan_stop + bool \<times> pan" where
  "fill_one cfg env s =
     (let cnt = length (coll cfg);
          c = (if sequential (opts cfg) then c_idx s else nat (lrand env mod int cnt));
          i = free_slot (running s)
      in
      if i = length (running s) then
        (let s = wait_handler SIGINT s in Inr (True, s\<lparr>c_idx := c, exit_stat := exit_stat s + 1\<rparr>))
      else
        bindr (run_child cfg env i (coll cfg ! c) (emits [Ev_run c] s)) (\<lambda>(cpid, s).
          let s = (if cpid \<noteq> - 1 then s\<lparr>num_active := num_active s + 1\<rparr> else s);
              s = (if (cpid \<noteq> - 1 \<or> sequential (opts cfg)) \<and> starts s > 0 then s\<lparr>starts := starts s - 1\<rparr> else s);
              c' = (if sequential (opts cfg) then (if c + 1 \<ge> cnt then 0 else c + 1) else c)
          in Inr (False, s\<lparr>c_idx := c'\<rparr>)))"

section \<open>Reaping a child\<close>

text \<open>The value that \<^verbatim>\<open>check_pids\<close> would return for this status alone, and by how much \<^verbatim>\<open>num_active\<close> decreases.\<close>

fun status_ret :: "wstatus \<Rightarrow> int \<times> int" where
  "status_ret (Signaled g core) = (0, 1)"
| "status_ret (Exited w) = (if w \<noteq> 0 \<and> w \<noteq> TCONF_exit then 1 else 0, 1)"
| "status_ret (Stopped g) = (1, 0)"
| "status_ret Other_status = (1, 0)"

definition is_exited :: "wstatus \<Rightarrow> bool" where
  "is_exited st = (case st of Exited w \<Rightarrow> True | _ \<Rightarrow> False)"

definition is_signaled :: "wstatus \<Rightarrow> bool" where
  "is_signaled st = (case st of Signaled g core \<Rightarrow> True | _ \<Rightarrow> False)"

definition log_result :: "pan_cfg \<Rightarrow> cstr \<Rightarrow> wstatus \<Rightarrow> int \<Rightarrow> pan \<Rightarrow> pan" where
  "log_result cfg name st w s =
     (if logfilename (opts cfg) = None then s
      else if \<not> fmt_print (opts cfg) then emits [Ev_raw name (snd (term_of st)) w (core_of st)] s
      else if is_exited st \<and> w = TCONF_exit then emits [Ev_log name ''CONF'' w] (s\<lparr>tconfcnt := tconfcnt s + 1\<rparr>)
      else if w \<noteq> 0 then emits [Ev_log name ''FAIL'' w] (s\<lparr>failcnt := failcnt s + 1\<rparr>)
      else emits [Ev_log name ''PASS'' w] s)"

definition log_commands :: "pan_cfg \<Rightarrow> coll_entry \<Rightarrow> int \<Rightarrow> pan \<Rightarrow> pan" where
  "log_commands cfg e w s =
     (if w = 0 then s
      else if tconfcmdfilename (opts cfg) \<noteq> None \<and> w = TCONF_exit then emits [Ev_tconfcmd (e_name e) (e_cmdline e)] s
      else if failcmdfilename (opts cfg) \<noteq> None then emits [Ev_failcmd (e_name e) (e_cmdline e)] s
      else s)"

text \<open>\<^verbatim>\<open>copy_buffered_output\<close>: on an empty file the code reads the character before the buffer.\<close>

definition copy_buffered_output :: "env \<Rightarrow> pan \<Rightarrow> pan_stop + pan" where
  "copy_buffered_output env s =
     (case slurped env of
        None \<Rightarrow> Inr s
      | Some t \<Rightarrow>
          if t = [] then Inl Undefined
          else Inr (emits [Ev_copy (if last t \<noteq> NEWLINE then t @ [NEWLINE] else t)] s))"

text \<open>The body of the loop over the table for the slot of the child, in three parts: an expected exit with 130 counts as 0;
  the log, the command files and the report; the release of the process, which may leave an orphaned group.\<close>

definition adjusted :: "wstatus \<Rightarrow> bool \<Rightarrow> int \<times> int" where
  "adjusted st stopping =
     (let w = fst (term_of st); ret = fst (status_ret st) in
      if w = 130 \<and> stopping \<and> is_exited st then (0, ret - 1) else (w, ret))"

definition report_child :: "pan_cfg \<Rightarrow> env \<Rightarrow> coll_entry \<Rightarrow> wstatus \<Rightarrow> bool \<Rightarrow> int \<Rightarrow> pan \<Rightarrow> pan_stop + pan" where
  "report_child cfg env e st stopping w s =
     (let s = log_commands cfg e w (log_result cfg (e_name e) st w s);
          status = (if stopping then ''driver_interrupt'' else snd (term_of st))
      in
      bindr (if buffering cfg then
               bindr (if \<not> quiet_mode (opts cfg) then write_test_start cfg env e s else Inr s) (copy_buffered_output env)
             else Inr s)
        (\<lambda>s. Inr (if quiet_mode (opts cfg) then s else write_test_end cfg ''ok'' status w (core_of st) s)))"

definition release_child :: "env \<Rightarrow> int \<Rightarrow> coll_entry \<Rightarrow> pan \<Rightarrow> pan_stop + pan" where
  "release_child env cpid e s =
     bindr (clear_zoo env cpid s) (\<lambda>(x, s).
       if x \<noteq> 0 then Inl (Exit 1)
       else if kill_res env cpid 0 = 0 \<or> kill_res env cpid 0 = EPERM then
         bindr (mark_zoo env cpid ''panorphan'' (e_cmdline e) s) (\<lambda>(x, s).
           if x \<noteq> 0 then Inl (Exit 1)
           else Inr (emits [Ev_kill cpid SIGTERM] (s\<lparr>orphans := mark_orphan (orphans s) cpid\<rparr>)))
       else Inr s)"

definition reap_slot :: "pan_cfg \<Rightarrow> env \<Rightarrow> int \<Rightarrow> wstatus \<Rightarrow> nat \<Rightarrow> pan \<Rightarrow> pan_stop + int \<times> pan" where
  "reap_slot cfg env cpid st i s =
     (let r = running s ! i; e = the (s_cmd r); (w, ret) = adjusted st (s_stopping r) in
      bindr (report_child cfg env e st (s_stopping r) w s) (\<lambda>s.
        let ret = (if is_signaled st \<and> \<not> s_stopping r then ret + 1 else ret) in
        bindr (release_child env cpid e (s\<lparr>running := (running s)[i := r\<lparr>s_pgrp := 0\<rparr>]\<rparr>)) (\<lambda>s. Inr (ret, s))))"

fun slot_of :: "int \<Rightarrow> slot list \<Rightarrow> nat option" where
  "slot_of p [] = None"
| "slot_of p (r # rs) = (if s_pgrp r = p then Some 0 else map_option Suc (slot_of p rs))"

definition check_pids :: "pan_cfg \<Rightarrow> env \<Rightarrow> pan \<Rightarrow> pan_stop + int \<times> pan" where
  "check_pids cfg env s =
     bindr (check_orphans env 0 s) (\<lambda>s.
       case wait_res env of
         Wait_error e \<Rightarrow> Inr (0, s)
       | Waited cpid st \<Rightarrow>
           let s = s\<lparr>num_active := num_active s - snd (status_ret st)\<rparr> in
           bindr (case slot_of cpid (running s) of
                    None \<Rightarrow> Inr (fst (status_ret st), s)
                  | Some i \<Rightarrow> reap_slot cfg env cpid st i s)
             (\<lambda>(ret, s). Inr (ret, emits [Ev_reap cpid ret] s)))"

section \<open>The main loop\<close>

definition count_stop :: "env \<Rightarrow> pan \<Rightarrow> pan" where
  "count_stop env s =
     (if starts s = 0 then s\<lparr>stop := stop s + 1\<rparr>
      else if starts s = - 1 \<and> stop_file env then s\<lparr>stop := stop s + 1\<rparr>
      else s)"

definition handle_signal :: "env \<Rightarrow> pan \<Rightarrow> pan_stop + pan" where
  "handle_signal env s =
     (if rec_signal s = 0 then Inr s
      else if rec_signal s = SIGUSR2 then
        let s = (if fork_in_road s then s\<lparr>go_idle := go_idle s + 1\<rparr> else s\<lparr>stop := stop s + 1\<rparr>) in
        Inr (s\<lparr>rec_signal := 0, send_signal := 0\<rparr>)
      else
        let s = (if rec_signal s = SIGUSR1 then s\<lparr>fork_in_road := False\<rparr> else s) in
        bindr (propagate_signal env s) (\<lambda>s.
          Inr (if fork_in_road s then s\<lparr>go_idle := go_idle s + 1\<rparr> else s\<lparr>stop := stop s + 1\<rparr>)))"

definition after_reap :: "pan_cfg \<Rightarrow> int \<Rightarrow> pan \<Rightarrow> pan" where
  "after_reap cfg err s =
     (if err = 0 then s
      else let s = (if fork_in_road s then s\<lparr>go_idle := go_idle s + 1\<rparr> else s);
               s = (if track_exit_stats (opts cfg) then s\<lparr>exit_stat := exit_stat s + 1\<rparr> else s)
           in if has_brakes (opts cfg) then wait_handler SIGINT s else s)"

definition leave_loop :: "pan \<Rightarrow> bool" where
  "leave_loop s = (stop s \<noteq> 0 \<and> num_active s = 0)"

definition resume :: "pan \<Rightarrow> pan" where
  "resume s = (if go_idle s \<noteq> 0 \<and> num_active s = 0 then wait_handler 0 (s\<lparr>go_idle := 0\<rparr>) else s)"

text \<open>One round of the loop that waits for the orphaned groups, when there is one.\<close>

definition orphan_round :: "env \<Rightarrow> pan \<Rightarrow> pan_stop + pan" where
  "orphan_round env s = propagate_signal env (if rec_signal s = 0 then wait_handler SIGINT s else s)"

definition finish :: "pan_cfg \<Rightarrow> env \<Rightarrow> pan \<Rightarrow> pan_stop + pan" where
  "finish cfg env s =
     bindr (clear_zoo env (self_pid cfg) s) (\<lambda>(r, s).
       let s = (if r \<noteq> 0 then s\<lparr>exit_stat := exit_stat s + 1\<rparr> else s) in
       Inr (if logfilename (opts cfg) \<noteq> None \<and> fmt_print (opts cfg)
            then emits [Ev_totals (int (length (coll cfg))) (tconfcnt s) (failcnt s)] s else s))"

text \<open>The control flow of \<^verbatim>\<open>main\<close> from the outer loop on.\<close>

datatype pc = Fill | Count_stop | Handle_signal | Reap | Decide | Orphans | Finish | Ended pan_stop

fun goto :: "pc \<Rightarrow> pan \<Rightarrow> pan_stop + pan \<Rightarrow> pc \<times> pan" where
  "goto pc s (Inl e) = (Ended e, s)"
| "goto pc s (Inr s') = (pc, s')"

fun main_step :: "pan_cfg \<Rightarrow> env \<Rightarrow> pc \<Rightarrow> pan \<Rightarrow> pc \<times> pan" where
  "main_step cfg env Fill s =
     (if can_start cfg s then
        case fill_one cfg env s of
          Inl e \<Rightarrow> (Ended e, s)
        | Inr (brk, s') \<Rightarrow> (if brk then Count_stop else Fill, s')
      else (Count_stop, s))"
| "main_step cfg env Count_stop s = (Handle_signal, count_stop env s)"
| "main_step cfg env Handle_signal s = goto Reap s (handle_signal env s)"
| "main_step cfg env Reap s =
     (case check_pids cfg env s of
        Inl e \<Rightarrow> (Ended e, s)
      | Inr (err, s') \<Rightarrow> (Decide, after_reap cfg err s'))"
| "main_step cfg env Decide s = (if leave_loop s then (Orphans, s) else (Fill, resume s))"
| "main_step cfg env Orphans s =
     (if list_all (\<lambda>p. p = 0) (orphans s) then (Finish, s) else goto Orphans s (orphan_round env s))"
| "main_step cfg env Finish s =
     (case finish cfg env s of Inl e \<Rightarrow> (Ended e, s) | Inr s' \<Rightarrow> (Ended (Exit (exit_stat s')), s'))"
| "main_step cfg env (Ended e) s = (Ended e, s)"

section \<open>Start-up\<close>

definition tolower :: "char \<Rightarrow> char" where
  "tolower c = (if isupper c then char_of (of_char c + 32 :: nat) else c)"

definition norm_reporttype :: "cstr option \<Rightarrow> cstr" where
  "norm_reporttype r =
     (case r of
        None \<Rightarrow> ''rts''
      | Some t \<Rightarrow> if map tolower t \<noteq> ''rts'' \<and> map tolower t \<noteq> ''none'' then ''rts'' else t)"

text \<open>The options as the scheduler uses them: the report type has a default, and output is not buffered when only one
  test runs at a time.\<close>

definition final_opts :: "pan_opts \<Rightarrow> pan_opts" where
  "final_opts opt =
     (let opt = opt\<lparr>reporttype := Some (norm_reporttype (reporttype opt))\<rparr> in
      if test_out_dir opt \<noteq> None \<and> opt_keep_active opt = 1 then opt\<lparr>test_out_dir := None\<rparr> else opt)"

text \<open>The lines that enter the driver into the zoo file and then reserve and free one entry per slot.\<close>

fun each_slot :: "(int \<Rightarrow> zoo \<Rightarrow> (int \<times> zoo option) option) \<Rightarrow> int list \<Rightarrow> zoo \<Rightarrow> pan_stop + zoo" where
  "each_slot f [] z = Inr z"
| "each_slot f (c # cs) z =
     (case f c z of
        None \<Rightarrow> Inl Blocked
      | Some (r, z') \<Rightarrow> if r \<noteq> 0 then Inl (Exit 1) else each_slot f cs (case z' of None \<Rightarrow> z | Some z' \<Rightarrow> z'))"

definition enter_zoo :: "zoo_io \<Rightarrow> nat \<Rightarrow> int \<Rightarrow> cstr \<Rightarrow> cstr list \<Rightarrow> zoo \<Rightarrow> pan_stop + zoo" where
  "enter_zoo io keep pid name argv z =
     bindr (each_slot (\<lambda>p z. zoo_mark_args io (Some z) p name argv) [pid] z) (\<lambda>z.
       bindr (each_slot (\<lambda>c z. zoo_mark_cmdline io (Some z) c name []) (map int [0..<keep]) z)
         (each_slot (\<lambda>c z. zoo_clear io (Some z) c) (map int [0..<keep])))"

text \<open>The variables before the loop.\<close>

definition init_pan :: "pan_cfg \<Rightarrow> zoo \<Rightarrow> pan" where
  "init_pan cfg z =
     \<lparr>running = replicate (keep_active cfg) \<lparr>s_pgrp = 0, s_stopping = False, s_cmd = None\<rparr>,
      orphans = [0], num_active = 0, failcnt = 0, tconfcnt = 0,
      starts = default_starts (opts cfg) (int (length (coll cfg))), c_idx = 0, stop = 0, go_idle = 0, exit_stat = 0,
      fork_in_road = opt_fork_in_road (opts cfg), rec_signal = 0, send_signal = 0, lastsent = 0, pcnt_counter = 1,
      zoofile = z, events = []\<rparr>"

text \<open>What start-up finds: the name from \<^verbatim>\<open>zoo_getname\<close>, whether the log file opens, the collection, whether the slot table
  can be allocated, whether the output directory is usable, whether the three other files open, and the zoo file.\<close>

record start_env =
  st_zooname :: "cstr option"
  st_log_ok :: bool
  st_coll :: "coll_error + coll_entry list"
  st_malloc_ok :: bool
  st_out_dir_ok :: bool
  st_output_ok :: bool
  st_failcmd_ok :: bool
  st_tconfcmd_ok :: bool
  st_zoo :: "zoo option"
  st_io :: zoo_io

definition startup :: "pan_opts \<Rightarrow> start_env \<Rightarrow> int \<Rightarrow> cstr list \<Rightarrow> pan_stop + pan_cfg \<times> pan" where
  "startup opt st pid argv =
     (case panname opt of
        None \<Rightarrow> Inl (Exit 1)
      | Some name \<Rightarrow>
          if zooname opt = None \<and> st_zooname st = None then Inl (Exit 1)
          else if logfilename opt \<noteq> None \<and> logfilename opt \<noteq> Some ''-'' \<and> \<not> st_log_ok st then Inl (Exit 1)
          else case st_coll st of
            Inl _ \<Rightarrow> Inl (Exit 1)
          | Inr es \<Rightarrow>
              let cfg = \<lparr>opts = final_opts opt, coll = es, self_pid = pid\<rparr> in
              if es = [] then Inl (Exit 1)
              else if opt_keep_active opt < 0 then Inl Undefined
              else if \<not> st_malloc_ok st then Inl (Exit 2)
              else if test_out_dir (opts cfg) \<noteq> None \<and> \<not> st_out_dir_ok st then Inl (Exit 1)
              else if outputfilename opt \<noteq> None \<and> \<not> st_output_ok st then Inl (Exit 1)
              else if failcmdfilename opt \<noteq> None \<and> \<not> st_failcmd_ok st then Inl (Exit 1)
              else if tconfcmdfilename opt \<noteq> None \<and> \<not> st_tconfcmd_ok st then Inl (Exit 1)
              else case st_zoo st of
                None \<Rightarrow> Inl (Exit 1)
              | Some z \<Rightarrow> bindr (enter_zoo (st_io st) (keep_active cfg) pid name argv z) (\<lambda>z. Inr (cfg, init_pan cfg z)))"

section \<open>Runs\<close>

text \<open>The process groups in the table, and the orphaned ones.\<close>

definition active :: "pan \<Rightarrow> int list" where
  "active s = filter (\<lambda>p. p \<noteq> 0) (map s_pgrp (running s))"

definition live_orphans :: "pan \<Rightarrow> int list" where
  "live_orphans s = filter (\<lambda>p. p \<noteq> 0) (orphans s)"

text \<open>What the system promises: the operations on the zoo file succeed, \<^verbatim>\<open>/dev/kmsg\<close> can be opened, \<^verbatim>\<open>fork\<close> returns a
  process number that no child has, and \<^verbatim>\<open>wait\<close> without \<^verbatim>\<open>WUNTRACED\<close> returns a child that has ended. The output of a
  test, when it is buffered, is not empty.\<close>

definition env_ok :: "pan_cfg \<Rightarrow> pan \<Rightarrow> env \<Rightarrow> bool" where
  "env_ok cfg s env =
     (io_ok (zio env) \<and> (no_kmsg (opts cfg) \<or> kmsg_ok env) \<and> slurped env \<noteq> Some [] \<and> 0 \<le> lrand env
      \<and> (case child_res env of Runs p \<Rightarrow> 0 < p \<and> i32 p \<noteq> None \<and> p \<notin> set (active s) | _ \<Rightarrow> True)
      \<and> (case wait_res env of
           Waited p st \<Rightarrow> p \<in> set (active s) \<and> (is_exited st \<or> is_signaled st)
         | Wait_error e \<Rightarrow> True))"

definition caught :: "int list" where
  "caught = [SIGALRM, SIGINT, SIGTERM, SIGHUP, SIGUSR1, SIGUSR2]"

definition ended :: "pc \<Rightarrow> bool" where
  "ended pc = (case pc of Ended e \<Rightarrow> True | _ \<Rightarrow> False)"

text \<open>Runs with signals at any time.\<close>

inductive pan_reach :: "pan_cfg \<Rightarrow> pan \<Rightarrow> pc \<Rightarrow> pan \<Rightarrow> bool" for cfg s0 where
  start: "pan_reach cfg s0 Fill s0"
| step: "pan_reach cfg s0 pc s \<Longrightarrow> \<not> ended pc \<Longrightarrow> env_ok cfg s env \<Longrightarrow> main_step cfg env pc s = (pc', s')
    \<Longrightarrow> pan_reach cfg s0 pc' s'"
| signal: "pan_reach cfg s0 pc s \<Longrightarrow> \<not> ended pc \<Longrightarrow> sig \<in> set caught \<Longrightarrow> pan_reach cfg s0 pc (wait_handler sig s)"

end
