(* ===== verification/Pan_Invariant.thy ===== *)
theory Pan_Invariant
  imports Pan_Scheduler
begin

text \<open>
  The invariant of the scheduler of \<^verbatim>\<open>pan/ltp-pan.c\<close>: the effect of each operation when the system behaves as documented, and
  that the table of running tests, the list of orphaned groups, the counters and the zoo file agree in every
  reachable state, whatever signals arrive.
\<close>

section \<open>What the operations do\<close>

definition n_result :: "cstr \<Rightarrow> pan_event list \<Rightarrow> int" where
  "n_result r es = int (length (filter (\<lambda>e. case e of Ev_log n x w \<Rightarrow> x = r | _ \<Rightarrow> False) es))"

text \<open>Output that keeps the two counters in step with the log.\<close>

definition out :: "pan_event list \<Rightarrow> pan \<Rightarrow> pan" where
  "out es s = s\<lparr>events := events s @ es, failcnt := failcnt s + n_result ''FAIL'' es,
     tconfcnt := tconfcnt s + n_result ''CONF'' es\<rparr>"

fun is_out :: "pan_event \<Rightarrow> bool" where
  "is_out (Ev_run c) = False"
| "is_out (Ev_reap p r) = False"
| "is_out _ = True"

lemma n_result_simps [simp]:
  "n_result r [] = 0" "n_result r (es @ fs) = n_result r es + n_result r fs"
  by (simp_all add: n_result_def)

lemma n_result_Cons [simp]:
  "n_result r (e # es) = (case e of Ev_log n x w \<Rightarrow> if x = r then 1 else 0 | _ \<Rightarrow> 0) + n_result r es"
  by (simp add: n_result_def split: pan_event.splits)

lemma out_out: "out fs (out es s) = out (es @ fs) s"
  by (simp add: out_def)

lemma out_Nil: "out [] s = s"
  by (simp add: out_def)

lemma out_sel [simp]:
  "running (out es s) = running s" "orphans (out es s) = orphans s" "num_active (out es s) = num_active s"
  "starts (out es s) = starts s" "c_idx (out es s) = c_idx s" "stop (out es s) = stop s"
  "go_idle (out es s) = go_idle s" "exit_stat (out es s) = exit_stat s" "fork_in_road (out es s) = fork_in_road s"
  "rec_signal (out es s) = rec_signal s" "send_signal (out es s) = send_signal s" "lastsent (out es s) = lastsent s"
  "pcnt_counter (out es s) = pcnt_counter s" "zoofile (out es s) = zoofile s" "events (out es s) = events s @ es"
  "failcnt (out es s) = failcnt s + n_result ''FAIL'' es" "tconfcnt (out es s) = tconfcnt s + n_result ''CONF'' es"
  by (simp_all add: out_def)

lemma out_upd:
  "(out es s)\<lparr>running := rs\<rparr> = out es (s\<lparr>running := rs\<rparr>)" "(out es s)\<lparr>zoofile := z\<rparr> = out es (s\<lparr>zoofile := z\<rparr>)"
  "(out es s)\<lparr>orphans := os\<rparr> = out es (s\<lparr>orphans := os\<rparr>)" "(out es s)\<lparr>pcnt_counter := n\<rparr> = out es (s\<lparr>pcnt_counter := n\<rparr>)"
  "(out es s)\<lparr>num_active := k\<rparr> = out es (s\<lparr>num_active := k\<rparr>)" "(out es s)\<lparr>starts := k\<rparr> = out es (s\<lparr>starts := k\<rparr>)"
  "(out es s)\<lparr>c_idx := c\<rparr> = out es (s\<lparr>c_idx := c\<rparr>)" "(out es s)\<lparr>rec_signal := k\<rparr> = out es (s\<lparr>rec_signal := k\<rparr>)"
  "(out es s)\<lparr>send_signal := k\<rparr> = out es (s\<lparr>send_signal := k\<rparr>)"
  by (simp_all add: out_def)

lemma emits_out: "n_result ''FAIL'' es = 0 \<Longrightarrow> n_result ''CONF'' es = 0 \<Longrightarrow> emits es s = out es s"
  by (simp add: emits_def out_def)

lemma n_result_kills [simp]: "n_result r (map (\<lambda>p. Ev_kill p sig) ps) = 0"
  by (induction ps) simp_all

subsection \<open>The zoo file\<close>

definition zoo_has :: "int multiset \<Rightarrow> zoo \<Rightarrow> bool" where
  "zoo_has M z = (wf_zoo z \<and> zoo_pids z = M)"

lemma mark_zoo_ok:
  assumes "io_ok (zio env)" "zoo_has M (zoofile s)" "i32 p \<noteq> None" "plain tag" "plain cmd"
  obtains z where "mark_zoo env p tag cmd s = Inr (0, s\<lparr>zoofile := z\<rparr>)" "zoo_has (add_mset p M) z"
proof -
  have "wf_zoo (zoofile s) \<and> io_ok (zio env)" using assms by (simp add: zoo_has_def)
  from zr.mark [OF this assms(3-5)] show ?thesis
    using assms(2) by (auto simp: mark_zoo_def zoo_has_def intro: that)
qed

lemma clear_zoo_ok:
  assumes "io_ok (zio env)" "zoo_has (add_mset p M) (zoofile s)"
  obtains z where "clear_zoo env p s = Inr (0, s\<lparr>zoofile := z\<rparr>)" "zoo_has M z"
proof -
  have "wf_zoo (zoofile s) \<and> io_ok (zio env)" "p \<in># zoo_pids (zoofile s)" using assms by (simp_all add: zoo_has_def)
  from zr.clear [OF this] show ?thesis
    using assms(2) by (auto simp: clear_zoo_def zoo_has_def intro: that)
qed

definition nz :: "int list \<Rightarrow> int list" where
  "nz ps = filter (\<lambda>p. p \<noteq> 0) ps"

lemma nz_simps [simp]: "nz [] = []" "nz (p # ps) = (if p = 0 then nz ps else p # nz ps)"
  by (simp_all add: nz_def)

definition survivors :: "env \<Rightarrow> int \<Rightarrow> int list \<Rightarrow> int list" where
  "survivors env sig ps = map (\<lambda>p. if p \<noteq> 0 \<and> kill_res env p sig = ESRCH then 0 else p) ps"

lemma survivors_simps [simp]:
  "survivors env sig [] = []"
  "survivors env sig (p # ps) = (if p \<noteq> 0 \<and> kill_res env p sig = ESRCH then 0 else p) # survivors env sig ps"
  by (simp_all add: survivors_def)

lemma orphan_loop_ok:
  assumes "io_ok (zio env)" "zoo_has (M + mset (nz ps)) (zoofile s)"
  shows "\<exists>z. orphan_loop env sig ps s = Inr (survivors env sig ps, out (map (\<lambda>p. Ev_kill p sig) (nz ps)) (s\<lparr>zoofile := z\<rparr>))
    \<and> zoo_has (M + mset (nz (survivors env sig ps))) z"
  using assms(2)
proof (induction ps arbitrary: s M)
  case Nil
  then show ?case by (intro exI [of _ "zoofile s"]) (simp add: out_Nil)
next
  case (Cons p ps)
  let ?s = "out [Ev_kill p sig] s"
  have e: "emits [Ev_kill p sig] s = ?s" by (rule emits_out) simp_all
  consider "p = 0" | "p \<noteq> 0" "kill_res env p sig = ESRCH" | "p \<noteq> 0" "kill_res env p sig \<noteq> ESRCH" by blast
  then show ?case
  proof cases
    case 1
    then show ?thesis using Cons by force
  next
    case 2
    then have "zoo_has (add_mset p (M + mset (nz ps))) (zoofile ?s)" using Cons.prems by simp
    then obtain z where z: "clear_zoo env p ?s = Inr (0, ?s\<lparr>zoofile := z\<rparr>)" "zoo_has (M + mset (nz ps)) z"
      using clear_zoo_ok [OF assms(1)] by metis
    have "zoo_has (M + mset (nz ps)) (zoofile (?s\<lparr>zoofile := z\<rparr>))" using z(2) by simp
    from Cons.IH [OF this] obtain z' where z':
      "orphan_loop env sig ps (?s\<lparr>zoofile := z\<rparr>) = Inr (survivors env sig ps, out (map (\<lambda>p. Ev_kill p sig) (nz ps)) (?s\<lparr>zoofile := z'\<rparr>))"
      "zoo_has (M + mset (nz (survivors env sig ps))) z'" by auto
    show ?thesis using 2 z(1) z' by (intro exI [of _ z']) (simp add: e out_upd out_out)
  next
    case 3
    have "zoo_has ((add_mset p M) + mset (nz ps)) (zoofile ?s)" using Cons.prems 3 by simp
    from Cons.IH [OF this] obtain z' where z':
      "orphan_loop env sig ps ?s = Inr (survivors env sig ps, out (map (\<lambda>p. Ev_kill p sig) (nz ps)) (?s\<lparr>zoofile := z'\<rparr>))"
      "zoo_has (add_mset p M + mset (nz (survivors env sig ps))) z'" by auto
    show ?thesis using 3 z' by (intro exI [of _ z']) (simp add: e out_upd out_out)
  qed
qed

lemma check_orphans_ok:
  assumes "io_ok (zio env)" "zoo_has (M + mset (nz (orphans s))) (zoofile s)"
  obtains z where "check_orphans env sig s =
      Inr (out (map (\<lambda>p. Ev_kill p sig) (nz (orphans s))) (s\<lparr>zoofile := z, orphans := survivors env sig (orphans s)\<rparr>))"
    "zoo_has (M + mset (nz (survivors env sig (orphans s)))) z"
  using orphan_loop_ok [OF assms, of sig] that by (auto simp: check_orphans_def out_upd)

definition stop_slots :: "slot list \<Rightarrow> slot list" where
  "stop_slots rs = map (\<lambda>r. if s_pgrp r = 0 then r else r\<lparr>s_stopping := True\<rparr>) rs"

lemma propagate_signal_ok:
  assumes "io_ok (zio env)" "zoo_has (M + mset (nz (orphans s))) (zoofile s)"
  obtains z where "propagate_signal env s =
      Inr (out (map (\<lambda>p. Ev_kill p (send_signal s)) (active s @ nz (orphans s)))
        (s\<lparr>zoofile := z, orphans := survivors env (send_signal s) (orphans s), running := stop_slots (running s),
           rec_signal := 0, send_signal := 0\<rparr>))"
    "zoo_has (M + mset (nz (survivors env (send_signal s) (orphans s)))) z"
proof -
  define s1 where "s1 = (if rec_signal s = SIGALRM then s\<lparr>rec_signal := SIGTERM\<rparr> else s)"
  define s2 where "s2 = (out (map (\<lambda>p. Ev_kill p (send_signal s)) (active s)) s1)\<lparr>running := stop_slots (running s)\<rparr>"
  have 1: "send_signal s1 = send_signal s" "running s1 = running s" "orphans s2 = orphans s" "zoofile s2 = zoofile s"
    "send_signal s2 = send_signal s" by (simp_all add: s1_def s2_def)
  have p: "propagate_signal env s = bindr (check_orphans env (send_signal s) s2) (\<lambda>s. Inr (s\<lparr>rec_signal := 0, send_signal := 0\<rparr>))"
    unfolding propagate_signal_def Let_def s1_def [symmetric]
    by (simp add: s2_def emits_out 1 active_def stop_slots_def)
  obtain z where z: "check_orphans env (send_signal s) s2 =
      Inr (out (map (\<lambda>p. Ev_kill p (send_signal s)) (nz (orphans s))) (s2\<lparr>zoofile := z, orphans := survivors env (send_signal s) (orphans s)\<rparr>))"
    "zoo_has (M + mset (nz (survivors env (send_signal s) (orphans s)))) z"
    using check_orphans_ok [OF assms(1), of M s2 "send_signal s"] assms(2) unfolding 1 by metis
  have "propagate_signal env s =
      Inr (out (map (\<lambda>p. Ev_kill p (send_signal s)) (active s @ nz (orphans s)))
        (s\<lparr>zoofile := z, orphans := survivors env (send_signal s) (orphans s), running := stop_slots (running s),
           rec_signal := 0, send_signal := 0\<rparr>))"
    unfolding p z(1) by (simp add: s2_def s1_def out_upd out_out)
  then show ?thesis using z(2) by (rule that)
qed

subsection \<open>Starting and reaping a child\<close>

text \<open>Reports only add output.\<close>

definition outputs :: "pan \<Rightarrow> pan_stop + pan \<Rightarrow> bool" where
  "outputs s r = (\<exists>es. list_all is_out es \<and> r = Inr (out es s))"

lemma outputsI: "list_all is_out es \<Longrightarrow> outputs s (Inr (out es s))"
  by (auto simp: outputs_def)

lemma outputs_refl: "outputs s (Inr s)"
  using outputsI [of "[]" s] by (simp add: out_Nil)

lemma outputsE:
  assumes "outputs s r"
  obtains es where "list_all is_out es" "r = Inr (out es s)"
  using assms by (auto simp: outputs_def)

lemma outputs_emit: "is_out e \<Longrightarrow> (case e of Ev_log n x w \<Rightarrow> False | _ \<Rightarrow> True) \<Longrightarrow> outputs s (Inr (emits [e] s))"
  using outputsI [of "[e]" s] emits_out [of "[e]" s] by (simp split: pan_event.splits)

lemma outputs_emit_log:
  "r \<noteq> ''FAIL'' \<Longrightarrow> r \<noteq> ''CONF'' \<Longrightarrow> outputs s (Inr (emits [Ev_log n r w] s))"
  "outputs s (Inr (emits [Ev_log n ''FAIL'' w] (s\<lparr>failcnt := failcnt s + 1\<rparr>)))"
  "outputs s (Inr (emits [Ev_log n ''CONF'' w] (s\<lparr>tconfcnt := tconfcnt s + 1\<rparr>)))"
proof -
  show "outputs s (Inr (emits [Ev_log n r w] s))" if "r \<noteq> ''FAIL''" "r \<noteq> ''CONF''"
    using outputsI [of "[Ev_log n r w]" s] that by (simp add: emits_def out_def)
  have "emits [Ev_log n ''FAIL'' w] (s\<lparr>failcnt := failcnt s + 1\<rparr>) = out [Ev_log n ''FAIL'' w] s"
    "emits [Ev_log n ''CONF'' w] (s\<lparr>tconfcnt := tconfcnt s + 1\<rparr>) = out [Ev_log n ''CONF'' w] s"
    by (simp_all add: emits_def out_def)
  then show "outputs s (Inr (emits [Ev_log n ''FAIL'' w] (s\<lparr>failcnt := failcnt s + 1\<rparr>)))"
    "outputs s (Inr (emits [Ev_log n ''CONF'' w] (s\<lparr>tconfcnt := tconfcnt s + 1\<rparr>)))"
    using outputsI [of "[Ev_log n ''FAIL'' w]" s] outputsI [of "[Ev_log n ''CONF'' w]" s] by simp_all
qed

lemma outputs_chain: "outputs s (Inr s1) \<Longrightarrow> outputs s1 r \<Longrightarrow> outputs s r"
  by (elim outputsE) (simp add: out_out outputsI)

lemma outputs_bindr: "outputs s r \<Longrightarrow> (\<And>s'. outputs s' (f s')) \<Longrightarrow> outputs s (bindr r f)"
  by (erule outputsE) (simp add: outputs_chain [OF outputsI])

lemma write_test_start_out:
  assumes "no_kmsg (opts cfg) \<or> kmsg_ok env"
  shows "outputs s (write_test_start cfg env e s)"
proof -
  define s1 where "s1 = (if reporttype (opts cfg) = Some ''rts'' then emits [Ev_start (e_name e) (e_cmdline e)] s else s)"
  have "outputs s (Inr s1)" by (simp add: s1_def outputs_refl outputs_emit)
  moreover have "outputs s1 (write_test_start cfg env e s)"
    unfolding write_test_start_def Let_def s1_def [symmetric] using assms by (auto simp: outputs_refl outputs_emit)
  ultimately show ?thesis by (rule outputs_chain)
qed

lemma write_test_end_out: "outputs s (Inr (write_test_end cfg i t w c s))"
  by (simp add: write_test_end_def outputs_refl outputs_emit)

lemma log_start_failure_out: "outputs s (Inr (log_start_failure cfg n st s))"
  by (cases "term_of st") (simp add: log_start_failure_def outputs_refl outputs_emit outputs_emit_log)

lemma log_result_out: "outputs s (Inr (log_result cfg n st w s))"
  by (simp add: log_result_def outputs_refl outputs_emit outputs_emit_log)

lemma log_commands_out: "outputs s (Inr (log_commands cfg e w s))"
  by (simp add: log_commands_def outputs_refl outputs_emit)

lemma copy_buffered_output_out: "slurped env \<noteq> Some [] \<Longrightarrow> outputs s (copy_buffered_output env s)"
  by (cases "slurped env") (simp_all add: copy_buffered_output_def outputs_refl outputs_emit)

definition entry_ok :: "coll_entry \<Rightarrow> bool" where
  "entry_ok e = (plain (e_name e) \<and> plain (e_cmdline e) \<and> (e_pcnt_f e \<longrightarrow> format_s [] False (e_cmdline e) \<noteq> None))"

lemma format_s_arg: "(format_s a used f = None) = (format_s b used f = None)"
  by (induction a used f rule: format_s.induct) (auto split: list.splits)

lemma subst_defined:
  assumes "entry_ok e"
  obtains c n where "subst_pcnt_f pid k e = (Some c, n)"
proof -
  have "format_s (snprintf 20 (sdec pid @ ''_'' @ sdec k)) False (e_cmdline e) \<noteq> None" if "e_pcnt_f e"
    using assms that format_s_arg [of "snprintf 20 (sdec pid @ ''_'' @ sdec k)" False "e_cmdline e" "[]"] by (auto simp: entry_ok_def)
  then show ?thesis using that by (cases "e_pcnt_f e") (auto simp: subst_pcnt_f_def Let_def)
qed

text \<open>\<^verbatim>\<open>run_child\<close> from the fork on.\<close>

definition forked :: "pan_cfg \<Rightarrow> env \<Rightarrow> nat \<Rightarrow> coll_entry \<Rightarrow> pan \<Rightarrow> pan_stop + int \<times> pan" where
  "forked cfg env i e s =
     (case child_res env of
        Exec_failed errbuf st \<Rightarrow>
          let s = log_start_failure cfg (e_name e) st s in
          Inr (- 1, if quiet_mode (opts cfg) then s
                    else write_test_end cfg errbuf (snd (term_of st)) (fst (term_of st)) (core_of st) s)
      | Runs cpid \<Rightarrow>
          let s = s\<lparr>running := (running s)[i := (running s ! i)\<lparr>s_pgrp := cpid, s_stopping := False\<rparr>]\<rparr> in
          bindr (mark_zoo env cpid (e_name e) (e_cmdline e) s)
            (\<lambda>(r, s). if r \<noteq> 0 then Inl (Exit 1) else Inr (cpid, s))
      | _ \<Rightarrow> Inr (- 1, s))"

lemma forked_ok:
  assumes env: "env_ok cfg s env" and zoo: "zoo_has M (zoofile s1)" and e: "entry_ok e"
    and i: "i < length (running s1)" "s_pgrp (running s1 ! i) = 0" "s_cmd (running s1 ! i) = Some e"
  shows "\<exists>cpid es r z. forked cfg env i e s1 = Inr (cpid, out es (s1\<lparr>running := (running s1)[i := r], zoofile := z\<rparr>))
      \<and> list_all is_out es
      \<and> (cpid = - 1 \<and> s_pgrp r = 0 \<and> zoo_has M z
         \<or> child_res env = Runs cpid \<and> 0 < cpid \<and> r = \<lparr>s_pgrp = cpid, s_stopping = False, s_cmd = Some e\<rparr>
           \<and> zoo_has (add_mset cpid M) z)"
proof (cases "child_res env")
  case (Exec_failed b st)
  define s2 where "s2 = log_start_failure cfg (e_name e) st s1"
  define s3 where "s3 = (if quiet_mode (opts cfg) then s2 else write_test_end cfg b (snd (term_of st)) (fst (term_of st)) (core_of st) s2)"
  have "outputs s1 (Inr s2)" "outputs s2 (Inr s3)"
    by (simp_all add: s2_def s3_def log_start_failure_out outputs_refl write_test_end_out)
  then have "outputs s1 (Inr s3)" by (rule outputs_chain)
  then obtain es where "list_all is_out es" "s3 = out es s1" by (auto elim: outputsE)
  moreover have "forked cfg env i e s1 = Inr (- 1, s3)"
    using Exec_failed by (simp add: forked_def Let_def s3_def s2_def)
  ultimately show ?thesis
    using zoo i by (intro exI [of _ "- 1"] exI [of _ es] exI [of _ "running s1 ! i"] exI [of _ "zoofile s1"]) simp
next
  case (Runs p)
  then have p: "0 < p" "i32 p \<noteq> None" using env by (simp_all add: env_ok_def)
  let ?r = "\<lparr>s_pgrp = p, s_stopping = False, s_cmd = Some e\<rparr>"
  define s2 where "s2 = s1\<lparr>running := (running s1)[i := ?r]\<rparr>"
  obtain z where z: "mark_zoo env p (e_name e) (e_cmdline e) s2 = Inr (0, s2\<lparr>zoofile := z\<rparr>)" "zoo_has (add_mset p M) z"
    using mark_zoo_ok [of env M s2 p "e_name e" "e_cmdline e"] env zoo p e
    by (auto simp: s2_def env_ok_def entry_ok_def)
  have "(running s1 ! i)\<lparr>s_pgrp := p, s_stopping := False\<rparr> = ?r" using i(3) by (cases "running s1 ! i") simp
  then have "s1\<lparr>running := (running s1)[i := (running s1 ! i)\<lparr>s_pgrp := p, s_stopping := False\<rparr>]\<rparr> = s2"
    by (simp add: s2_def)
  then have "forked cfg env i e s1 = Inr (p, s2\<lparr>zoofile := z\<rparr>)"
    using Runs z(1) by (simp add: forked_def)
  then show ?thesis
    using z(2) p(1) Runs by (intro exI [of _ p] exI [of _ "[]"] exI [of _ ?r] exI [of _ z]) (simp add: s2_def out_Nil)
qed (use zoo i in \<open>intro exI [of _ "- 1"] exI [of _ "[]"] exI [of _ "running s1 ! i"] exI [of _ "zoofile s1"], simp add: forked_def out_Nil\<close>)+

lemma run_child_ok:
  assumes env: "env_ok cfg s env" and zoo: "zoo_has M (zoofile s)" and e: "entry_ok e"
    and i: "i < length (running s)" "s_pgrp (running s ! i) = 0"
  shows "\<exists>cpid es n r z. run_child cfg env i e s =
        Inr (cpid, out es (s\<lparr>pcnt_counter := n, running := (running s)[i := r], zoofile := z\<rparr>))
      \<and> list_all is_out es
      \<and> (cpid = - 1 \<and> s_pgrp r = 0 \<and> zoo_has M z
         \<or> child_res env = Runs cpid \<and> 0 < cpid \<and> r = \<lparr>s_pgrp = cpid, s_stopping = False, s_cmd = Some e\<rparr>
           \<and> zoo_has (add_mset cpid M) z)"
proof (cases "buffering cfg \<and> child_res env = No_output")
  case True
  then have "run_child cfg env i e s = Inr (- 1, s)" unfolding run_child_def by (rule if_P)
  then have "run_child cfg env i e s =
      Inr (- 1, out [] (s\<lparr>pcnt_counter := pcnt_counter s, running := (running s)[i := running s ! i], zoofile := zoofile s\<rparr>))"
    by (simp add: out_Nil)
  then show ?thesis using zoo i(2) list.pred_inject(1) [of is_out] by (intro exI conjI disjI1) (rule refl | assumption)+
next
  case False
  obtain c n where c: "subst_pcnt_f (self_pid cfg) (pcnt_counter s) e = (Some c, n)" using subst_defined [OF e] .
  define s1 where "s1 = s\<lparr>pcnt_counter := n, running := (running s)[i := (running s ! i)\<lparr>s_cmd := Some e\<rparr>]\<rparr>"
  let ?w = "if \<not> buffering cfg \<and> \<not> quiet_mode (opts cfg) then write_test_start cfg env e s1 else Inr s1"
  have "outputs s1 ?w" using env by (simp add: env_ok_def write_test_start_out outputs_refl)
  then obtain es where es: "list_all is_out es" "?w = Inr (out es s1)" by (rule outputsE)
  have s1: "running s1 = (running s)[i := (running s ! i)\<lparr>s_cmd := Some e\<rparr>]" "zoofile s1 = zoofile s"
    "running s1 ! i = (running s ! i)\<lparr>s_cmd := Some e\<rparr>" using i by (simp_all add: s1_def)
  have eq: "run_child cfg env i e s = bindr ?w (forked cfg env i e)" if "child_res env \<noteq> No_pipe"
    unfolding run_child_def forked_def [abs_def] using False c that by (simp only: if_False prod.case option.case Let_def s1_def) simp
  show ?thesis
  proof (cases "child_res env = No_pipe")
    case True
    then have "run_child cfg env i e s = Inr (- 1, s\<lparr>pcnt_counter := n\<rparr>)"
      unfolding run_child_def c by (simp only: child.distinct prod.case option.case Let_def if_True if_False simp_thms)
    then have "run_child cfg env i e s =
        Inr (- 1, out [] (s\<lparr>pcnt_counter := n, running := (running s)[i := running s ! i], zoofile := zoofile s\<rparr>))"
      by (simp add: out_Nil)
    then show ?thesis using zoo i(2) list.pred_inject(1) [of is_out] by (intro exI conjI disjI1) (rule refl | assumption)+
  next
    case np: False
    have "run_child cfg env i e s = forked cfg env i e (out es s1)" unfolding eq [OF np] es(2) by simp
    moreover have "zoo_has M (zoofile (out es s1))" "i < length (running (out es s1))" "s_pgrp (running (out es s1) ! i) = 0"
      "s_cmd (running (out es s1) ! i) = Some e" using zoo i by (simp_all add: s1)
    ultimately have "\<exists>cpid fs r z. run_child cfg env i e s = Inr (cpid, out fs ((out es s1)\<lparr>running := (running (out es s1))[i := r], zoofile := z\<rparr>))
        \<and> list_all is_out fs \<and> (cpid = - 1 \<and> s_pgrp r = 0 \<and> zoo_has M z
         \<or> child_res env = Runs cpid \<and> 0 < cpid \<and> r = \<lparr>s_pgrp = cpid, s_stopping = False, s_cmd = Some e\<rparr>
           \<and> zoo_has (add_mset cpid M) z)"
      using forked_ok [OF env _ e, of M "out es s1" i] by (simp only:)
    then obtain cpid fs r z where r: "run_child cfg env i e s = Inr (cpid, out fs ((out es s1)\<lparr>running := (running s1)[i := r], zoofile := z\<rparr>))"
      "list_all is_out fs" "cpid = - 1 \<and> s_pgrp r = 0 \<and> zoo_has M z
         \<or> child_res env = Runs cpid \<and> 0 < cpid \<and> r = \<lparr>s_pgrp = cpid, s_stopping = False, s_cmd = Some e\<rparr>
           \<and> zoo_has (add_mset cpid M) z"
      unfolding out_sel by (elim exE conjE) (rule that)
    have "out fs ((out es s1)\<lparr>running := (running s1)[i := r], zoofile := z\<rparr>) =
        out (es @ fs) (s\<lparr>pcnt_counter := n, running := (running s)[i := r], zoofile := z\<rparr>)"
      by (simp add: out_upd out_out s1) (simp add: s1_def)
    from r(1) [unfolded this] have "run_child cfg env i e s =
        Inr (cpid, out (es @ fs) (s\<lparr>pcnt_counter := n, running := (running s)[i := r], zoofile := z\<rparr>))" .
    moreover have "list_all is_out (es @ fs)" using es(1) r(2) by simp
    ultimately show ?thesis using r(3) by (intro exI conjI)
  qed
qed

text \<open>What \<^verbatim>\<open>check_pids\<close> returns for a child of the table.\<close>

definition reap_ret :: "wstatus \<Rightarrow> bool \<Rightarrow> int" where
  "reap_ret st stopping =
     fst (status_ret st) - (if st = Exited 130 \<and> stopping then 1 else 0) + (if is_signaled st \<and> \<not> stopping then 1 else 0)"

lemma report_child_out:
  assumes "env_ok cfg s0 env"
  shows "outputs s (report_child cfg env e st stopping w s)"
proof -
  have "outputs s (Inr (log_commands cfg e w (log_result cfg (e_name e) st w s)))"
    by (rule outputs_chain [OF log_result_out log_commands_out])
  then show ?thesis
    unfolding report_child_def Let_def
    by (rule outputs_chain)
      (intro outputs_bindr, insert assms,
        auto simp: env_ok_def outputs_refl outputs_bindr write_test_start_out copy_buffered_output_out write_test_end_out)
qed

lemma release_child_ok:
  assumes "io_ok (zio env)" "zoo_has (add_mset cpid M) (zoofile s)" "i32 cpid \<noteq> None" "entry_ok e"
  shows "\<exists>es z os. release_child env cpid e s = Inr (out es (s\<lparr>zoofile := z, orphans := os\<rparr>)) \<and> list_all is_out es
    \<and> (os = orphans s \<and> zoo_has M z \<or> os = mark_orphan (orphans s) cpid \<and> zoo_has (add_mset cpid M) z)"
proof -
  obtain z where z: "clear_zoo env cpid s = Inr (0, s\<lparr>zoofile := z\<rparr>)" "zoo_has M z"
    using clear_zoo_ok [OF assms(1,2)] .
  show ?thesis
  proof (cases "kill_res env cpid 0 = 0 \<or> kill_res env cpid 0 = EPERM")
    case True
    have "plain ''panorphan''" "plain (e_cmdline e)" using assms(4) by (auto simp: plain_def entry_ok_def)
    then obtain y where y: "mark_zoo env cpid ''panorphan'' (e_cmdline e) (s\<lparr>zoofile := z\<rparr>) = Inr (0, s\<lparr>zoofile := y\<rparr>)"
      "zoo_has (add_mset cpid M) y"
      using mark_zoo_ok [OF assms(1) _ assms(3), of M "s\<lparr>zoofile := z\<rparr>" "''panorphan''" "e_cmdline e"] z(2) by auto
    have "release_child env cpid e s = Inr (out [Ev_kill cpid SIGTERM] (s\<lparr>zoofile := y, orphans := mark_orphan (orphans s) cpid\<rparr>))"
      using True z(1) y(1) by (simp add: release_child_def emits_out)
    then show ?thesis
      using y(2) by (intro exI [of _ "[Ev_kill cpid SIGTERM]"] exI [of _ y] exI [of _ "mark_orphan (orphans s) cpid"]) simp
  next
    case False
    then show ?thesis
      using z by (intro exI [of _ "[]"] exI [of _ z] exI [of _ "orphans s"]) (simp add: release_child_def out_Nil)
  qed
qed

lemma reap_slot_ok:
  assumes env: "env_ok cfg s0 env" and zoo: "zoo_has (add_mset cpid M) (zoofile s)" and cpid: "i32 cpid \<noteq> None"
    and r: "running s ! i = r" "s_cmd r = Some e" "entry_ok e"
  shows "\<exists>es z os. reap_slot cfg env cpid st i s =
        Inr (reap_ret st (s_stopping r), out es (s\<lparr>running := (running s)[i := r\<lparr>s_pgrp := 0\<rparr>], zoofile := z, orphans := os\<rparr>))
      \<and> list_all is_out es
      \<and> (os = orphans s \<and> zoo_has M z \<or> os = mark_orphan (orphans s) cpid \<and> zoo_has (add_mset cpid M) z)"
proof -
  obtain w ret where a: "adjusted st (s_stopping r) = (w, ret)" by (cases "adjusted st (s_stopping r)")
  then have ret: "(if is_signaled st \<and> \<not> s_stopping r then ret + 1 else ret) = reap_ret st (s_stopping r)"
    by (cases st) (auto simp: adjusted_def reap_ret_def is_exited_def is_signaled_def split: if_splits)
  obtain es where es: "list_all is_out es" "report_child cfg env e st (s_stopping r) w s = Inr (out es s)"
    using report_child_out [OF env] by (rule outputsE)
  let ?s = "out es (s\<lparr>running := (running s)[i := r\<lparr>s_pgrp := 0\<rparr>]\<rparr>)"
  have "io_ok (zio env)" "zoo_has (add_mset cpid M) (zoofile ?s)" using env zoo by (simp_all add: env_ok_def)
  from release_child_ok [OF this cpid r(3)] obtain fs z os where f:
    "release_child env cpid e ?s = Inr (out fs (?s\<lparr>zoofile := z, orphans := os\<rparr>))" "list_all is_out fs"
    "os = orphans s \<and> zoo_has M z \<or> os = mark_orphan (orphans s) cpid \<and> zoo_has (add_mset cpid M) z" by auto
  have "reap_slot cfg env cpid st i s = Inr (reap_ret st (s_stopping r), out fs (?s\<lparr>zoofile := z, orphans := os\<rparr>))"
    unfolding reap_slot_def Let_def r option.sel a prod.case es(2) bindr_simps ret out_sel out_upd f(1) ..
  then show ?thesis
    using f(2,3) es(1) by (intro exI [of _ "es @ fs"] exI [of _ z] exI [of _ os]) (simp add: out_upd out_out)
qed

subsection \<open>The table and the list\<close>

lemma active_nz: "active s = nz (map s_pgrp (running s))"
  by (simp add: active_def nz_def)

lemma live_nz: "live_orphans s = nz (orphans s)"
  by (simp add: live_orphans_def nz_def)

lemma active_out [simp]: "active (out es s) = active s" "live_orphans (out es s) = live_orphans s"
  by (simp_all add: active_def live_orphans_def)

lemma nz_set: "i < length ps \<Longrightarrow> ps ! i = 0 \<Longrightarrow> p \<noteq> 0 \<Longrightarrow> mset (nz (ps[i := p])) = add_mset p (mset (nz ps))"
proof (induction ps arbitrary: i)
  case (Cons q ps)
  then show ?case by (cases i) auto
qed simp

lemma nz_clear: "i < length ps \<Longrightarrow> ps ! i = p \<Longrightarrow> p \<noteq> 0 \<Longrightarrow> mset (nz ps) = add_mset p (mset (nz (ps[i := 0])))"
proof (induction ps arbitrary: i)
  case (Cons q ps)
  then show ?case by (cases i) auto
qed simp

lemma use_free_nz: "use_free p os = Some os' \<Longrightarrow> p \<noteq> 0 \<Longrightarrow> mset (nz os') = add_mset p (mset (nz os))"
  by (induction os arbitrary: os') (auto split: if_splits)

lemma mark_orphan_nz: "p \<noteq> 0 \<Longrightarrow> mset (nz (mark_orphan os p)) = add_mset p (mset (nz os))"
  by (auto simp: mark_orphan_def use_free_nz split: option.splits list.splits)

lemma free_slot_ok:
  "length (nz (map s_pgrp rs)) < length rs \<Longrightarrow> free_slot rs < length rs \<and> s_pgrp (rs ! free_slot rs) = 0"
  by (induction rs) (auto split: if_splits)

lemma slot_of_ok:
  "p \<in> set (nz (map s_pgrp rs)) \<Longrightarrow> \<exists>i. slot_of p rs = Some i \<and> i < length rs \<and> s_pgrp (rs ! i) = p"
proof (induction rs)
  case (Cons r rs)
  then show ?case by (cases "s_pgrp r = p") (auto split: if_splits)
qed simp

lemma nz_nonzero: "0 \<notin> set (nz ps)"
  by (simp add: nz_def)

lemma stop_slots_pgrp [simp]: "map s_pgrp (stop_slots rs) = map s_pgrp rs"
  by (simp add: stop_slots_def)

definition slot_ok :: "slot \<Rightarrow> bool" where
  "slot_ok r = (s_pgrp r \<noteq> 0 \<longrightarrow> 0 < s_pgrp r \<and> i32 (s_pgrp r) \<noteq> None \<and> (case s_cmd r of Some e \<Rightarrow> entry_ok e | None \<Rightarrow> False))"

lemma stop_slots_ok: "list_all slot_ok rs \<Longrightarrow> list_all slot_ok (stop_slots rs)"
  by (auto simp: stop_slots_def list_all_iff slot_ok_def)

lemma slot_okE:
  assumes "list_all slot_ok rs" "i < length rs" "s_pgrp (rs ! i) \<noteq> 0"
  obtains e where "s_cmd (rs ! i) = Some e" "entry_ok e" "i32 (s_pgrp (rs ! i)) \<noteq> None"
proof -
  have "slot_ok (rs ! i)" using assms(1,2) by (simp add: list_all_length)
  then show ?thesis using assms(3) that by (cases "s_cmd (rs ! i)") (simp_all add: slot_ok_def)
qed

lemma slots_update: "list_all slot_ok rs \<Longrightarrow> slot_ok r \<Longrightarrow> list_all slot_ok (rs[i := r])"
  using set_update_subset_insert [of rs i r] by (auto simp: list_all_iff)

section \<open>The invariant\<close>

definition cfg_ok :: "pan_cfg \<Rightarrow> bool" where
  "cfg_ok cfg = (coll cfg \<noteq> [] \<and> list_all entry_ok (coll cfg))"

text \<open>The table has one slot per concurrent test; \<^verbatim>\<open>num_active\<close> counts the used ones; no process is in two slots; the zoo
  file holds exactly the driver, the running tests and the orphaned groups besides the entries of others (\<open>B\<close>); the
  two counters agree with the log.\<close>

definition core_inv :: "pan_cfg \<Rightarrow> int multiset \<Rightarrow> pan \<Rightarrow> bool" where
  "core_inv cfg M s =
     (length (running s) = keep_active cfg \<and> num_active s = int (length (active s)) \<and> distinct (active s)
      \<and> list_all slot_ok (running s) \<and> c_idx s < length (coll cfg)
      \<and> zoo_has (M + mset (active s) + mset (live_orphans s)) (zoofile s)
      \<and> failcnt s = n_result ''FAIL'' (events s) \<and> tconfcnt s = n_result ''CONF'' (events s))"

lemma core_inv_cong:
  "core_inv cfg M s \<Longrightarrow> running s' = running s \<Longrightarrow> orphans s' = orphans s \<Longrightarrow> num_active s' = num_active s
    \<Longrightarrow> c_idx s' = c_idx s \<Longrightarrow> zoofile s' = zoofile s \<Longrightarrow> events s' = events s \<Longrightarrow> failcnt s' = failcnt s
    \<Longrightarrow> tconfcnt s' = tconfcnt s \<Longrightarrow> core_inv cfg M s'"
  by (simp add: core_inv_def active_def live_orphans_def)

lemma wait_handler_sel [simp]:
  "running (wait_handler sig s) = running s" "orphans (wait_handler sig s) = orphans s"
  "num_active (wait_handler sig s) = num_active s" "c_idx (wait_handler sig s) = c_idx s"
  "zoofile (wait_handler sig s) = zoofile s" "events (wait_handler sig s) = events s"
  "failcnt (wait_handler sig s) = failcnt s" "tconfcnt (wait_handler sig s) = tconfcnt s"
  "starts (wait_handler sig s) = starts s" "stop (wait_handler sig s) = stop s" "go_idle (wait_handler sig s) = go_idle s"
  "exit_stat (wait_handler sig s) = exit_stat s" "fork_in_road (wait_handler sig s) = fork_in_road s"
  by (simp_all add: wait_handler_def Let_def)

lemma core_inv_handler [simp]: "core_inv cfg M (wait_handler sig s) = core_inv cfg M s"
  by (simp add: core_inv_def active_def live_orphans_def)

subsection \<open>Starting\<close>

lemma env_ok_active:
  assumes "active s' = active s"
  shows "env_ok cfg s' env = env_ok cfg s env"
  unfolding env_ok_def assms ..

lemma fill_one_ok:
  assumes inv: "core_inv cfg M s" and cfg: "cfg_ok cfg" and env: "env_ok cfg s env" and can: "can_start cfg s"
  obtains cpid c es n i r z e k c' where
    "fill_one cfg env s = Inr (False, out (Ev_run c # es) (s\<lparr>pcnt_counter := n, running := (running s)[i := r],
        zoofile := z, num_active := num_active s + (if cpid = - 1 then 0 else 1), starts := k, c_idx := c'\<rparr>))"
    "list_all is_out es" "i < length (running s)" "s_pgrp (running s ! i) = 0" "c' < length (coll cfg)"
    "k = (if (cpid \<noteq> - 1 \<or> sequential (opts cfg)) \<and> starts s > 0 then starts s - 1 else starts s)"
    "sequential (opts cfg) \<longrightarrow> c = c_idx s \<and> c' = (if c_idx s + 1 \<ge> length (coll cfg) then 0 else c_idx s + 1)"
    "cpid = - 1 \<and> s_pgrp r = 0 \<and> zoo_has (M + mset (active s) + mset (live_orphans s)) z
         \<or> 0 < cpid \<and> child_res env = Runs cpid \<and> r = \<lparr>s_pgrp = cpid, s_stopping = False, s_cmd = Some e\<rparr> \<and> entry_ok e
           \<and> zoo_has (add_mset cpid (M + mset (active s) + mset (live_orphans s))) z"
proof -
  define i where "i = free_slot (running s)"
  define c where "c = (if sequential (opts cfg) then c_idx s else nat (lrand env mod int (length (coll cfg))))"
  define c' where "c' = (if sequential (opts cfg) then (if c + 1 \<ge> length (coll cfg) then 0 else c + 1) else c)"
  define Z where "Z = M + mset (active s) + mset (live_orphans s)"
  have I: "length (running s) = keep_active cfg" "num_active s = int (length (active s))" "c_idx s < length (coll cfg)"
    "zoo_has Z (zoofile s)" using inv by (simp_all add: core_inv_def Z_def)
  have cnt: "0 < length (coll cfg)" using cfg by (simp add: cfg_ok_def)
  have "nat (lrand env mod int (length (coll cfg))) < length (coll cfg)" using cnt by (simp add: nat_less_iff)
  then have c: "c < length (coll cfg)" using I(3) by (simp add: c_def)
  have c': "c' < length (coll cfg)" using c cnt by (simp add: c'_def)
  have "length (nz (map s_pgrp (running s))) < length (running s)"
    using I(1,2) can by (simp add: can_start_def active_nz)
  then have i: "i < length (running s)" "s_pgrp (running s ! i) = 0" unfolding i_def using free_slot_ok by blast+
  define s1 where "s1 = out [Ev_run c] s"
  have e: "entry_ok (coll cfg ! c)" using cfg c by (simp add: cfg_ok_def list_all_length)
  have "env_ok cfg s1 env" using env env_ok_active [of s1 s] by (simp add: s1_def)
  moreover have "zoo_has Z (zoofile s1)" "i < length (running s1)" "s_pgrp (running s1 ! i) = 0"
    using I(4) i by (simp_all add: s1_def)
  ultimately have "\<exists>cpid es n r z. run_child cfg env i (coll cfg ! c) s1 =
        Inr (cpid, out es (s1\<lparr>pcnt_counter := n, running := (running s1)[i := r], zoofile := z\<rparr>))
      \<and> list_all is_out es \<and> (cpid = - 1 \<and> s_pgrp r = 0 \<and> zoo_has Z z
      \<or> child_res env = Runs cpid \<and> 0 < cpid \<and> r = \<lparr>s_pgrp = cpid, s_stopping = False, s_cmd = Some (coll cfg ! c)\<rparr>
        \<and> zoo_has (add_mset cpid Z) z)" by (intro run_child_ok e)
  then obtain cpid es n r z where r:
    "run_child cfg env i (coll cfg ! c) s1 = Inr (cpid, out es (s1\<lparr>pcnt_counter := n, running := (running s1)[i := r], zoofile := z\<rparr>))"
    "list_all is_out es" "cpid = - 1 \<and> s_pgrp r = 0 \<and> zoo_has Z z
      \<or> child_res env = Runs cpid \<and> 0 < cpid \<and> r = \<lparr>s_pgrp = cpid, s_stopping = False, s_cmd = Some (coll cfg ! c)\<rparr>
        \<and> zoo_has (add_mset cpid Z) z"
    by (elim exE conjE) (rule that)
  define k where "k = (if (cpid \<noteq> - 1 \<or> sequential (opts cfg)) \<and> starts s > 0 then starts s - 1 else starts s)"
  have em: "emits [Ev_run c] s = s1" by (simp add: s1_def emits_out)
  have 1: "fill_one cfg env s = Inr (False, out (Ev_run c # es) (s\<lparr>pcnt_counter := n, running := (running s)[i := r],
        zoofile := z, num_active := num_active s + (if cpid = - 1 then 0 else 1), starts := k, c_idx := c'\<rparr>))"
    unfolding fill_one_def Let_def c_def [symmetric] i_def [symmetric] em r(1) bindr_simps prod.case c'_def [symmetric]
    using i(1) by (simp add: s1_def out_upd out_out k_def)
  have 2: "sequential (opts cfg) \<longrightarrow> c = c_idx s \<and> c' = (if c_idx s + 1 \<ge> length (coll cfg) then 0 else c_idx s + 1)"
    by (simp add: c'_def c_def)
  have 3: "cpid = - 1 \<and> s_pgrp r = 0 \<and> zoo_has Z z
      \<or> 0 < cpid \<and> child_res env = Runs cpid \<and> r = \<lparr>s_pgrp = cpid, s_stopping = False, s_cmd = Some (coll cfg ! c)\<rparr>
        \<and> entry_ok (coll cfg ! c) \<and> zoo_has (add_mset cpid Z) z" using r(3) e by argo
  from 1 r(2) i c' k_def 2 3 [unfolded Z_def] show ?thesis by (rule that)
qed

text \<open>The history: the commands handed to \<^verbatim>\<open>run_child\<close>, and the number of children for which \<^verbatim>\<open>check_pids\<close> returned an
  error.\<close>

definition runs :: "pan_event list \<Rightarrow> nat list" where
  "runs es = concat (map (\<lambda>e. case e of Ev_run c \<Rightarrow> [c] | _ \<Rightarrow> []) es)"

definition errs :: "pan_event list \<Rightarrow> int" where
  "errs es = int (length (filter (\<lambda>e. case e of Ev_reap p r \<Rightarrow> r \<noteq> 0 | _ \<Rightarrow> False) es))"

lemma history_simps [simp]:
  "runs [] = []" "runs (es @ fs) = runs es @ runs fs" "runs (e # es) = (case e of Ev_run c \<Rightarrow> [c] | _ \<Rightarrow> []) @ runs es"
  "errs [] = 0" "errs (es @ fs) = errs es + errs fs"
  "errs (e # es) = (case e of Ev_reap p r \<Rightarrow> if r \<noteq> 0 then 1 else 0 | _ \<Rightarrow> 0) + errs es"
  by (simp_all add: runs_def errs_def split: pan_event.splits)

lemma history_out: "list_all is_out es \<Longrightarrow> runs es = [] \<and> errs es = 0"
proof (induction es)
  case (Cons e es)
  then show ?case by (cases e) simp_all
qed simp

lemma history_kills [simp]: "runs (map (\<lambda>p. Ev_kill p sig) ps) = []" "errs (map (\<lambda>p. Ev_kill p sig) ps) = 0"
  by (induction ps) simp_all

lemma filled_inv:
  assumes inv: "core_inv cfg M s" and env: "env_ok cfg s env"
    and f: "i < length (running s)" "s_pgrp (running s ! i) = 0" "c' < length (coll cfg)"
      "cpid = - 1 \<and> s_pgrp r = 0 \<and> zoo_has (M + mset (active s) + mset (live_orphans s)) z
         \<or> 0 < cpid \<and> child_res env = Runs cpid \<and> r = \<lparr>s_pgrp = cpid, s_stopping = False, s_cmd = Some e\<rparr> \<and> entry_ok e
           \<and> zoo_has (add_mset cpid (M + mset (active s) + mset (live_orphans s))) z"
  shows "core_inv cfg M (out es (s\<lparr>pcnt_counter := n, running := (running s)[i := r],
        zoofile := z, num_active := num_active s + (if cpid = - 1 then 0 else 1), starts := k, c_idx := c'\<rparr>))"
    (is "core_inv cfg M ?s")
proof -
  define s' where "s' = ?s"
  have I: "length (running s) = keep_active cfg" "num_active s = int (length (active s))" "distinct (active s)"
    "list_all slot_ok (running s)" "failcnt s = n_result ''FAIL'' (events s)" "tconfcnt s = n_result ''CONF'' (events s)"
    using inv by (simp_all add: core_inv_def)
  have act': "active s' = nz ((map s_pgrp (running s))[i := s_pgrp r])" by (simp add: s'_def active_nz map_update)
  have live': "live_orphans s' = live_orphans s" by (simp add: s'_def live_orphans_def)
  have i: "i < length (map s_pgrp (running s))" "map s_pgrp (running s) ! i = 0" using f(1,2) by simp_all
  have "core_inv cfg M s'"
    using f(4)
  proof
    assume a: "cpid = - 1 \<and> s_pgrp r = 0 \<and> zoo_has (M + mset (active s) + mset (live_orphans s)) z"
    have "(map s_pgrp (running s))[i := 0] = map s_pgrp (running s)" using i(2) by (metis list_update_id)
    then have "active s' = active s" using a act' active_nz [of s] by simp
    moreover have "list_all slot_ok ((running s)[i := r])" using I(4) a by (intro slots_update) (simp_all add: slot_ok_def)
    ultimately show ?thesis using I f(3) a unfolding core_inv_def live' by (simp add: s'_def)
  next
    assume a: "0 < cpid \<and> child_res env = Runs cpid \<and> r = \<lparr>s_pgrp = cpid, s_stopping = False, s_cmd = Some e\<rparr> \<and> entry_ok e
           \<and> zoo_has (add_mset cpid (M + mset (active s) + mset (live_orphans s))) z"
    then have "mset (active s') = mset (cpid # active s)" using nz_set [OF i, of cpid] act' active_nz [of s] by simp
    moreover have "cpid \<notin> set (active s)" "i32 cpid \<noteq> None" using env a by (simp_all add: env_ok_def)
    ultimately have "distinct (active s')" "length (active s') = Suc (length (active s))" "mset (active s') = add_mset cpid (mset (active s))"
      using I(3) mset_eq_imp_distinct_iff [of "active s'" "cpid # active s"] mset_eq_length [of "active s'" "cpid # active s"] by simp_all
    moreover have "list_all slot_ok ((running s)[i := r])"
      using I(4) a \<open>i32 cpid \<noteq> None\<close> by (intro slots_update) (simp_all add: slot_ok_def)
    ultimately show ?thesis using I f(3) a unfolding core_inv_def live' by (simp add: s'_def)
  qed
  then show ?thesis unfolding s'_def .
qed

lemma fill_one_inv:
  assumes inv: "core_inv cfg M s" and cfg: "cfg_ok cfg" and env: "env_ok cfg s env" and can: "can_start cfg s"
  obtains s' started where "fill_one cfg env s = Inr (False, s')" "core_inv cfg M s'"
    "num_active s' = num_active s + (if started then 1 else 0)"
    "starts s' = (if (started \<or> sequential (opts cfg)) \<and> starts s > 0 then starts s - 1 else starts s)"
    "sequential (opts cfg) \<longrightarrow> runs (events s') = runs (events s) @ [c_idx s]
      \<and> c_idx s' = (if c_idx s + 1 \<ge> length (coll cfg) then 0 else c_idx s + 1)"
    "errs (events s') = errs (events s)" "stop s' = stop s" "go_idle s' = go_idle s" "exit_stat s' = exit_stat s"
    "fork_in_road s' = fork_in_road s" "rec_signal s' = rec_signal s" "send_signal s' = send_signal s"
proof -
  from fill_one_ok [OF assms] obtain cpid c es n i r z e k c' where f:
    "fill_one cfg env s = Inr (False, out (Ev_run c # es) (s\<lparr>pcnt_counter := n, running := (running s)[i := r],
        zoofile := z, num_active := num_active s + (if cpid = - 1 then 0 else 1), starts := k, c_idx := c'\<rparr>))"
    "list_all is_out es" "i < length (running s)" "s_pgrp (running s ! i) = 0" "c' < length (coll cfg)"
    "k = (if (cpid \<noteq> - 1 \<or> sequential (opts cfg)) \<and> starts s > 0 then starts s - 1 else starts s)"
    "sequential (opts cfg) \<longrightarrow> c = c_idx s \<and> c' = (if c_idx s + 1 \<ge> length (coll cfg) then 0 else c_idx s + 1)"
    "cpid = - 1 \<and> s_pgrp r = 0 \<and> zoo_has (M + mset (active s) + mset (live_orphans s)) z
         \<or> 0 < cpid \<and> child_res env = Runs cpid \<and> r = \<lparr>s_pgrp = cpid, s_stopping = False, s_cmd = Some e\<rparr> \<and> entry_ok e
           \<and> zoo_has (add_mset cpid (M + mset (active s) + mset (live_orphans s))) z" .
  define s' where "s' = out (Ev_run c # es) (s\<lparr>pcnt_counter := n, running := (running s)[i := r],
        zoofile := z, num_active := num_active s + (if cpid = - 1 then 0 else 1), starts := k, c_idx := c'\<rparr>)"
  have "core_inv cfg M s'" unfolding s'_def by (rule filled_inv [OF inv env f(3-5,8)])
  from f(1) [folded s'_def] this show ?thesis
  proof (rule that [of s' "cpid \<noteq> - 1"])
    show "sequential (opts cfg) \<longrightarrow> runs (events s') = runs (events s) @ [c_idx s]
      \<and> c_idx s' = (if c_idx s + 1 \<ge> length (coll cfg) then 0 else c_idx s + 1)" "errs (events s') = errs (events s)"
      using f(7) history_out [OF f(2)] by (simp_all add: s'_def)
  qed (simp_all add: s'_def f(6))
qed

subsection \<open>Reaping\<close>

lemma reaped_inv:
  assumes inv: "core_inv cfg M s" and i: "i < length (running s)" "s_pgrp (running s ! i) = p" "p \<noteq> 0"
    and zoo: "zoo_has (M + mset (nz ((map s_pgrp (running s))[i := 0])) + mset (nz os)) z"
  shows "core_inv cfg M (out es (s\<lparr>num_active := num_active s - 1,
      running := (running s)[i := (running s ! i)\<lparr>s_pgrp := 0\<rparr>], zoofile := z, orphans := os\<rparr>))"
    (is "core_inv cfg M ?s")
proof -
  define ps where "ps = (map s_pgrp (running s))[i := 0]"
  have I: "length (running s) = keep_active cfg" "num_active s = int (length (active s))" "distinct (active s)"
    "list_all slot_ok (running s)" "c_idx s < length (coll cfg)"
    "failcnt s = n_result ''FAIL'' (events s)" "tconfcnt s = n_result ''CONF'' (events s)"
    using inv by (simp_all add: core_inv_def)
  have ps: "mset (active s) = add_mset p (mset (nz ps))"
    using nz_clear [of i "map s_pgrp (running s)" p] i by (simp add: ps_def active_nz)
  have act': "active ?s = nz ps" by (simp add: active_nz map_update ps_def)
  have ok: "list_all slot_ok ((running s)[i := (running s ! i)\<lparr>s_pgrp := 0\<rparr>])"
    using I(4) by (intro slots_update) (simp_all add: slot_ok_def)
  have "distinct (nz ps)" "length (active s) = Suc (length (nz ps))"
    using I(3) mset_eq_imp_distinct_iff [of "active s" "p # nz ps"] mset_eq_length [of "active s" "p # nz ps"] ps by simp_all
  then show ?thesis using I ok zoo [folded ps_def] unfolding core_inv_def act' live_nz by simp
qed

lemma check_pids_inv:
  assumes inv: "core_inv cfg M s" and env: "env_ok cfg s env"
  obtains err s' where "check_pids cfg env s = Inr (err, s')" "core_inv cfg M s'"
    "num_active s' = num_active s - (case wait_res env of Waited p st \<Rightarrow> 1 | Wait_error e \<Rightarrow> 0)"
    "runs (events s') = runs (events s)" "errs (events s') = errs (events s) + (if err \<noteq> 0 then 1 else 0)"
    "starts s' = starts s" "c_idx s' = c_idx s" "stop s' = stop s" "go_idle s' = go_idle s" "exit_stat s' = exit_stat s"
    "fork_in_road s' = fork_in_road s" "rec_signal s' = rec_signal s" "send_signal s' = send_signal s"
proof -
  define Z where "Z = M + mset (active s)"
  have I: "length (running s) = keep_active cfg" "num_active s = int (length (active s))" "distinct (active s)"
    "list_all slot_ok (running s)" "c_idx s < length (coll cfg)" "zoo_has (Z + mset (nz (orphans s))) (zoofile s)"
    "failcnt s = n_result ''FAIL'' (events s)" "tconfcnt s = n_result ''CONF'' (events s)"
    using inv by (simp_all add: core_inv_def live_nz Z_def)
  define os where "os = survivors env 0 (orphans s)"
  define ks where "ks = map (\<lambda>p. Ev_kill p 0) (nz (orphans s))"
  have io: "io_ok (zio env)" using env by (simp add: env_ok_def)
  obtain z where z: "check_orphans env 0 s = Inr (out ks (s\<lparr>zoofile := z, orphans := os\<rparr>))" "zoo_has (Z + mset (nz os)) z"
    unfolding os_def ks_def using check_orphans_ok [OF io I(6)] .
  show ?thesis
  proof (cases "wait_res env")
    case (Wait_error e)
    show ?thesis
    proof (rule that [of 0 "out ks (s\<lparr>zoofile := z, orphans := os\<rparr>)"])
      show "check_pids cfg env s = Inr (0, out ks (s\<lparr>zoofile := z, orphans := os\<rparr>))"
        using Wait_error by (simp add: check_pids_def z(1))
      show "core_inv cfg M (out ks (s\<lparr>zoofile := z, orphans := os\<rparr>))"
        using I z(2) by (simp add: core_inv_def active_nz live_nz Z_def)
    qed (simp_all add: Wait_error ks_def)
  next
    case (Waited p st)
    then have p: "p \<in> set (active s)" and st: "snd (status_ret st) = 1"
      using env by (cases st, auto simp: env_ok_def is_exited_def is_signaled_def)+
    define s1 where "s1 = out ks (s\<lparr>zoofile := z, orphans := os, num_active := num_active s - 1\<rparr>)"
    obtain i where i: "slot_of p (running s) = Some i" "i < length (running s)" "s_pgrp (running s ! i) = p"
      using slot_of_ok [of p "running s"] p by (auto simp: active_nz)
    have p0: "p \<noteq> 0" using p nz_nonzero unfolding active_nz by metis
    obtain e where e: "s_cmd (running s ! i) = Some e" "entry_ok e" "i32 p \<noteq> None"
      using slot_okE [OF I(4) i(2)] i(3) p0 by metis
    define ps where "ps = (map s_pgrp (running s))[i := 0]"
    have ps: "mset (active s) = add_mset p (mset (nz ps))"
      using nz_clear [of i "map s_pgrp (running s)" p] i(2,3) p0 by (simp add: ps_def active_nz)
    have zoo: "zoo_has (add_mset p (M + mset (nz ps) + mset (nz os))) (zoofile s1)" using z(2) by (simp add: s1_def Z_def ps)
    have r1: "running s1 ! i = running s ! i" by (simp add: s1_def)
    from reap_slot_ok [OF env zoo e(3) r1 e(1,2), of st] obtain es z' os' where q:
      "reap_slot cfg env p st i s1 = Inr (reap_ret st (s_stopping (running s ! i)), out es (s1\<lparr>running := (running s1)[i := (running s ! i)\<lparr>s_pgrp := 0\<rparr>], zoofile := z', orphans := os'\<rparr>))"
      "list_all is_out es"
      "os' = orphans s1 \<and> zoo_has (M + mset (nz ps) + mset (nz os)) z'
        \<or> os' = mark_orphan (orphans s1) p \<and> zoo_has (add_mset p (M + mset (nz ps) + mset (nz os))) z'"
      by (elim exE conjE) (rule that)
    have zoo': "zoo_has (M + mset (nz ps) + mset (nz os')) z'"
      using q(3) mark_orphan_nz [OF p0, of os] by (elim disjE) (simp_all add: s1_def)
    define err where "err = reap_ret st (s_stopping (running s ! i))"
    define s' where "s' = out (ks @ es @ [Ev_reap p err]) (s\<lparr>num_active := num_active s - 1,
      running := (running s)[i := (running s ! i)\<lparr>s_pgrp := 0\<rparr>], zoofile := z', orphans := os'\<rparr>)"
    have eq: "check_pids cfg env s = Inr (err, s')"
      unfolding check_pids_def z(1) bindr_simps Waited wait_result.case Let_def st
      using i(1) q(1) by (simp add: s1_def out_upd err_def s'_def emits_out out_out)
    have "core_inv cfg M s'"
      unfolding s'_def by (rule reaped_inv [OF inv i(2,3) p0 zoo' [unfolded ps_def]])
    from eq this show ?thesis
    proof (rule that)
      show "runs (events s') = runs (events s)" "errs (events s') = errs (events s) + (if err \<noteq> 0 then 1 else 0)"
        using history_out [OF q(2)] by (simp_all add: s'_def ks_def)
    qed (simp_all add: s'_def Waited)
  qed
qed

subsection \<open>Signals and the end\<close>

lemma propagate_inv:
  assumes inv: "core_inv cfg M s" and io: "io_ok (zio env)"
  obtains s' where "propagate_signal env s = Inr s'" "core_inv cfg M s'"
    "active s' = active s" "orphans s' = survivors env (send_signal s) (orphans s)"
    "events s' = events s @ map (\<lambda>p. Ev_kill p (send_signal s)) (active s @ live_orphans s)"
    "starts s' = starts s" "c_idx s' = c_idx s" "stop s' = stop s" "go_idle s' = go_idle s" "exit_stat s' = exit_stat s"
    "fork_in_road s' = fork_in_road s" "rec_signal s' = 0" "send_signal s' = 0" "lastsent s' = lastsent s"
    "num_active s' = num_active s"
proof -
  have I: "length (running s) = keep_active cfg" "num_active s = int (length (active s))" "distinct (active s)"
    "list_all slot_ok (running s)" "c_idx s < length (coll cfg)" "zoo_has (M + mset (active s) + mset (nz (orphans s))) (zoofile s)"
    "failcnt s = n_result ''FAIL'' (events s)" "tconfcnt s = n_result ''CONF'' (events s)"
    using inv by (simp_all add: core_inv_def live_nz)
  from propagate_signal_ok [OF io I(6)] obtain z where z: "propagate_signal env s =
      Inr (out (map (\<lambda>p. Ev_kill p (send_signal s)) (active s @ nz (orphans s)))
        (s\<lparr>zoofile := z, orphans := survivors env (send_signal s) (orphans s), running := stop_slots (running s),
           rec_signal := 0, send_signal := 0\<rparr>))"
    "zoo_has (M + mset (active s) + mset (nz (survivors env (send_signal s) (orphans s)))) z" .
  define s' where "s' = out (map (\<lambda>p. Ev_kill p (send_signal s)) (active s @ nz (orphans s)))
        (s\<lparr>zoofile := z, orphans := survivors env (send_signal s) (orphans s), running := stop_slots (running s),
           rec_signal := 0, send_signal := 0\<rparr>)"
  have act': "active s' = active s" by (simp add: s'_def active_nz)
  have "length (stop_slots (running s)) = length (running s)" by (simp add: stop_slots_def)
  then have "core_inv cfg M s'"
    using I z(2) stop_slots_ok [OF I(4)] unfolding core_inv_def act' live_nz by (simp add: s'_def)
  from z(1) [folded s'_def] this act' show ?thesis by (rule that) (simp_all add: s'_def live_nz)
qed

lemma handle_signal_inv:
  assumes inv: "core_inv cfg M s" and io: "io_ok (zio env)"
  obtains s' where "handle_signal env s = Inr s'" "core_inv cfg M s'" "rec_signal s' = 0"
    "runs (events s') = runs (events s)" "errs (events s') = errs (events s)"
    "starts s' = starts s" "c_idx s' = c_idx s" "exit_stat s' = exit_stat s" "num_active s' = num_active s"
    "fork_in_road s' \<longrightarrow> fork_in_road s"
    "rec_signal s = 0 \<and> s' = s \<or> rec_signal s \<noteq> 0 \<and> send_signal s' = 0
       \<and> (if fork_in_road s' then stop s' = stop s \<and> go_idle s' = go_idle s + 1 else stop s' = stop s + 1 \<and> go_idle s' = go_idle s)"
proof -
  consider "rec_signal s = 0" | "rec_signal s = SIGUSR2" "rec_signal s \<noteq> 0" | "rec_signal s \<noteq> 0" "rec_signal s \<noteq> SIGUSR2" by blast
  then show ?thesis
  proof cases
    case 1
    then show ?thesis using inv by (intro that [of s]) (simp_all add: handle_signal_def)
  next
    case 2
    define s' where "s' = (if fork_in_road s then s\<lparr>go_idle := go_idle s + 1\<rparr> else s\<lparr>stop := stop s + 1\<rparr>)\<lparr>rec_signal := 0, send_signal := 0\<rparr>"
    have "handle_signal env s = Inr s'" using 2 by (simp add: handle_signal_def s'_def)
    moreover have "core_inv cfg M s'" by (rule core_inv_cong [OF inv]) (simp_all add: s'_def)
    ultimately show ?thesis using 2 by (intro that [of s']) (simp_all add: s'_def)
  next
    case 3
    define s1 where "s1 = (if rec_signal s = SIGUSR1 then s\<lparr>fork_in_road := False\<rparr> else s)"
    have "core_inv cfg M s1" by (rule core_inv_cong [OF inv]) (simp_all add: s1_def)
    from propagate_inv [OF this io] obtain s2 where s2: "propagate_signal env s1 = Inr s2" "core_inv cfg M s2"
      "events s2 = events s1 @ map (\<lambda>p. Ev_kill p (send_signal s1)) (active s1 @ live_orphans s1)"
      "starts s2 = starts s1" "c_idx s2 = c_idx s1" "stop s2 = stop s1" "go_idle s2 = go_idle s1" "exit_stat s2 = exit_stat s1"
      "fork_in_road s2 = fork_in_road s1" "rec_signal s2 = 0" "send_signal s2 = 0" "num_active s2 = num_active s1" by blast
    define s' where "s' = (if fork_in_road s2 then s2\<lparr>go_idle := go_idle s2 + 1\<rparr> else s2\<lparr>stop := stop s2 + 1\<rparr>)"
    have "handle_signal env s = Inr s'" using 3 s2(1) by (simp add: handle_signal_def Let_def s1_def [symmetric] s'_def)
    moreover have "core_inv cfg M s'" by (rule core_inv_cong [OF s2(2)]) (simp_all add: s'_def)
    moreover have s1: "events s1 = events s" "starts s1 = starts s" "c_idx s1 = c_idx s" "stop s1 = stop s" "go_idle s1 = go_idle s"
      "exit_stat s1 = exit_stat s" "num_active s1 = num_active s" "fork_in_road s1 \<longrightarrow> fork_in_road s" by (simp_all add: s1_def)
    ultimately show ?thesis using 3(1) s2(3-12) by (intro that [of s']) (simp_all add: s'_def s1)
  qed
qed

lemma after_reap_sel [simp]:
  "starts (after_reap cfg err s) = starts s" "c_idx (after_reap cfg err s) = c_idx s" "stop (after_reap cfg err s) = stop s"
  "num_active (after_reap cfg err s) = num_active s" "events (after_reap cfg err s) = events s"
  "fork_in_road (after_reap cfg err s) = fork_in_road s" "running (after_reap cfg err s) = running s"
  "orphans (after_reap cfg err s) = orphans s" "zoofile (after_reap cfg err s) = zoofile s"
  "failcnt (after_reap cfg err s) = failcnt s" "tconfcnt (after_reap cfg err s) = tconfcnt s"
  "go_idle (after_reap cfg err s) = (if err \<noteq> 0 \<and> fork_in_road s then go_idle s + 1 else go_idle s)"
  "exit_stat (after_reap cfg err s) = (if err \<noteq> 0 \<and> track_exit_stats (opts cfg) then exit_stat s + 1 else exit_stat s)"
  by (simp_all add: after_reap_def Let_def)

lemma after_reap_inv: "core_inv cfg M s \<Longrightarrow> core_inv cfg M (after_reap cfg err s)"
  by (erule core_inv_cong) simp_all

lemma resume_inv: "core_inv cfg M s \<Longrightarrow> core_inv cfg M (resume s)"
  by (erule core_inv_cong) (simp_all add: resume_def)

lemma count_stop_inv: "core_inv cfg M s \<Longrightarrow> core_inv cfg M (count_stop env s)"
  by (erule core_inv_cong) (simp_all add: count_stop_def)

lemma finish_inv:
  assumes inv: "core_inv cfg (add_mset (self_pid cfg) B) s" and io: "io_ok (zio env)"
  obtains s' where "finish cfg env s = Inr s'" "core_inv cfg B s'" "active s' = active s" "live_orphans s' = live_orphans s"
    "exit_stat s' = exit_stat s" "runs (events s') = runs (events s)" "errs (events s') = errs (events s)" "starts s' = starts s"
    "stop s' = stop s" "go_idle s' = go_idle s" "fork_in_road s' = fork_in_road s" "rec_signal s' = rec_signal s"
    "send_signal s' = send_signal s" "c_idx s' = c_idx s"
proof -
  have "zoo_has (add_mset (self_pid cfg) (B + mset (active s) + mset (live_orphans s))) (zoofile s)"
    using inv by (simp add: core_inv_def)
  from clear_zoo_ok [OF io this] obtain z where z: "clear_zoo env (self_pid cfg) s = Inr (0, s\<lparr>zoofile := z\<rparr>)"
    "zoo_has (B + mset (active s) + mset (live_orphans s)) z" .
  define es where "es = (if logfilename (opts cfg) \<noteq> None \<and> fmt_print (opts cfg)
    then [Ev_totals (int (length (coll cfg))) (tconfcnt s) (failcnt s)] else [])"
  define s' where "s' = out es (s\<lparr>zoofile := z\<rparr>)"
  have eq: "finish cfg env s = Inr s'" by (simp add: finish_def z(1) s'_def es_def emits_out out_Nil)
  have sel: "active s' = active s" "live_orphans s' = live_orphans s" by (simp_all add: s'_def active_def live_orphans_def)
  then have "core_inv cfg B s'" using inv z(2) unfolding core_inv_def sel by (simp add: s'_def)
  from eq this sel show ?thesis by (rule that) (simp_all add: s'_def es_def)
qed

subsection \<open>All steps\<close>

text \<open>The invariant of a program point: no test runs any more when the orphans are awaited, and no group is left at the
  end, when the driver has removed its own entry.\<close>

definition pan_inv :: "pan_cfg \<Rightarrow> int multiset \<Rightarrow> pc \<Rightarrow> pan \<Rightarrow> bool" where
  "pan_inv cfg B pc s =
     (core_inv cfg (if ended pc then B else add_mset (self_pid cfg) B) s
      \<and> (pc = Orphans \<or> pc = Finish \<or> ended pc \<longrightarrow> active s = [])
      \<and> (pc = Finish \<or> ended pc \<longrightarrow> live_orphans s = [])
      \<and> (\<forall>e. pc = Ended e \<longrightarrow> e = Exit (exit_stat s)))"

lemma ended_simps [simp]:
  "\<not> ended Fill" "\<not> ended Count_stop" "\<not> ended Handle_signal" "\<not> ended Reap" "\<not> ended Decide" "\<not> ended Orphans"
  "\<not> ended Finish" "ended (Ended e)"
  by (simp_all add: ended_def)

lemma survivors_nil: "nz ps = [] \<Longrightarrow> nz (survivors env sig ps) = []"
  by (induction ps) (auto split: if_splits)

lemma live_empty: "list_all (\<lambda>p. p = 0) (orphans s) = (live_orphans s = [])"
  by (simp add: live_orphans_def list_all_iff filter_empty_conv)

lemma orphan_round_inv:
  assumes "core_inv cfg M s" "io_ok (zio env)"
  obtains s' where "orphan_round env s = Inr s'" "core_inv cfg M s'" "active s' = active s"
    "orphans s' = survivors env (send_signal (if rec_signal s = 0 then wait_handler SIGINT s else s)) (orphans s)"
    "events s' = events s @ map (\<lambda>p. Ev_kill p (send_signal (if rec_signal s = 0 then wait_handler SIGINT s else s))) (active s @ live_orphans s)"
    "starts s' = starts s" "stop s' = stop s" "exit_stat s' = exit_stat s" "rec_signal s' = 0" "send_signal s' = 0"
    "lastsent s' = lastsent (if rec_signal s = 0 then wait_handler SIGINT s else s)" "num_active s' = num_active s"
    "c_idx s' = c_idx s" "go_idle s' = go_idle s" "fork_in_road s' = fork_in_road s"
proof -
  define s1 where "s1 = (if rec_signal s = 0 then wait_handler SIGINT s else s)"
  have sel: "running s1 = running s" "orphans s1 = orphans s" "events s1 = events s" "starts s1 = starts s" "stop s1 = stop s"
    "exit_stat s1 = exit_stat s" "num_active s1 = num_active s" "c_idx s1 = c_idx s" "go_idle s1 = go_idle s"
    "fork_in_road s1 = fork_in_road s" by (simp_all add: s1_def)
  have sel': "active s1 = active s" "live_orphans s1 = live_orphans s" by (simp_all add: active_def live_orphans_def sel)
  have "core_inv cfg M s1" using assms(1) by (simp add: s1_def)
  from propagate_inv [OF this assms(2)] obtain s' where
    "propagate_signal env s1 = Inr s'" "core_inv cfg M s'"
    "active s' = active s1" "orphans s' = survivors env (send_signal s1) (orphans s1)"
    "events s' = events s1 @ map (\<lambda>p. Ev_kill p (send_signal s1)) (active s1 @ live_orphans s1)"
    "starts s' = starts s1" "c_idx s' = c_idx s1" "stop s' = stop s1" "go_idle s' = go_idle s1" "exit_stat s' = exit_stat s1"
    "fork_in_road s' = fork_in_road s1" "rec_signal s' = 0" "send_signal s' = 0" "lastsent s' = lastsent s1"
    "num_active s' = num_active s1" .
  then show ?thesis
    by (intro that [of s']) (simp_all add: orphan_round_def s1_def [symmetric] sel sel')
qed

lemma main_step_inv:
  assumes inv: "pan_inv cfg B pc s" and pc: "\<not> ended pc" and cfg: "cfg_ok cfg" and env: "env_ok cfg s env"
    and step: "main_step cfg env pc s = (pc', s')"
  shows "pan_inv cfg B pc' s'"
proof -
  let ?M = "add_mset (self_pid cfg) B"
  have I: "core_inv cfg ?M s" using inv pc by (simp add: pan_inv_def)
  have io: "io_ok (zio env)" using env by (simp add: env_ok_def)
  show ?thesis
  proof (cases pc)
    case Fill
    show ?thesis
    proof (cases "can_start cfg s")
      case True
      from fill_one_inv [OF I cfg env True] obtain t where "fill_one cfg env s = Inr (False, t)" "core_inv cfg ?M t" .
      then show ?thesis using step Fill True by (auto simp: pan_inv_def)
    qed (use step Fill I in \<open>auto simp: pan_inv_def\<close>)
  next
    case Count_stop
    then show ?thesis using step count_stop_inv [OF I] by (auto simp: pan_inv_def)
  next
    case Handle_signal
    from handle_signal_inv [OF I io] obtain t where "handle_signal env s = Inr t" "core_inv cfg ?M t" .
    then show ?thesis using step Handle_signal by (auto simp: pan_inv_def)
  next
    case Reap
    from check_pids_inv [OF I env] obtain err t where "check_pids cfg env s = Inr (err, t)" "core_inv cfg ?M t" .
    then show ?thesis using step Reap after_reap_inv by (auto simp: pan_inv_def)
  next
    case Decide
    have "active s = []" if "leave_loop s" using that I by (simp add: leave_loop_def core_inv_def)
    then show ?thesis using step Decide I resume_inv [OF I] by (auto simp: pan_inv_def split: if_splits)
  next
    case Orphans
    from orphan_round_inv [OF I io] obtain t where t: "orphan_round env s = Inr t" "core_inv cfg ?M t" "active t = active s" .
    then show ?thesis using step Orphans inv by (auto simp: pan_inv_def live_empty split: if_splits)
  next
    case Finish
    from finish_inv [OF I io] obtain t where "finish cfg env s = Inr t" "core_inv cfg B t" "active t = active s"
      "live_orphans t = live_orphans s" .
    then show ?thesis using step Finish inv by (auto simp: pan_inv_def)
  qed (use pc in simp)
qed

lemma handler_inv: "pan_inv cfg B pc s \<Longrightarrow> \<not> ended pc \<Longrightarrow> pan_inv cfg B pc (wait_handler sig s)"
  by (auto simp: pan_inv_def active_def live_orphans_def ended_def)

lemma pan_reach_inv:
  assumes "pan_reach cfg s0 pc s" "cfg_ok cfg" "core_inv cfg (add_mset (self_pid cfg) B) s0"
  shows "pan_inv cfg B pc s"
  using assms(1)
proof (induction rule: pan_reach.induct)
  case start
  show ?case using assms(3) by (simp add: pan_inv_def)
next
  case (step pc s env pc' s')
  then show ?case using main_step_inv [OF _ _ assms(2)] by blast
qed (rule handler_inv)

subsection \<open>Start-up\<close>

lemma each_slot_mark:
  assumes "io_ok io" "plain name" "list_all (\<lambda>c. i32 c \<noteq> None) cs" "zoo_has M z"
  shows "\<exists>z'. each_slot (\<lambda>c z. zoo_mark_cmdline io (Some z) c name []) cs z = Inr z' \<and> zoo_has (M + mset cs) z'"
  using assms(3,4)
proof (induction cs arbitrary: z M)
  case (Cons c cs)
  have "wf_zoo z \<and> io_ok io" "i32 c \<noteq> None" "plain []" using Cons.prems assms(1) by (simp_all add: zoo_has_def plain_def)
  from zr.mark [OF this(1,2) assms(2) this(3)] obtain y where y:
    "zoo_mark_cmdline io (Some z) c name [] = Some (0, Some y)" "zoo_has (add_mset c M) y"
    using Cons.prems by (auto simp: zoo_has_def)
  then show ?case using Cons.IH [OF _ y(2)] Cons.prems(1) by simp
qed simp

lemma each_slot_clear:
  assumes "io_ok io" "zoo_has (M + mset cs) z"
  shows "\<exists>z'. each_slot (\<lambda>c z. zoo_clear io (Some z) c) cs z = Inr z' \<and> zoo_has M z'"
  using assms(2)
proof (induction cs arbitrary: z)
  case (Cons c cs)
  have "wf_zoo z \<and> io_ok io" "c \<in># zoo_pids z" using Cons.prems assms(1) by (simp_all add: zoo_has_def)
  from zr.clear [OF this] obtain y where y:
    "zoo_clear io (Some z) c = Some (0, Some y)" "zoo_has (M + mset cs) y"
    using Cons.prems by (auto simp: zoo_has_def)
  then show ?case using Cons.IH [OF y(2)] by simp
qed simp

lemma cat_loop_plain: "list_all plain av \<Longrightarrow> plain cmd \<Longrightarrow> plain (cat_loop first av cmd)"
  by (induction first av cmd rule: cat_loop.induct) (auto simp: plain_def)

lemma enter_zoo_ok:
  assumes io: "io_ok io" and z: "zoo_has B z" and p: "i32 pid \<noteq> None" "i32 (int keep) \<noteq> None" "plain name" "argv \<noteq> []" "list_all plain argv"
  obtains z' where "enter_zoo io keep pid name argv z = Inr z'" "zoo_has (add_mset pid B) z'"
proof -
  have "plain []" by (simp add: plain_def)
  then have cat: "cat_args argv = Some (cat_loop True argv [])" "plain (cat_loop True argv [])"
    using p(4) cat_loop_plain [OF p(5)] by (simp_all add: cat_args_fits)
  have "wf_zoo z \<and> io_ok io" using z io by (simp add: zoo_has_def)
  from zr.mark [OF this p(1,3) cat(2)] obtain y where y:
    "zoo_mark_args io (Some z) pid name argv = Some (0, Some y)" "zoo_has (add_mset pid B) y"
    using z by (auto simp: zoo_has_def zoo_mark_args_def cat(1))
  have "list_all (\<lambda>c. i32 c \<noteq> None) (map int [0..<keep])"
    using p(2) by (auto simp: list_all_iff i32_def INT_MIN_def split: if_splits)
  from each_slot_mark [OF io p(3) this y(2)] obtain x where x:
    "each_slot (\<lambda>c z. zoo_mark_cmdline io (Some z) c name []) (map int [0..<keep]) y = Inr x"
    "zoo_has (add_mset pid B + mset (map int [0..<keep])) x" by blast
  from each_slot_clear [OF io x(2)] show ?thesis using y(1) x(1) that by (auto simp: enter_zoo_def)
qed

definition start_ok :: "pan_opts \<Rightarrow> start_env \<Rightarrow> int \<Rightarrow> cstr list \<Rightarrow> bool" where
  "start_ok opt st pid argv =
     (io_ok (st_io st) \<and> (case st_zoo st of Some z \<Rightarrow> wf_zoo z | None \<Rightarrow> True) \<and> i32 pid \<noteq> None
      \<and> i32 (opt_keep_active opt) \<noteq> None \<and> (case panname opt of Some name \<Rightarrow> plain name | None \<Rightarrow> True)
      \<and> argv \<noteq> [] \<and> list_all plain argv
      \<and> (case st_coll st of Inr es \<Rightarrow> list_all entry_ok es | Inl e \<Rightarrow> True))"

lemma final_opts_sel [simp]:
  "opt_keep_active (final_opts opt) = opt_keep_active opt" "sequential (final_opts opt) = sequential opt"
  by (simp_all add: final_opts_def Let_def)

lemma startup_ok:
  assumes st: "startup opt st pid argv = Inr (cfg, s0)" and ok: "start_ok opt st pid argv"
  obtains z0 where "st_zoo st = Some z0" "core_inv cfg (add_mset (self_pid cfg) (zoo_pids z0)) s0" "cfg_ok cfg" "self_pid cfg = pid"
    "s0 = init_pan cfg (zoofile s0)" "opts cfg = final_opts opt" "0 \<le> opt_keep_active opt"
proof -
  obtain name where n: "panname opt = Some name" using st by (auto simp: startup_def split: option.splits)
  obtain es where es: "st_coll st = Inr es" using st by (auto simp: startup_def n split: if_splits sum.splits)
  obtain z0 where z0: "st_zoo st = Some z0" using st by (auto simp: startup_def n es Let_def split: if_splits option.splits)
  define c where "c = \<lparr>opts = final_opts opt, coll = es, self_pid = pid\<rparr>"
  have st': "es \<noteq> []" "0 \<le> opt_keep_active opt"
    "bindr (enter_zoo (st_io st) (keep_active c) pid name argv z0) (\<lambda>z. Inr (c, init_pan c z)) = Inr (cfg, s0)"
    using st by (auto simp: startup_def n es z0 Let_def c_def split: if_splits)
  have k: "int (keep_active c) = opt_keep_active opt" using st'(2) by (simp add: keep_active_def c_def)
  have "zoo_has (zoo_pids z0) z0" using ok z0 by (simp add: start_ok_def zoo_has_def)
  from enter_zoo_ok [OF _ this, of "st_io st" pid "keep_active c" name argv] obtain z where z:
    "enter_zoo (st_io st) (keep_active c) pid name argv z0 = Inr z" "zoo_has (add_mset pid (zoo_pids z0)) z"
    using ok unfolding k by (auto simp: start_ok_def n)
  have eq: "cfg = c" "s0 = init_pan c z" using st'(3) z(1) by auto
  have "cfg_ok c" using ok st'(1) es by (simp add: start_ok_def cfg_ok_def c_def)
  moreover have "core_inv c (add_mset pid (zoo_pids z0)) (init_pan c z)"
    using z(2) st'(1) by (simp add: core_inv_def init_pan_def active_def live_orphans_def slot_ok_def list_all_iff c_def)
  ultimately show ?thesis using that [of z0] z0 eq st'(2) by (simp add: c_def init_pan_def)
qed

section \<open>Property\<close>


definition demo_popts :: pan_opts where
  "demo_popts = default_opts\<lparr>panname := Some ''p'', zooname := Some ''z'', sequential := True, no_kmsg := True,
     track_exit_stats := True, fmt_print := True, logfilename := Some ''-''\<rparr>"

definition demo_start :: start_env where
  "demo_start = \<lparr>st_zooname = None, st_log_ok = True,
     st_coll = Inr [\<lparr>e_name = ''t1'', e_cmdline = ''a'', e_pcnt_f = False\<rparr>, \<lparr>e_name = ''t2'', e_cmdline = ''b'', e_pcnt_f = False\<rparr>],
     st_malloc_ok = True, st_out_dir_ok = True, st_output_ok = True, st_failcmd_ok = True, st_tconfcmd_ok = True,
     st_zoo = Some demo_zoo, st_io = demo_io\<rparr>"

definition demo_cfg :: pan_cfg where
  "demo_cfg = \<lparr>opts = final_opts demo_popts,
     coll = [\<lparr>e_name = ''t1'', e_cmdline = ''a'', e_pcnt_f = False\<rparr>, \<lparr>e_name = ''t2'', e_cmdline = ''b'', e_pcnt_f = False\<rparr>],
     self_pid = 77\<rparr>"

definition demo_pan :: pan where
  "demo_pan = (case startup demo_popts demo_start 77 [''pan''] of Inr (cfg, s) \<Rightarrow> s | Inl e \<Rightarrow> init_pan demo_cfg demo_zoo)"

definition demo_env :: "child \<Rightarrow> wait_result \<Rightarrow> env" where
  "demo_env oc wt = \<lparr>kill_res = (\<lambda>p sig. ESRCH), zio = demo_io, kmsg_ok = True, slurped = None, lrand = 0, child_res = oc,
     wait_res = wt, stop_file = False\<rparr>"

lemma demo_startup: "startup demo_popts demo_start 77 [''pan''] = Inr (demo_cfg, demo_pan)"
proof -
  have "(case startup demo_popts demo_start 77 [''pan''] of Inr (cfg, s) \<Rightarrow> cfg = demo_cfg | Inl e \<Rightarrow> False)" by code_simp
  then show ?thesis by (auto simp: demo_pan_def split: sum.splits)
qed

lemma demo_start_ok: "start_ok demo_popts demo_start 77 [''pan'']"
  by code_simp

lemma demo_pids: "zoo_pids demo_zoo = {#12#}" "st_zoo demo_start = Some demo_zoo"
  unfolding zoo_pids_def demo_zoo_ok(3) demo_start_def by (simp_all add: pid_of_def) code_simp


section \<open>Observations\<close>

definition demo_running :: pan where
  "demo_running = snd (main_step demo_cfg (demo_env (Runs 100) (Wait_error 10)) Fill demo_pan)"

text \<open>When the time is over, \<^verbatim>\<open>propagate_signal\<close> replaces \<^verbatim>\<open>rec_signal\<close> by \<^verbatim>\<open>SIGTERM\<close>, but sends \<^verbatim>\<open>send_signal\<close>, which is still
  \<^verbatim>\<open>SIGALRM\<close>.\<close>

lemma alarm_not_replaced:
  "case propagate_signal (demo_env No_fork (Wait_error 10)) (wait_handler SIGALRM demo_running) of
     Inr s \<Rightarrow> Ev_kill 100 SIGALRM \<in> set (events s) \<and> Ev_kill 100 SIGTERM \<notin> set (events s)
   | Inl e \<Rightarrow> False"
  by code_simp

text \<open>The ratchet of \<^verbatim>\<open>wait_handler\<close>: a driver that is sent \<^verbatim>\<open>SIGTERM\<close> again and again never sends anything stronger, and
  after a \<^verbatim>\<open>SIGKILL\<close> the next \<^verbatim>\<open>SIGINT\<close> sends nothing.\<close>

lemma sigterm_never_escalates:
  "lastsent s = SIGTERM \<Longrightarrow> send_signal (wait_handler SIGTERM s) = SIGTERM \<and> lastsent (wait_handler SIGTERM s) = SIGTERM"
  by (simp add: wait_handler_def Let_def SIGTERM_def SIGUSR1_def SIGUSR2_def)

lemma ratchet_restarts:
  "lastsent s = SIGKILL \<Longrightarrow> send_signal s = 0 \<Longrightarrow> send_signal (wait_handler SIGINT s) = 0 \<and> lastsent (wait_handler SIGINT s) = 0"
  by (simp add: wait_handler_def Let_def SIGTERM_def SIGINT_def SIGHUP_def SIGKILL_def SIGUSR1_def SIGUSR2_def)

text \<open>In random mode a command that cannot be executed does not use up a start, so it may be tried for ever.\<close>

lemma random_mode_retries:
  "case fill_one (demo_cfg\<lparr>opts := demo_popts\<lparr>sequential := False\<rparr>\<rparr>) (demo_env (Exec_failed ''no'' (Exited 2)) (Wait_error 10)) demo_pan of
     Inr (brk, s) \<Rightarrow> \<not> brk \<and> starts s = starts demo_pan \<and> num_active s = 0
   | Inl e \<Rightarrow> False"
  by code_simp

text \<open>In sequential mode such a command is logged as failed, but does not count for the exit status.\<close>

lemma exec_failure_not_in_exit_status:
  "case fill_one demo_cfg (demo_env (Exec_failed ''no'' (Exited 2)) (Wait_error 10)) demo_pan of
     Inr (brk, s) \<Rightarrow> failcnt s = 1 \<and> exit_stat s = 0
   | Inl e \<Rightarrow> False"
  by code_simp

text \<open>A stopped child, which the code expects never to see, frees its slot but still counts as active.\<close>

lemma stopped_child:
  "case check_pids demo_cfg (demo_env No_fork (Waited 100 (Stopped 19))) demo_running of
     Inr (err, s) \<Rightarrow> num_active s = 1 \<and> active s = []
   | Inl e \<Rightarrow> False"
  by code_simp

text \<open>With \<^verbatim>\<open>-x 0\<close> no test is ever started and the loop goes round for ever.\<close>

lemma no_slots_loops:
  assumes "keep_active cfg = 0" "0 < starts s" "stop s = 0" "rec_signal s = 0" "go_idle s = 0" "num_active s = 0"
    "wait_res env = Wait_error e" "orphans s = [0]"
  shows "main_step cfg env Fill s = (Count_stop, s) \<and> main_step cfg env Count_stop s = (Handle_signal, s)
    \<and> main_step cfg env Handle_signal s = (Reap, s) \<and> main_step cfg env Reap s = (Decide, s)
    \<and> main_step cfg env Decide s = (Fill, s)"
  using assms by (cases s) (simp add: can_start_def count_stop_def handle_signal_def check_pids_def check_orphans_def after_reap_def
      leave_loop_def resume_def)

end
