(* ===== verification/Pan_Termination.thy ===== *)
theory Pan_Termination
  imports Pan_Invariant
begin

text \<open>
  The scheduler of \<^verbatim>\<open>pan/ltp-pan.c\<close> in sequential mode: every run ends within a number of steps that depends on the number
  of starts only, and the commands are executed in order.
\<close>

section \<open>Runs without signals end\<close>

text \<open>Runs without signals from outside, in which \<^verbatim>\<open>wait\<close> reports a child whenever there is one and no orphaned group
  outlives a \<^verbatim>\<open>SIGKILL\<close> by the five seconds of a round.\<close>

definition last_sent :: "int \<Rightarrow> pan_event list \<Rightarrow> int" where
  "last_sent p es = fold (\<lambda>e l. case e of Ev_kill q sig \<Rightarrow> if q = p then sig else l | _ \<Rightarrow> l) es 0"

definition quiet_ok :: "pan_cfg \<Rightarrow> pc \<Rightarrow> pan \<Rightarrow> env \<Rightarrow> bool" where
  "quiet_ok cfg pc s env =
     (env_ok cfg s env
      \<and> (active s \<noteq> [] \<longrightarrow> (case wait_res env of Waited p st \<Rightarrow> True | Wait_error e \<Rightarrow> False))
      \<and> (pc = Orphans \<longrightarrow> list_all (\<lambda>p. last_sent p (events s) = SIGKILL \<longrightarrow> (\<forall>sig. kill_res env p sig = ESRCH)) (live_orphans s)))"

text \<open>The run for given answers of the environment, and that these are as described while the driver runs.\<close>

primrec pan_exec :: "pan_cfg \<Rightarrow> (nat \<Rightarrow> env) \<Rightarrow> pan \<Rightarrow> nat \<Rightarrow> pc \<times> pan" where
  "pan_exec cfg envs s0 0 = (Fill, s0)"
| "pan_exec cfg envs s0 (Suc k) = (let (pc, s) = pan_exec cfg envs s0 k in main_step cfg (envs k) pc s)"

definition quiet_env :: "pan_cfg \<Rightarrow> (nat \<Rightarrow> env) \<Rightarrow> pan \<Rightarrow> bool" where
  "quiet_env cfg envs s0 = (\<forall>k pc s. pan_exec cfg envs s0 k = (pc, s) \<longrightarrow> \<not> ended pc \<longrightarrow> quiet_ok cfg pc s (envs k))"

text \<open>What holds besides the invariant when no signal comes from outside: the driver never idles, and when no test is
  active at the point of \<^verbatim>\<open>wait\<close>, it has already decided to stop.\<close>

definition quiet_inv :: "pan_cfg \<Rightarrow> pc \<Rightarrow> pan \<Rightarrow> bool" where
  "quiet_inv cfg pc s =
     (go_idle s = 0 \<and> \<not> fork_in_road s \<and> 0 \<le> starts s \<and> 0 \<le> stop s \<and> (rec_signal s = 0 \<longrightarrow> send_signal s = 0)
      \<and> (pc = Count_stop \<longrightarrow> num_active s = 0 \<longrightarrow> starts s = 0 \<or> stop s \<noteq> 0 \<or> rec_signal s \<noteq> 0)
      \<and> (pc = Handle_signal \<longrightarrow> num_active s = 0 \<longrightarrow> stop s \<noteq> 0 \<or> rec_signal s \<noteq> 0)
      \<and> (pc = Reap \<longrightarrow> num_active s = 0 \<longrightarrow> stop s \<noteq> 0))"

text \<open>The rounds until every orphaned group has been sent \<^verbatim>\<open>SIGKILL\<close>: the ratchet of \<^verbatim>\<open>wait_handler\<close> goes through \<^verbatim>\<open>SIGINT\<close>,
  \<^verbatim>\<open>SIGTERM\<close>, \<^verbatim>\<open>SIGHUP\<close> and \<^verbatim>\<open>SIGKILL\<close>.\<close>

definition rounds :: "int \<Rightarrow> nat" where
  "rounds l = (if l = SIGHUP then 1 else if l = SIGTERM then 2 else if l = SIGINT then 3
               else if l = 0 \<or> l = SIGUSR1 then 4 else 5)"

definition killed :: "pan \<Rightarrow> bool" where
  "killed s = list_all (\<lambda>p. last_sent p (events s) = SIGKILL) (live_orphans s)"

text \<open>A bound on the number of steps to the end.\<close>

fun remaining :: "pc \<Rightarrow> pan \<Rightarrow> nat" where
  "remaining (Ended e) s = 0"
| "remaining Finish s = 1"
| "remaining Orphans s =
     (if live_orphans s = [] then 2 else if killed s then 3
      else 3 + 2 * rounds (lastsent s) + (if rec_signal s \<noteq> 0 then 1 else 0))"
| "remaining pc s =
     20 * nat (2 * starts s + num_active s)
     + (case pc of Fill \<Rightarrow> 24 | Count_stop \<Rightarrow> 23 | Handle_signal \<Rightarrow> 22 | Reap \<Rightarrow> 21 | _ \<Rightarrow> if leave_loop s then 20 else 25)"

lemma last_sent_kills:
  "last_sent p (es @ map (\<lambda>q. Ev_kill q sig) ps) = (if p \<in> set ps then sig else last_sent p es)"
  by (induction ps rule: rev_induct) (auto simp: last_sent_def)

lemma rounds_bound: "1 \<le> rounds l" "rounds l \<le> 5"
  by (simp_all add: rounds_def)

lemma orphans_bound: "remaining Orphans s \<le> 14"
  using rounds_bound(2) [of "lastsent s"] by simp

lemma handler_ratchet:
  assumes "send_signal s = 0"
  shows "lastsent (wait_handler SIGINT s) = send_signal (wait_handler SIGINT s)
    \<and> (send_signal (wait_handler SIGINT s) = SIGKILL \<or> rounds (send_signal (wait_handler SIGINT s)) < rounds (lastsent s))"
  using assms by (auto simp: wait_handler_def Let_def rounds_def SIGINT_def SIGTERM_def SIGHUP_def SIGUSR1_def SIGUSR2_def SIGKILL_def)

lemma survivors_live: "set (nz (survivors env sig ps)) \<subseteq> set (nz ps)"
  by (auto simp: nz_def survivors_def)

lemma survivors_killed: "list_all (\<lambda>p. p \<noteq> 0 \<longrightarrow> kill_res env p sig = ESRCH) ps \<Longrightarrow> nz (survivors env sig ps) = []"
  by (induction ps) auto

lemma remaining_main:
  "remaining Fill s = 20 * nat (2 * starts s + num_active s) + 24"
  "remaining Count_stop s = 20 * nat (2 * starts s + num_active s) + 23"
  "remaining Handle_signal s = 20 * nat (2 * starts s + num_active s) + 22"
  "remaining Reap s = 20 * nat (2 * starts s + num_active s) + 21"
  "remaining Decide s = 20 * nat (2 * starts s + num_active s) + (if leave_loop s then 20 else 25)"
  by simp_all

lemma quiet_fill:
  assumes I: "core_inv cfg M s" and q: "quiet_inv cfg Fill s" and cfg: "cfg_ok cfg" "sequential (opts cfg)" "0 < keep_active cfg"
    and env: "env_ok cfg s env" and step: "main_step cfg env Fill s = (pc', s')"
  shows "quiet_inv cfg pc' s' \<and> remaining pc' s' < remaining Fill s"
proof (cases "can_start cfg s")
  case True
  from fill_one_inv [OF I cfg(1) env True] obtain t b where t: "fill_one cfg env s = Inr (False, t)"
    "num_active t = num_active s + (if b then 1 else 0)"
    "starts t = (if (b \<or> sequential (opts cfg)) \<and> starts s > 0 then starts s - 1 else starts s)"
    "stop t = stop s" "go_idle t = go_idle s" "fork_in_road t = fork_in_road s" "rec_signal t = rec_signal s" "send_signal t = send_signal s" .
  have eq: "pc' = Fill" "s' = t" using step True t(1) by simp_all
  have 1: "0 < starts s" "0 \<le> num_active s" using True q I by (simp_all add: can_start_def quiet_inv_def core_inv_def)
  then have "nat (2 * starts t + num_active t) < nat (2 * starts s + num_active s)" using cfg(2) by (simp add: t(2,3))
  then show ?thesis using q 1 cfg(2) unfolding eq remaining_main by (simp add: quiet_inv_def t)
next
  case False
  then have eq: "pc' = Count_stop" "s' = s" using step by simp_all
  show ?thesis using False q cfg(3) unfolding eq remaining_main by (auto simp: quiet_inv_def can_start_def)
qed

lemma quiet_count:
  assumes q: "quiet_inv cfg Count_stop s" and step: "main_step cfg env Count_stop s = (pc', s')"
  shows "quiet_inv cfg pc' s' \<and> remaining pc' s' < remaining Count_stop s"
proof -
  have eq: "pc' = Handle_signal" "s' = count_stop env s" using step by simp_all
  show ?thesis using q unfolding eq remaining_main by (auto simp: quiet_inv_def count_stop_def)
qed

lemma quiet_signal:
  assumes I: "core_inv cfg M s" and q: "quiet_inv cfg Handle_signal s" and io: "io_ok (zio env)"
    and step: "main_step cfg env Handle_signal s = (pc', s')"
  shows "quiet_inv cfg pc' s' \<and> remaining pc' s' < remaining Handle_signal s"
proof -
  from handle_signal_inv [OF I io] obtain t where t: "handle_signal env s = Inr t" "rec_signal t = 0" "starts t = starts s"
    "num_active t = num_active s" "fork_in_road t \<longrightarrow> fork_in_road s"
    "rec_signal s = 0 \<and> t = s \<or> rec_signal s \<noteq> 0 \<and> send_signal t = 0
       \<and> (if fork_in_road t then stop t = stop s \<and> go_idle t = go_idle s + 1 else stop t = stop s + 1 \<and> go_idle t = go_idle s)" .
  have eq: "pc' = Reap" "s' = t" using step t(1) by simp_all
  show ?thesis using q t(2-6) unfolding eq remaining_main by (auto simp: quiet_inv_def)
qed

lemma after_reap_signal:
  "rec_signal s = 0 \<longrightarrow> send_signal s = 0 \<Longrightarrow> rec_signal (after_reap cfg err s) = 0 \<longrightarrow> send_signal (after_reap cfg err s) = 0"
  by (simp add: after_reap_def Let_def wait_handler_def SIGINT_def SIGUSR2_def)

lemma quiet_reap:
  assumes I: "core_inv cfg M s" and q: "quiet_inv cfg Reap s" and env: "quiet_ok cfg Reap s env"
    and step: "main_step cfg env Reap s = (pc', s')"
  shows "quiet_inv cfg pc' s' \<and> remaining pc' s' < remaining Reap s"
proof -
  have e: "env_ok cfg s env" using env by (simp add: quiet_ok_def)
  from check_pids_inv [OF I e] obtain err t where t: "check_pids cfg env s = Inr (err, t)"
    "num_active t = num_active s - (case wait_res env of Waited p st \<Rightarrow> 1 | Wait_error e \<Rightarrow> 0)"
    "starts t = starts s" "stop t = stop s" "go_idle t = go_idle s"
    "fork_in_road t = fork_in_road s" "rec_signal t = rec_signal s" "send_signal t = send_signal s" .
  have eq: "pc' = Decide" "s' = after_reap cfg err t" using step t(1) by simp_all
  have "quiet_inv cfg pc' s'"
    using q after_reap_signal [of t cfg err] t(3-8) unfolding eq by (simp add: quiet_inv_def)
  moreover have "remaining pc' s' < remaining Reap s"
  proof (cases "active s = []")
    case True
    then have n: "num_active s = 0" using I by (simp add: core_inv_def)
    have "num_active t = 0"
      using e True t(2) n by (cases "wait_res env") (simp_all add: env_ok_def)
    then have "leave_loop s'" using q n t(4) by (simp add: leave_loop_def eq quiet_inv_def)
    then show ?thesis using n \<open>num_active t = 0\<close> t(3) unfolding eq(1) remaining_main by (simp add: eq(2))
  next
    case False
    then have "0 < num_active s" "num_active t = num_active s - 1"
      using I env t(2) by (auto simp: core_inv_def quiet_ok_def split: wait_result.splits)
    then have "nat (2 * starts s' + num_active s') < nat (2 * starts s + num_active s)"
      using q t(3) by (simp add: eq quiet_inv_def)
    moreover have "(if leave_loop s' then 20 else 25 :: nat) \<le> 25" by simp
    ultimately show ?thesis unfolding eq(1) remaining_main by linarith
  qed
  ultimately show ?thesis ..
qed

lemma quiet_decide:
  assumes q: "quiet_inv cfg Decide s" and step: "main_step cfg env Decide s = (pc', s')"
  shows "quiet_inv cfg pc' s' \<and> remaining pc' s' < remaining Decide s"
proof (cases "leave_loop s")
  case True
  then have eq: "pc' = Orphans" "s' = s" using step by simp_all
  show ?thesis using q orphans_bound [of s] True unfolding eq remaining_main by (simp add: quiet_inv_def)
next
  case False
  then have eq: "pc' = Fill" "s' = s" using step q by (simp_all add: resume_def quiet_inv_def)
  show ?thesis using q False unfolding eq remaining_main by (simp add: quiet_inv_def)
qed

lemma quiet_orphans:
  assumes I: "core_inv cfg M s" and a: "active s = []" and q: "quiet_inv cfg Orphans s" and env: "quiet_ok cfg Orphans s env"
    and step: "main_step cfg env Orphans s = (pc', s')"
  shows "quiet_inv cfg pc' s' \<and> remaining pc' s' < remaining Orphans s"
proof (cases "live_orphans s = []")
  case True
  then have eq: "pc' = Finish" "s' = s" using step by (simp_all add: live_empty)
  show ?thesis using q True unfolding eq by (simp add: quiet_inv_def)
next
  case False
  define s1 where "s1 = (if rec_signal s = 0 then wait_handler SIGINT s else s)"
  have io: "io_ok (zio env)" using env by (simp add: quiet_ok_def env_ok_def)
  from orphan_round_inv [OF I io] obtain t where t: "orphan_round env s = Inr t"
    "orphans t = survivors env (send_signal s1) (orphans s)"
    "events t = events s @ map (\<lambda>p. Ev_kill p (send_signal s1)) (active s @ live_orphans s)"
    "starts t = starts s" "stop t = stop s" "rec_signal t = 0" "send_signal t = 0" "lastsent t = lastsent s1"
    "go_idle t = go_idle s" "fork_in_road t = fork_in_road s" unfolding s1_def .
  have eq: "pc' = Orphans" "s' = t" using step False t(1) by (simp_all add: live_empty)
  have q': "quiet_inv cfg pc' s'" using q t unfolding eq by (simp add: quiet_inv_def)
  have sent: "last_sent p (events t) = send_signal s1" if "p \<in> set (live_orphans t)" for p
    using that survivors_live [of env "send_signal s1" "orphans s"] unfolding t(2,3) a live_nz by (simp add: last_sent_kills subset_iff)
  have "remaining Orphans t < remaining Orphans s"
  proof (cases "killed s")
    case True
    have "list_all (\<lambda>p. p \<noteq> 0 \<longrightarrow> kill_res env p (send_signal s1) = ESRCH) (orphans s)"
      using env True by (auto simp: quiet_ok_def killed_def list_all_iff live_orphans_def)
    then have "live_orphans t = []" unfolding live_nz t(2) by (rule survivors_killed)
    then show ?thesis using False True by simp
  next
    case nk: False
    have "remaining Orphans t \<le> 3" if "send_signal s1 = SIGKILL"
      using sent that by (simp add: killed_def list_all_iff)
    moreover have "remaining Orphans t < remaining Orphans s" if "send_signal s1 \<noteq> SIGKILL" "rec_signal s = 0"
      using handler_ratchet [of s] q that nk False t(6,8) by (simp add: s1_def quiet_inv_def)
    moreover have "remaining Orphans t < remaining Orphans s" if "rec_signal s \<noteq> 0"
      using that nk False t(6,8) by (simp add: s1_def)
    moreover have "3 < remaining Orphans s" using nk False rounds_bound(1) [of "lastsent s"] by simp
    ultimately show ?thesis by linarith
  qed
  then show ?thesis using q' eq by simp
qed

lemma quiet_step:
  assumes inv: "pan_inv cfg B pc s" and q: "quiet_inv cfg pc s" and cfg: "cfg_ok cfg" "sequential (opts cfg)" "0 < keep_active cfg"
    and env: "quiet_ok cfg pc s env" and pc: "\<not> ended pc" and step: "main_step cfg env pc s = (pc', s')"
  shows "quiet_inv cfg pc' s' \<and> remaining pc' s' < remaining pc s"
proof -
  let ?M = "add_mset (self_pid cfg) B"
  have I: "core_inv cfg ?M s" using inv pc by (simp add: pan_inv_def)
  have e: "env_ok cfg s env" using env by (simp add: quiet_ok_def)
  have io: "io_ok (zio env)" using e by (simp add: env_ok_def)
  show ?thesis
  proof (cases pc)
    case Orphans
    then show ?thesis using quiet_orphans [OF I _ q [unfolded Orphans] env [unfolded Orphans] step [unfolded Orphans]] inv by (simp add: pan_inv_def)
  next
    case Finish
    from finish_inv [OF I io] obtain t where t: "finish cfg env s = Inr t" "starts t = starts s"
      "stop t = stop s" "go_idle t = go_idle s" "fork_in_road t = fork_in_road s" "rec_signal t = rec_signal s"
      "send_signal t = send_signal s" .
    have eq: "pc' = Ended (Exit (exit_stat t))" "s' = t" using step Finish t(1) by auto
    show ?thesis using q t(2-7) Finish unfolding eq by (simp add: quiet_inv_def)
  next
    case Fill
    show ?thesis using quiet_fill [OF I _ cfg e] q step unfolding Fill .
  next
    case Count_stop
    show ?thesis using quiet_count q step unfolding Count_stop .
  next
    case Handle_signal
    show ?thesis using quiet_signal [OF I _ io] q step unfolding Handle_signal .
  next
    case Reap
    show ?thesis using quiet_reap [OF I] q env step unfolding Reap .
  next
    case Decide
    show ?thesis using quiet_decide q step unfolding Decide .
  qed (use pc in simp)
qed

lemma quiet_exec:
  assumes env: "quiet_env cfg envs s0" and inv: "core_inv cfg (add_mset (self_pid cfg) B) s0" and q: "quiet_inv cfg Fill s0"
    and cfg: "cfg_ok cfg" "sequential (opts cfg)" "0 < keep_active cfg" and k: "pan_exec cfg envs s0 k = (pc, s)"
  shows "pan_inv cfg B pc s \<and> quiet_inv cfg pc s \<and> (ended pc \<or> k + remaining pc s \<le> remaining Fill s0)"
  using k
proof (induction k arbitrary: pc s)
  case 0
  then show ?case using inv q by (auto simp: pan_inv_def)
next
  case (Suc k)
  obtain pc1 s1 where s1: "pan_exec cfg envs s0 k = (pc1, s1)" by (cases "pan_exec cfg envs s0 k")
  note IH = Suc.IH [OF s1]
  have step: "main_step cfg (envs k) pc1 s1 = (pc, s)" using Suc.prems s1 by simp
  show ?case
  proof (cases "ended pc1")
    case True
    then have "pc = pc1" "s = s1" using step by (cases pc1; simp)+
    then show ?thesis using IH True by simp
  next
    case False
    have ok: "quiet_ok cfg pc1 s1 (envs k)" using env s1 False by (simp add: quiet_env_def)
    then have "env_ok cfg s1 (envs k)" by (simp add: quiet_ok_def)
    then have "pan_inv cfg B pc s" using main_step_inv [OF _ False cfg(1) _ step] IH by blast
    moreover have "quiet_inv cfg pc s \<and> remaining pc s < remaining pc1 s1" using quiet_step [OF _ _ cfg ok False step] IH by blast
    ultimately show ?thesis using IH False by linarith
  qed
qed

lemma quiet_ends:
  assumes "quiet_env cfg envs s0" "core_inv cfg (add_mset (self_pid cfg) B) s0" "quiet_inv cfg Fill s0"
    "cfg_ok cfg" "sequential (opts cfg)" "0 < keep_active cfg"
  obtains s where "pan_exec cfg envs s0 (remaining Fill s0) = (Ended (Exit (exit_stat s)), s)"
    "core_inv cfg B s" "active s = []" "live_orphans s = []"
proof -
  obtain pc s where s: "pan_exec cfg envs s0 (remaining Fill s0) = (pc, s)" by (cases "pan_exec cfg envs s0 (remaining Fill s0)")
  have *: "pan_inv cfg B pc s" "ended pc \<or> remaining pc s = 0" using quiet_exec [OF assms s] by auto
  have "remaining pc s \<noteq> 0 \<or> ended pc" by (cases pc) simp_all
  then have e: "ended pc" using *(2) by auto
  then obtain e where pc: "pc = Ended e" by (cases pc) simp_all
  then have "e = Exit (exit_stat s)" "core_inv cfg B s" "active s = []" "live_orphans s = []" using *(1) by (simp_all add: pan_inv_def)
  then show ?thesis using that s pc by simp
qed

section \<open>Sequential runs\<close>

definition seq_inv :: "pan_cfg \<Rightarrow> int \<Rightarrow> pc \<Rightarrow> pan \<Rightarrow> bool" where
  "seq_inv cfg n pc s =
     (rec_signal s = 0 \<and> (stop s \<noteq> 0 \<longrightarrow> starts s = 0) \<and> (pc = Orphans \<or> pc = Finish \<or> ended pc \<longrightarrow> starts s = 0)
      \<and> runs (events s) = map (\<lambda>k. k mod length (coll cfg)) [0..<length (runs (events s))]
      \<and> c_idx s = length (runs (events s)) mod length (coll cfg) \<and> starts s + int (length (runs (events s))) = n
      \<and> exit_stat s = (if track_exit_stats (opts cfg) then errs (events s) else 0))"

lemma seq_inv_step:
  assumes inv: "pan_inv cfg B pc s" and q: "quiet_inv cfg pc s" and sq: "seq_inv cfg n pc s"
    and cfg: "cfg_ok cfg" "sequential (opts cfg)" "\<not> has_brakes (opts cfg)"
    and e: "env_ok cfg s env" and pc: "\<not> ended pc" and step: "main_step cfg env pc s = (pc', s')"
  shows "seq_inv cfg n pc' s'"
proof -
  let ?M = "add_mset (self_pid cfg) B"
  have I: "core_inv cfg ?M s" using inv pc by (simp add: pan_inv_def)
  have io: "io_ok (zio env)" using e by (simp add: env_ok_def)
  show ?thesis
  proof (cases pc)
    case Fill
    show ?thesis
    proof (cases "can_start cfg s")
      case True
      from fill_one_inv [OF I cfg(1) e True] obtain t b where t: "fill_one cfg env s = Inr (False, t)"
        "starts t = (if (b \<or> sequential (opts cfg)) \<and> starts s > 0 then starts s - 1 else starts s)"
        "sequential (opts cfg) \<longrightarrow> runs (events t) = runs (events s) @ [c_idx s]
          \<and> c_idx t = (if c_idx s + 1 \<ge> length (coll cfg) then 0 else c_idx s + 1)"
        "errs (events t) = errs (events s)" "stop t = stop s" "exit_stat t = exit_stat s" "rec_signal t = rec_signal s" .
      have eq: "pc' = Fill" "s' = t" using step Fill True t(1) by simp_all
      define L where "L = length (runs (events s))"
      have r: "runs (events t) = runs (events s) @ [L mod length (coll cfg)]"
        "c_idx t = (if L mod length (coll cfg) + 1 \<ge> length (coll cfg) then 0 else L mod length (coll cfg) + 1)"
        using t(3) cfg(2) sq by (simp_all add: seq_inv_def L_def)
      have "L mod length (coll cfg) < length (coll cfg)" using cfg(1) by (simp add: cfg_ok_def)
      then have c: "c_idx t = Suc L mod length (coll cfg)" using r(2) by (simp add: mod_Suc)
      have "0 < starts s" "stop s = 0" using True q by (simp_all add: can_start_def quiet_inv_def)
      then show ?thesis using sq t(2,4-7) r(1) c cfg(2) L_def unfolding eq by (simp add: seq_inv_def)
    next
      case False
      then have "pc' = Count_stop" "s' = s" using step Fill by simp_all
      then show ?thesis using sq by (simp add: seq_inv_def)
    qed
  next
    case Count_stop
    then have "pc' = Handle_signal" "s' = count_stop env s" using step by simp_all
    then show ?thesis using sq q by (simp add: seq_inv_def count_stop_def quiet_inv_def)
  next
    case Handle_signal
    then have "pc' = Reap" "s' = s" using step sq by (simp_all add: handle_signal_def seq_inv_def)
    then show ?thesis using sq by (simp add: seq_inv_def)
  next
    case Reap
    from check_pids_inv [OF I e] obtain err t where t: "check_pids cfg env s = Inr (err, t)"
      "runs (events t) = runs (events s)" "errs (events t) = errs (events s) + (if err \<noteq> 0 then 1 else 0)"
      "starts t = starts s" "c_idx t = c_idx s" "stop t = stop s" "exit_stat t = exit_stat s" "rec_signal t = rec_signal s" .
    have eq: "pc' = Decide" "s' = after_reap cfg err t" using step Reap t(1) by simp_all
    have "rec_signal s' = 0" using t(8) sq cfg(3) by (simp add: eq after_reap_def Let_def seq_inv_def)
    then show ?thesis using sq t(2-7) unfolding eq by (simp add: seq_inv_def)
  next
    case Decide
    then show ?thesis using step sq q by (auto simp: seq_inv_def leave_loop_def resume_def quiet_inv_def split: if_splits)
  next
    case Orphans
    from orphan_round_inv [OF I io] obtain t sig where t: "orphan_round env s = Inr t"
      "events t = events s @ map (\<lambda>p. Ev_kill p sig) (active s @ live_orphans s)"
      "starts t = starts s" "stop t = stop s" "exit_stat t = exit_stat s" "rec_signal t = 0" "c_idx t = c_idx s" .
    have "runs (events t) = runs (events s)" "errs (events t) = errs (events s)" by (simp_all add: t(2))
    then have "seq_inv cfg n Orphans t" using sq Orphans t(3-7) by (simp add: seq_inv_def)
    then show ?thesis using step Orphans sq t(1) by (auto simp: seq_inv_def split: if_splits)
  next
    case Finish
    from finish_inv [OF I io] obtain t where t: "finish cfg env s = Inr t" "exit_stat t = exit_stat s"
      "runs (events t) = runs (events s)" "errs (events t) = errs (events s)" "starts t = starts s" "stop t = stop s"
      "rec_signal t = rec_signal s" "c_idx t = c_idx s" .
    have "pc' = Ended (Exit (exit_stat t))" "s' = t" using step Finish t(1) by auto
    then show ?thesis using sq Finish t(2-8) by (simp add: seq_inv_def)
  qed (use pc in simp)
qed

lemma seq_exec:
  assumes env: "quiet_env cfg envs s0" and inv: "core_inv cfg (add_mset (self_pid cfg) B) s0" and q: "quiet_inv cfg Fill s0"
    and cfg: "cfg_ok cfg" "sequential (opts cfg)" "0 < keep_active cfg" "\<not> has_brakes (opts cfg)"
    and s0: "seq_inv cfg n Fill s0" and k: "pan_exec cfg envs s0 k = (pc, s)"
  shows "seq_inv cfg n pc s"
  using k
proof (induction k arbitrary: pc s)
  case 0
  then show ?case using s0 by simp
next
  case (Suc k)
  obtain pc1 s1 where s1: "pan_exec cfg envs s0 k = (pc1, s1)" by (cases "pan_exec cfg envs s0 k")
  have step: "main_step cfg (envs k) pc1 s1 = (pc, s)" using Suc.prems s1 by simp
  show ?case
  proof (cases "ended pc1")
    case True
    then have "pc = pc1" "s = s1" using step by (cases pc1; simp)+
    then show ?thesis using Suc.IH [OF s1] by simp
  next
    case False
    have "env_ok cfg s1 (envs k)" using env s1 False by (simp add: quiet_env_def quiet_ok_def)
    then show ?thesis
      using seq_inv_step [OF _ _ Suc.IH [OF s1] cfg(1,2,4) _ False step] quiet_exec [OF env inv q cfg(1-3) s1] by blast
  qed
qed

section \<open>Properties\<close>

lemma start_quiet:
  assumes st: "startup opt st pid argv = Inr (cfg, s0)" and ok: "start_ok opt st pid argv"
    and opt: "sequential opt" "0 < opt_keep_active opt" "\<not> opt_fork_in_road opt" "0 < starts s0"
  obtains z0 where "st_zoo st = Some z0" "core_inv cfg (add_mset (self_pid cfg) (zoo_pids z0)) s0" "cfg_ok cfg"
    "quiet_inv cfg Fill s0" "sequential (opts cfg)" "0 < keep_active cfg" "seq_inv cfg (starts s0) Fill s0"
    "has_brakes (opts cfg) = has_brakes opt" "remaining Fill s0 = 40 * nat (starts s0) + 24"
proof -
  from startup_ok [OF st ok] obtain z0 where z: "st_zoo st = Some z0"
    "core_inv cfg (add_mset (self_pid cfg) (zoo_pids z0)) s0" "cfg_ok cfg" "s0 = init_pan cfg (zoofile s0)" "opts cfg = final_opts opt" .
  obtain z1 where s0: "s0 = init_pan cfg z1" using z(4) by blast
  have i: "go_idle s0 = 0" "fork_in_road s0 = opt_fork_in_road opt" "stop s0 = 0" "rec_signal s0 = 0" "send_signal s0 = 0"
    "events s0 = []" "c_idx s0 = 0" "exit_stat s0 = 0" "num_active s0 = 0"
    by (simp_all add: s0 init_pan_def z(5) final_opts_def Let_def)
  have "seq_inv cfg (starts s0) Fill s0" using opt i by (simp add: seq_inv_def)
  moreover have "quiet_inv cfg Fill s0" using opt i by (simp add: quiet_inv_def)
  moreover have "remaining Fill s0 = 40 * nat (starts s0) + 24" using opt(4) i(9) by (simp add: nat_mult_distrib)
  moreover have "sequential (opts cfg)" "0 < keep_active cfg" "has_brakes (opts cfg) = has_brakes opt"
    using opt z(5) by (simp_all add: keep_active_def final_opts_def Let_def)
  ultimately show ?thesis using z(1-3) that by blast
qed

text \<open>To check a concrete run: the answers are a list that lasts until the driver ends.\<close>

fun quiet_list :: "pan_cfg \<Rightarrow> env list \<Rightarrow> pc \<Rightarrow> pan \<Rightarrow> bool" where
  "quiet_list cfg [] pc s = ended pc"
| "quiet_list cfg (e # es) pc s =
     (ended pc \<or> env_ok cfg s e \<and> live_orphans s = []
       \<and> (active s \<noteq> [] \<longrightarrow> (case wait_res e of Waited p st \<Rightarrow> True | Wait_error x \<Rightarrow> False))
       \<and> (case main_step cfg e pc s of (pc', s') \<Rightarrow> quiet_list cfg es pc' s'))"

lemma quiet_list_exec:
  "quiet_list cfg (drop k es) (fst (pan_exec cfg envs s0 k)) (snd (pan_exec cfg envs s0 k))"
  if "quiet_list cfg es Fill s0" "\<And>k. k < length es \<Longrightarrow> envs k = es ! k"
proof (induction k)
  case 0
  show ?case using that(1) by simp
next
  case (Suc k)
  obtain pc s where s: "pan_exec cfg envs s0 k = (pc, s)" by (cases "pan_exec cfg envs s0 k")
  show ?case
  proof (cases "ended pc")
    case True
    then have "main_step cfg (envs k) pc s = (pc, s)" by (cases pc) simp_all
    then show ?thesis using True s by (cases "drop (Suc k) es") simp_all
  next
    case False
    show ?thesis
    proof (cases "k < length es")
      case True
      then have "drop k es = envs k # drop (Suc k) es" using that(2) [OF True] by (simp add: Cons_nth_drop_Suc)
      then show ?thesis using Suc False s by (cases "main_step cfg (envs k) pc s") simp
    qed (use Suc False s in simp)
  qed
qed

lemma quiet_list_env:
  assumes "quiet_list cfg es Fill s0" "\<And>k. k < length es \<Longrightarrow> envs k = es ! k"
  shows "quiet_env cfg envs s0"
proof -
  have "quiet_ok cfg pc s (envs k)" if k: "pan_exec cfg envs s0 k = (pc, s)" "\<not> ended pc" for k pc s
  proof -
    have q: "quiet_list cfg (drop k es) pc s" using quiet_list_exec [OF assms, of k] k(1) by simp
    then have "k < length es" using k(2) by (cases "k < length es") simp_all
    then have "drop k es = envs k # drop (Suc k) es" using assms(2) by (simp add: Cons_nth_drop_Suc)
    then show ?thesis using q k(2) by (auto simp: quiet_ok_def)
  qed
  then show ?thesis by (simp add: quiet_env_def)
qed


text \<open>A run of two tests; the first fails.\<close>

definition demo_envs :: "env list" where
  "demo_envs = demo_env (Runs 100) (Wait_error 10) # replicate 4 (demo_env No_fork (Waited 100 (Exited 1)))
     @ demo_env No_fork (Wait_error 10) # demo_env (Runs 101) (Wait_error 10)
     # replicate 4 (demo_env No_fork (Waited 101 (Exited 0))) @ replicate 4 (demo_env No_fork (Wait_error 10))"

lemma demo_quiet: "quiet_env demo_cfg (\<lambda>k. demo_envs ! k) demo_pan"
proof (rule quiet_list_env)
  show "quiet_list demo_cfg demo_envs Fill demo_pan" by code_simp
qed simp

lemma demo_opts: "sequential demo_popts" "0 < opt_keep_active demo_popts" "\<not> opt_fork_in_road demo_popts"
  "\<not> has_brakes demo_popts" "starts demo_pan = 2"
  by code_simp+




end
