(* ===== verification/Tst_Res.thy ===== *)
theory Tst_Res
  imports C_Library
begin

text \<open>
  \<^verbatim>\<open>lib/tst_res.c\<close>: the reporting functions of the old test library, with \<^verbatim>\<open>include/tst_res_flags.h\<close>, \<^verbatim>\<open>lib/errnos.h\<close>,
  \<^verbatim>\<open>lib/signame.h\<close> and \<^verbatim>\<open>lib/tst_ansi_color.c\<close>. A message is given as the text its format expands to. The state has the
  static variables of the file and what was written to the standard output; the mutex is left out (one thread), and
  the test uses the old library (\<^verbatim>\<open>tst_test\<close> is null).
\<close>

unbundle bit_operations_syntax

section \<open>Result types\<close>

definition TTYPE_MASK :: int where "TTYPE_MASK = 0x3f"
definition TPASS :: int where "TPASS = 0"
definition TFAIL :: int where "TFAIL = 1"
definition TBROK :: int where "TBROK = 2"
definition TWARN :: int where "TWARN = 4"
definition TINFO :: int where "TINFO = 16"
definition TCONF :: int where "TCONF = 32"
definition TERRNO :: int where "TERRNO = 0x100"
definition TTERRNO :: int where "TTERRNO = 0x200"
definition TRERRNO :: int where "TRERRNO = 0x400"

definition TTYPE_RESULT :: "int \<Rightarrow> int" where
  "TTYPE_RESULT ttype = ttype AND TTYPE_MASK"

text \<open>\<^verbatim>\<open>PAIR_LOOKUP\<close> on the array that the designated initializers give.\<close>

definition pair_lookup :: "(int \<times> cstr) list \<Rightarrow> int \<Rightarrow> cstr" where
  "pair_lookup pairs i = (case map_of (rev pairs) i of None \<Rightarrow> ''???'' | Some name \<Rightarrow> name)"

definition strttype :: "int \<Rightarrow> cstr" where
  "strttype ttype = pair_lookup [(TPASS, ''TPASS''), (TFAIL, ''TFAIL''), (TBROK, ''TBROK''), (TCONF, ''TCONF''),
     (TWARN, ''TWARN''), (TINFO, ''TINFO'')] (TTYPE_RESULT ttype)"

text \<open>The tables of error numbers and signals, with the numbers of Linux.\<close>

definition errno_pairs :: "(int \<times> cstr) list" where
  "errno_pairs = [
    (0, ''SUCCESS''), (1, ''EPERM''), (2, ''ENOENT''), (3, ''ESRCH''), (4, ''EINTR''), (5, ''EIO''), (6, ''ENXIO''),
    (7, ''E2BIG''), (8, ''ENOEXEC''), (9, ''EBADF''), (10, ''ECHILD''), (11, ''EAGAIN/EWOULDBLOCK''),
    (12, ''ENOMEM''), (13, ''EACCES''), (14, ''EFAULT''), (15, ''ENOTBLK''), (16, ''EBUSY''), (17, ''EEXIST''),
    (18, ''EXDEV''), (19, ''ENODEV''), (20, ''ENOTDIR''), (21, ''EISDIR''), (22, ''EINVAL''), (23, ''ENFILE''),
    (24, ''EMFILE''), (25, ''ENOTTY''), (26, ''ETXTBSY''), (27, ''EFBIG''), (28, ''ENOSPC''), (29, ''ESPIPE''),
    (30, ''EROFS''), (31, ''EMLINK''), (32, ''EPIPE''), (33, ''EDOM''), (34, ''ERANGE''), (35, ''EDEADLK''),
    (36, ''ENAMETOOLONG''), (37, ''ENOLCK''), (38, ''ENOSYS''), (39, ''ENOTEMPTY''), (40, ''ELOOP''),
    (42, ''ENOMSG''), (43, ''EIDRM''), (44, ''ECHRNG''), (45, ''EL2NSYNC''), (46, ''EL3HLT''), (47, ''EL3RST''),
    (48, ''ELNRNG''), (49, ''EUNATCH''), (50, ''ENOCSI''), (51, ''EL2HLT''), (52, ''EBADE''), (53, ''EBADR''),
    (54, ''EXFULL''), (55, ''ENOANO''), (56, ''EBADRQC''), (57, ''EBADSLT''), (59, ''EBFONT''), (60, ''ENOSTR''),
    (61, ''ENODATA''), (62, ''ETIME''), (63, ''ENOSR''), (64, ''ENONET''), (65, ''ENOPKG''), (66, ''EREMOTE''),
    (67, ''ENOLINK''), (68, ''EADV''), (69, ''ESRMNT''), (70, ''ECOMM''), (71, ''EPROTO''), (72, ''EMULTIHOP''),
    (73, ''EDOTDOT''), (74, ''EBADMSG''), (75, ''EOVERFLOW''), (76, ''ENOTUNIQ''), (77, ''EBADFD''),
    (78, ''EREMCHG''), (79, ''ELIBACC''), (80, ''ELIBBAD''), (81, ''ELIBSCN''), (82, ''ELIBMAX''),
    (83, ''ELIBEXEC''), (84, ''EILSEQ''), (85, ''ERESTART''), (86, ''ESTRPIPE''), (87, ''EUSERS''),
    (88, ''ENOTSOCK''), (89, ''EDESTADDRREQ''), (90, ''EMSGSIZE''), (91, ''EPROTOTYPE''), (92, ''ENOPROTOOPT''),
    (93, ''EPROTONOSUPPORT''), (94, ''ESOCKTNOSUPPORT''), (95, ''EOPNOTSUPP''), (96, ''EPFNOSUPPORT''),
    (97, ''EAFNOSUPPORT''), (98, ''EADDRINUSE''), (99, ''EADDRNOTAVAIL''), (100, ''ENETDOWN''),
    (101, ''ENETUNREACH''), (102, ''ENETRESET''), (103, ''ECONNABORTED''), (104, ''ECONNRESET''), (105, ''ENOBUFS''),
    (106, ''EISCONN''), (107, ''ENOTCONN''), (108, ''ESHUTDOWN''), (109, ''ETOOMANYREFS''), (110, ''ETIMEDOUT''),
    (111, ''ECONNREFUSED''), (112, ''EHOSTDOWN''), (113, ''EHOSTUNREACH''), (114, ''EALREADY''),
    (115, ''EINPROGRESS''), (116, ''ESTALE''), (117, ''EUCLEAN''), (118, ''ENOTNAM''), (119, ''ENAVAIL''),
    (120, ''EISNAM''), (121, ''EREMOTEIO''), (122, ''EDQUOT''), (123, ''ENOMEDIUM''), (124, ''EMEDIUMTYPE''),
    (125, ''ECANCELED''), (126, ''ENOKEY''), (127, ''EKEYEXPIRED''), (128, ''EKEYREVOKED''), (129, ''EKEYREJECTED''),
    (130, ''EOWNERDEAD''), (131, ''ENOTRECOVERABLE''), (132, ''ERFKILL''), (133, ''EHWPOISON'')]"

definition signal_pairs :: "(int \<times> cstr) list" where
  "signal_pairs = [
    (1, ''SIGHUP''), (2, ''SIGINT''), (3, ''SIGQUIT''), (4, ''SIGILL''), (5, ''SIGTRAP''), (6, ''SIGIOT/SIGABRT''),
    (7, ''SIGBUS''), (8, ''SIGFPE''), (9, ''SIGKILL''), (10, ''SIGUSR1''), (11, ''SIGSEGV''),
    (12, ''SIGUSR2''), (13, ''SIGPIPE''), (14, ''SIGALRM''), (15, ''SIGTERM''), (16, ''SIGSTKFLT''),
    (17, ''SIGCHLD''), (18, ''SIGCONT''), (19, ''SIGSTOP''), (20, ''SIGTSTP''), (21, ''SIGTTIN''), (22, ''SIGTTOU''),
    (23, ''SIGURG''), (24, ''SIGXCPU''), (25, ''SIGXFSZ''), (26, ''SIGVTALRM''), (27, ''SIGPROF''),
    (28, ''SIGWINCH''), (29, ''SIGIO/SIGPOLL''), (30, ''SIGPWR''),
    (31, ''SIGSYS/SIGUNUSED'')]"

definition tst_strerrno :: "int \<Rightarrow> cstr" where
  "tst_strerrno err = pair_lookup errno_pairs err"

definition tst_strsig :: "int \<Rightarrow> cstr" where
  "tst_strsig sig = pair_lookup signal_pairs sig"

section \<open>Colours\<close>

definition ESC :: char where "ESC = CHR 0x1B"

definition tst_ttype2color :: "int \<Rightarrow> cstr" where
  "tst_ttype2color ttype =
     (let r = TTYPE_RESULT ttype in
      if r = TPASS then ESC # ''[1;32m''
      else if r = TFAIL \<or> r = TBROK then ESC # ''[1;31m''
      else if r = TCONF then ESC # ''[1;33m''
      else if r = TWARN then ESC # ''[1;35m''
      else if r = TINFO then ESC # ''[1;34m''
      else [])"

definition ANSI_COLOR_RESET :: cstr where "ANSI_COLOR_RESET = ESC # ''[0m''"

text \<open>The result and the static variable afterwards. A value of the environment variable that is none of the four
  leaves the variable 0, and the result is \<open>-1\<close>, which counts as true.\<close>

definition tst_color_enabled :: "cstr option \<Rightarrow> bool \<Rightarrow> int \<Rightarrow> int \<times> int" where
  "tst_color_enabled env tty color =
     (if color \<noteq> 0 then (color - 1, color)
      else let color = (case env of
             Some v \<Rightarrow> if v = ''n'' \<or> v = ''0'' then 1 else if v = ''y'' \<or> v = ''1'' then 2 else 0
           | None \<Rightarrow> if tty then 2 else 1)
      in (color - 1, color))"

section \<open>State\<close>

datatype tmode = VERBOSE | NOPASS | DISCARD

record tst =
  T_exitval :: int
  passed_cnt :: int
  T_mode :: tmode
  first_time :: bool
  Buffered :: bool
  Last_tcid :: cstr
  Last_num :: int
  Last_type :: int
  Last_mesg :: cstr
  tst_count :: int
  tst_brk_entered :: int
  color :: int
  errno :: int
  TEST_ERRNO :: int
  TEST_RETURN :: int
  outp :: "cstr list"

text \<open>What the test and its environment fix: \<^verbatim>\<open>TCID\<close>, the environment variables \<^verbatim>\<open>TOUTPUT\<close> and \<^verbatim>\<open>LTP_COLORIZE_OUTPUT\<close>, whether
  the output is a terminal, and \<^verbatim>\<open>strerror\<close>.\<close>

record tst_cfg =
  TCID :: cstr
  TOUTPUT :: "cstr option"
  colorize :: "cstr option"
  tty :: bool
  strerror :: "int \<Rightarrow> cstr"

definition init_tst :: tst where
  "init_tst = \<lparr>T_exitval = 0, passed_cnt = 0, T_mode = VERBOSE, first_time = True, Buffered = False, Last_tcid = [],
     Last_num = 0, Last_type = 0, Last_mesg = [], tst_count = 0, tst_brk_entered = 0, color = 0, errno = 0,
     TEST_ERRNO = 0, TEST_RETURN = 0, outp = []\<rparr>"

text \<open>How the test may end; \<open>Overrun\<close> is a write past an array, \<open>Undefined\<close> an overflow of \<^verbatim>\<open>int\<close>.\<close>

datatype tst_stop = Exit int | Abort | Overrun | Undefined

type_synonym tst_result = "tst_stop \<times> tst + tst"

definition USERMESG :: nat where "USERMESG = 2048"
definition MAXMESG :: nat where "MAXMESG = 80"

text \<open>\<^verbatim>\<open>EXPAND_VAR_ARGS\<close> with \<open>len\<close> characters already in the array; an empty message fails the assertion.\<close>

definition expand_var_args :: "nat \<Rightarrow> cstr \<Rightarrow> tst \<Rightarrow> tst_stop \<times> tst + cstr" where
  "expand_var_args len text s =
     (if text = [] \<or> USERMESG - len \<le> 1 then Inl (Abort, s) else Inr (take (USERMESG - len - 1) text))"

section \<open>Printing\<close>

definition pad_right :: "nat \<Rightarrow> cstr \<Rightarrow> cstr" where
  "pad_right n s = s @ replicate (n - length s) SPACE"

definition pad_left :: "nat \<Rightarrow> cstr \<Rightarrow> cstr" where
  "pad_left n s = replicate (n - length s) SPACE @ s"

text \<open>One more part of the line; when it does not fit, a message with the source line is printed and the test aborts.\<close>

definition add_part :: "int \<Rightarrow> nat \<Rightarrow> cstr \<Rightarrow> cstr \<Rightarrow> tst \<Rightarrow> tst_stop \<times> tst + cstr" where
  "add_part lineno spare part msg s =
     (if length msg + length part + spare \<ge> USERMESG
      then Inl (Abort, s\<lparr>outp := outp s @ [''tst_print: '' @ sdec lineno @ '': line too long'' @ [NEWLINE]]\<rparr>)
      else Inr (msg @ part))"

definition err_part :: "tst_cfg \<Rightarrow> cstr \<Rightarrow> int \<Rightarrow> cstr" where
  "err_part cfg what err = '': '' @ what @ ''='' @ tst_strerrno err @ ''('' @ sdec err @ ''): '' @ strerror cfg err"

definition int_of_long :: "int \<Rightarrow> int" where
  "int_of_long x = (x + 2 ^ 31) mod 2 ^ 32 - 2 ^ 31"

definition hidden :: "tmode \<Rightarrow> int \<Rightarrow> bool" where
  "hidden mode r = (mode = DISCARD \<or> mode = NOPASS \<and> r \<noteq> TFAIL \<and> r \<noteq> TBROK \<and> r \<noteq> TWARN)"

definition head_text :: "tmode \<Rightarrow> cstr \<Rightarrow> int \<Rightarrow> cstr" where
  "head_text mode tcid tnum =
     pad_right 8 tcid @ [SPACE] @ pad_left 4 (sdec tnum) @ (if mode = VERBOSE then ''  '' else ''       '')"

definition body_text :: "int \<Rightarrow> int \<Rightarrow> cstr \<Rightarrow> cstr" where
  "body_text on ttype tmesg =
     (if on \<noteq> 0 then tst_ttype2color ttype @ strttype ttype @ ANSI_COLOR_RESET @ ''  :  '' @ tmesg
      else strttype ttype @ ''  :  '' @ tmesg)"

definition tst_print :: "tst_cfg \<Rightarrow> cstr \<Rightarrow> int \<Rightarrow> int \<Rightarrow> cstr \<Rightarrow> tst \<Rightarrow> tst_result" where
  "tst_print cfg tcid tnum ttype tmesg s =
     (let r = TTYPE_RESULT ttype; s = s\<lparr>T_exitval := T_exitval s OR r\<rparr> in
      if hidden (T_mode s) r then Inr s
      else
        bindr (add_part 310 0 (head_text (T_mode s) tcid tnum) [] s) (\<lambda>m.
        let (on, c) = tst_color_enabled (colorize cfg) (tty cfg) (color s); s = s\<lparr>color := c\<rparr> in
        bindr (add_part 322 0 (body_text on ttype tmesg) m s) (\<lambda>m.
        bindr (add_part 333 0 (if ttype AND TERRNO \<noteq> 0 then err_part cfg ''errno'' (errno s) else []) m s) (\<lambda>m.
        bindr (add_part 345 0 (if ttype AND TTERRNO \<noteq> 0 then err_part cfg ''TEST_ERRNO'' (TEST_ERRNO s) else []) m s) (\<lambda>m.
        let v = int_of_long (TEST_RETURN s); err = (if TEST_RETURN s < 0 then - v else v) in
        if ttype AND TRERRNO \<noteq> 0 \<and> i32 err = None then Inl (Undefined, s)
        else
          bindr (add_part 357 1 (if ttype AND TRERRNO \<noteq> 0 then err_part cfg ''TEST_RETURN'' err else []) m s) (\<lambda>m.
          Inr (s\<lparr>outp := outp s @ [m @ [NEWLINE]]\<rparr>)))))))"

definition check_env :: "tst_cfg \<Rightarrow> tst \<Rightarrow> tst" where
  "check_env cfg s =
     (if \<not> first_time s then s
      else s\<lparr>first_time := False,
             T_mode := (case TOUTPUT cfg of
                None \<Rightarrow> VERBOSE
              | Some v \<Rightarrow> if v = ''NOPASS'' then NOPASS else if v = ''DISCARD'' then DISCARD else VERBOSE)\<rparr>)"

definition tst_condense :: "tst_cfg \<Rightarrow> int \<Rightarrow> int \<Rightarrow> cstr \<Rightarrow> tst \<Rightarrow> tst_result" where
  "tst_condense cfg tnum ttype tmesg s =
     (let r = TTYPE_RESULT ttype in
      if Buffered s \<and> Last_tcid s = TCID cfg \<and> Last_type s = r \<and> Last_mesg s = tmesg then Inr s
      else
        bindr (if Buffered s then tst_print cfg (Last_tcid s) (Last_num s) (Last_type s) (Last_mesg s) s else Inr s) (\<lambda>s.
          Inr (s\<lparr>Last_tcid := TCID cfg, Last_num := tnum, Last_type := r, Last_mesg := tmesg, Buffered := True\<rparr>)))"

definition tst_old_flush :: "tst_cfg \<Rightarrow> tst \<Rightarrow> tst_result" where
  "tst_old_flush cfg s =
     (if Buffered s \<and> T_mode s = NOPASS then
        bindr (tst_print cfg (Last_tcid s) (Last_num s) (Last_type s) (Last_mesg s) s) (\<lambda>s. Inr (s\<lparr>Buffered := False\<rparr>))
      else Inr s)"

section \<open>Results\<close>

text \<open>\<open>file\<close> is \<open>None\<close> for a null pointer.\<close>

definition tst_res_core :: "tst_cfg \<Rightarrow> cstr option \<Rightarrow> int \<Rightarrow> int \<Rightarrow> cstr \<Rightarrow> tst \<Rightarrow> tst_result" where
  "tst_res_core cfg file lineno ttype text s =
     (let r = TTYPE_RESULT ttype;
          prefix = (case file of
             Some f \<Rightarrow> if r \<noteq> TPASS \<and> r \<noteq> TINFO then f @ '':'' @ sdec lineno @ '': '' else []
           | None \<Rightarrow> [])
      in
      if length prefix \<ge> USERMESG then Inl (Overrun, s)
      else bindr (expand_var_args (length prefix) text s) (\<lambda>t.
        let tmesg = prefix @ t;
            s = s\<lparr>T_exitval := T_exitval s OR r\<rparr>;
            s = (if r = TPASS then s\<lparr>passed_cnt := passed_cnt s + 1\<rparr> else s);
            s = check_env cfg s
        in
        if r = TWARN \<or> r = TINFO then tst_print cfg (TCID cfg) 0 ttype tmesg s
        else
          bindr (if tst_count s < 0 then tst_print cfg (TCID cfg) 0 TWARN ''tst_res(): tst_count < 0 is not valid'' s else Inr s) (\<lambda>s.
          bindr (case T_mode s of
                   DISCARD \<Rightarrow> Inr s
                 | NOPASS \<Rightarrow> tst_condense cfg (tst_count s + 1) ttype tmesg s
                 | VERBOSE \<Rightarrow> tst_print cfg (TCID cfg) (tst_count s + 1) ttype tmesg s) (\<lambda>s.
          Inr (s\<lparr>tst_count := tst_count s + 1\<rparr>)))))"

definition tst_exit :: "tst_cfg \<Rightarrow> tst \<Rightarrow> tst_result" where
  "tst_exit cfg s =
     bindr (tst_old_flush cfg s) (\<lambda>s.
       let s = s\<lparr>T_exitval := T_exitval s AND NOT TINFO\<rparr>;
           s = (if T_exitval s = TCONF \<and> passed_cnt s \<noteq> 0 then s\<lparr>T_exitval := T_exitval s AND NOT TCONF\<rparr> else s)
       in Inl (Exit (T_exitval s), s))"

text \<open>\<^verbatim>\<open>tst_fork\<close>: what \<^verbatim>\<open>fork\<close> returns is an argument; the state is that of the process the call returns in.\<close>

definition tst_fork :: "tst_cfg \<Rightarrow> int \<Rightarrow> tst \<Rightarrow> tst_stop \<times> tst + int \<times> tst" where
  "tst_fork cfg child s =
     bindr (tst_old_flush cfg s) (\<lambda>s. Inr (child, if child = 0 then s\<lparr>T_exitval := 0\<rparr> else s))"

definition tst_vfork :: "tst_cfg \<Rightarrow> int \<Rightarrow> tst \<Rightarrow> tst_stop \<times> tst + int \<times> tst" where
  "tst_vfork cfg child s = bindr (tst_old_flush cfg s) (\<lambda>s. Inr (child, s))"

text \<open>\<^verbatim>\<open>tst_brk__\<close>: the clean-up function is a function on the state, which may itself end the test.\<close>

definition tst_brk_core ::
  "tst_cfg \<Rightarrow> cstr option \<Rightarrow> int \<Rightarrow> int \<Rightarrow> (tst \<Rightarrow> tst_result) option \<Rightarrow> cstr \<Rightarrow> tst \<Rightarrow> tst_result" where
  "tst_brk_core cfg file lineno ttype func text s =
     bindr (expand_var_args 0 text s) (\<lambda>tmesg.
     let r = TTYPE_RESULT ttype; bad = (r \<noteq> TFAIL \<and> r \<noteq> TBROK \<and> r \<noteq> TCONF) in
     bindr (if bad then
              let w = ''tst_brk__: Invalid Type: '' @ sdec r @ ''. Using TBROK'' in
              if length w \<ge> MAXMESG then Inl (Overrun, s) else tst_print cfg (TCID cfg) 0 TWARN w s
            else Inr s) (\<lambda>s.
     let ttype = (if bad then (ttype AND NOT r) OR TBROK else ttype) in
     bindr (tst_res_core cfg file lineno ttype tmesg s) (\<lambda>s.
     bindr (if tst_brk_entered s = 0 then
              if r = TCONF then tst_res_core cfg file lineno ttype ''Remaining cases not appropriate for configuration'' s
              else if r = TBROK then tst_res_core cfg file lineno TBROK ''Remaining cases broken'' s
              else Inr s
            else Inr s) (\<lambda>s.
     bindr (case func of
              None \<Rightarrow> Inr s
            | Some f \<Rightarrow>
                bindr (f (s\<lparr>tst_brk_entered := tst_brk_entered s + 1\<rparr>))
                  (\<lambda>s. Inr (s\<lparr>tst_brk_entered := tst_brk_entered s - 1\<rparr>))) (\<lambda>s.
     if tst_brk_entered s = 0 then tst_exit cfg s else Inr s)))))"

definition tst_resm :: "tst_cfg \<Rightarrow> cstr option \<Rightarrow> int \<Rightarrow> int \<Rightarrow> cstr \<Rightarrow> tst \<Rightarrow> tst_result" where
  "tst_resm cfg file lineno ttype text s =
     bindr (expand_var_args 0 text s) (\<lambda>tmesg. tst_res_core cfg file lineno ttype tmesg s)"

text \<open>\<^verbatim>\<open>tst_brkm__\<close> aborts if \<^verbatim>\<open>tst_brk__\<close> returns, which it does inside a clean-up function.\<close>

definition tst_brkm :: "tst_cfg \<Rightarrow> cstr option \<Rightarrow> int \<Rightarrow> int \<Rightarrow> (tst \<Rightarrow> tst_result) option \<Rightarrow> cstr \<Rightarrow> tst \<Rightarrow> tst_result" where
  "tst_brkm cfg file lineno ttype func text s =
     bindr (expand_var_args 0 text s) (\<lambda>tmesg.
       bindr (tst_brk_core cfg file lineno ttype func tmesg s) (\<lambda>s. Inl (Abort, s)))"

definition tst_require_root :: "tst_cfg \<Rightarrow> cstr option \<Rightarrow> int \<Rightarrow> int \<Rightarrow> tst \<Rightarrow> tst_result" where
  "tst_require_root cfg file lineno euid s =
     (if euid \<noteq> 0 then tst_brkm cfg file lineno TCONF None ''Test needs to be run as root'' s else Inr s)"

text \<open>\<^verbatim>\<open>tst_record_childstatus\<close> for the status that \<^verbatim>\<open>waitpid\<close> returns: an exit value or a signal.\<close>

datatype child_status = Child_exited int | Child_signaled int

definition child_info :: "tst_cfg \<Rightarrow> cstr option \<Rightarrow> int \<Rightarrow> bool \<Rightarrow> cstr \<Rightarrow> tst \<Rightarrow> tst_result" where
  "child_info cfg file lineno cond text s = (if cond then tst_resm cfg file lineno TINFO text s else Inr s)"

definition tst_record_childstatus ::
  "tst_cfg \<Rightarrow> cstr option \<Rightarrow> (tst \<Rightarrow> tst_result) option \<Rightarrow> int \<Rightarrow> child_status \<Rightarrow> tst \<Rightarrow> tst_result" where
  "tst_record_childstatus cfg file cleanup child status s =
     (case status of
        Child_exited v \<Rightarrow>
          let r = TTYPE_RESULT v; s = s\<lparr>T_exitval := T_exitval s OR r\<rparr> in
          bindr (child_info cfg file 442 (r = TPASS) ''Child process returned TPASS'' s) (\<lambda>s.
          bindr (child_info cfg file 445 (r AND TFAIL \<noteq> 0) ''Child process returned TFAIL'' s) (\<lambda>s.
          bindr (child_info cfg file 448 (r AND TBROK \<noteq> 0) ''Child process returned TBROK'' s) (\<lambda>s.
          child_info cfg file 451 (r AND TCONF \<noteq> 0) ''Child process returned TCONF'' s)))
      | Child_signaled sig \<Rightarrow>
          tst_brkm cfg file 454 TBROK cleanup (''child process('' @ sdec child @ '') killed by unexpected signal ''
            @ tst_strsig sig @ ''('' @ sdec sig @ '')'') s)"

section \<open>Hexadecimal dumps\<close>

definition hex_digit :: "nat \<Rightarrow> char" where
  "hex_digit d = (if d < 10 then char_of (d + 48) else char_of (d + 87))"

definition hex2 :: "nat \<Rightarrow> cstr" where
  "hex2 b = [hex_digit (b div 16), hex_digit (b mod 16)]"

text \<open>The loop of \<^verbatim>\<open>tst_resm_hexd_\<close>: \<open>line\<close> is the text in the array before \<^verbatim>\<open>pmesg\<close>.\<close>

fun hexd_loop :: "(cstr \<Rightarrow> tst \<Rightarrow> tst_result) \<Rightarrow> nat \<Rightarrow> nat list \<Rightarrow> cstr \<Rightarrow> tst \<Rightarrow> tst_result" where
  "hexd_loop res i [] line s = Inr s"
| "hexd_loop res i (b # bs) line s =
     (let line = (if line \<noteq> [] then line @ [SPACE] else line) @ hex2 b in
      if (i + 1) mod 16 = 0 \<or> bs = [] then bindr (res line s) (hexd_loop res (i + 1) bs [])
      else hexd_loop res (i + 1) bs line s)"

definition tst_resm_hexd :: "tst_cfg \<Rightarrow> cstr option \<Rightarrow> int \<Rightarrow> int \<Rightarrow> nat list \<Rightarrow> cstr \<Rightarrow> tst \<Rightarrow> tst_result" where
  "tst_resm_hexd cfg file lineno ttype buf text s =
     bindr (expand_var_args 0 text s) (\<lambda>tmesg.
       let res = tst_res_core cfg file lineno ttype in
       if length buf > 16 \<or> buf = [] \<or> length tmesg + length buf * 3 \<ge> USERMESG
       then bindr (res tmesg s) (hexd_loop res 0 buf [])
       else hexd_loop res 0 buf tmesg s)"

section \<open>Printing\<close>

definition ttypes :: "int list" where
  "ttypes = [TPASS, TFAIL, TBROK, TWARN, TINFO, TCONF]"

lemmas ttype_defs = TPASS_def TFAIL_def TBROK_def TWARN_def TINFO_def TCONF_def TTYPE_MASK_def TERRNO_def TTERRNO_def TRERRNO_def

lemma ttype_plain:
  assumes "t \<in> set ttypes"
  shows "TTYPE_RESULT t = t" "t AND TERRNO = 0" "t AND TTERRNO = 0" "t AND TRERRNO = 0"
  using assms by (auto simp: ttypes_def TTYPE_RESULT_def ttype_defs)

text \<open>Whether lines are coloured.\<close>

definition coloured :: "tst_cfg \<Rightarrow> int" where
  "coloured cfg = fst (tst_color_enabled (colorize cfg) (tty cfg) 0)"

definition color_ok :: "tst_cfg \<Rightarrow> tst \<Rightarrow> bool" where
  "color_ok cfg s = (color s = 0 \<or> color s = snd (tst_color_enabled (colorize cfg) (tty cfg) 0))"

lemma color_stable:
  assumes "color_ok cfg s"
  shows "fst (tst_color_enabled (colorize cfg) (tty cfg) (color s)) = coloured cfg"
    "snd (tst_color_enabled (colorize cfg) (tty cfg) (color s)) = snd (tst_color_enabled (colorize cfg) (tty cfg) 0)"
  using assms by (auto simp: color_ok_def coloured_def tst_color_enabled_def Let_def split: option.splits if_splits)

definition line_text :: "tst_cfg \<Rightarrow> tmode \<Rightarrow> int \<times> int \<times> cstr \<Rightarrow> cstr" where
  "line_text cfg mode = (\<lambda>(n, t, m). head_text mode (TCID cfg) n @ body_text (coloured cfg) t m @ [NEWLINE])"

lemma strttype_length: "t \<in> set ttypes \<Longrightarrow> length (strttype t) = 5"
  using ttype_plain(1) [of t] by (auto simp: ttypes_def strttype_def pair_lookup_def ttype_defs)

lemma head_length: "length tcid \<le> 200 \<Longrightarrow> i32 n \<noteq> None \<Longrightarrow> length (head_text mode tcid n) \<le> 219"
proof -
  assume a: "length tcid \<le> 200" "i32 n \<noteq> None"
  have "length (sdec n) \<le> 11" by (rule length_sdec [OF a(2)])
  then have "length (pad_right 8 tcid) \<le> 200" "length (pad_left 4 (sdec n)) \<le> 11"
    using a(1) by (simp_all add: pad_right_def pad_left_def)
  then show ?thesis by (simp add: head_text_def)
qed

lemma body_length: "t \<in> set ttypes \<Longrightarrow> length (body_text on t m) \<le> 21 + length m"
  using strttype_length [of t] by (simp add: body_text_def tst_ttype2color_def ANSI_COLOR_RESET_def Let_def)

lemma add_part_ok: "length msg + length part + spare < USERMESG \<Longrightarrow> add_part l spare part msg s = Inr (msg @ part)"
  by (simp add: add_part_def)

lemma tst_print_ok:
  assumes t: "t \<in> set ttypes" and fit: "length (TCID cfg) \<le> 200" "i32 n \<noteq> None" "length m \<le> 1700" and c: "color_ok cfg s"
  obtains k where "tst_print cfg (TCID cfg) n t m s =
      Inr (s\<lparr>T_exitval := T_exitval s OR t, color := k,
        outp := outp s @ (if hidden (T_mode s) t then [] else [line_text cfg (T_mode s) (n, t, m)])\<rparr>)"
    "color_ok cfg (s\<lparr>color := k\<rparr>)"
proof (cases "hidden (T_mode s) t")
  case True
  then have "tst_print cfg (TCID cfg) n t m s = Inr (s\<lparr>T_exitval := T_exitval s OR t, color := color s, outp := outp s @ []\<rparr>)"
    using ttype_plain(1) [OF t] by (simp add: tst_print_def)
  then show ?thesis using that [of "color s"] True c by (simp add: color_ok_def)
next
  case False
  obtain on k where k: "tst_color_enabled (colorize cfg) (tty cfg) (color s) = (on, k)" by (cases "tst_color_enabled (colorize cfg) (tty cfg) (color s)")
  have on: "on = coloured cfg" "k = snd (tst_color_enabled (colorize cfg) (tty cfg) 0)" using color_stable [OF c] k by simp_all
  let ?h = "head_text (T_mode s) (TCID cfg) n" and ?b = "body_text on t m"
  have len: "length ?h \<le> 219" "length ?b \<le> 21 + length m" by (rule head_length [OF fit(1,2)], rule body_length [OF t])
  have parts: "length [] + length ?h + 0 < USERMESG" "length ([] @ ?h) + length ?b + 0 < USERMESG"
    "length (([] @ ?h) @ ?b) + length [] + 1 < USERMESG" using len fit(3) by (simp_all add: USERMESG_def)
  have "tst_print cfg (TCID cfg) n t m s = Inr (s\<lparr>T_exitval := T_exitval s OR t, color := k, outp := outp s @ [?h @ ?b @ [NEWLINE]]\<rparr>)"
    using False parts ttype_plain [OF t] k by (simp add: tst_print_def Let_def add_part_ok)
  then show ?thesis using that [of k] False on by (simp add: line_text_def color_ok_def)
qed

section \<open>Runs of a test\<close>

text \<open>A call of \<^verbatim>\<open>tst_resm\<close>, and a test that makes some and exits.\<close>

record call =
  c_file :: "cstr option"
  c_line :: int
  c_type :: int
  c_text :: cstr

fun results :: "tst_cfg \<Rightarrow> call list \<Rightarrow> tst \<Rightarrow> tst_result" where
  "results cfg [] s = Inr s"
| "results cfg (c # cs) s = bindr (tst_resm cfg (c_file c) (c_line c) (c_type c) (c_text c) s) (results cfg cs)"

definition test_main :: "tst_cfg \<Rightarrow> call list \<Rightarrow> tst_result" where
  "test_main cfg cs = bindr (results cfg cs init_tst) (tst_exit cfg)"

text \<open>Calls with one of the six types and messages that fit on a line.\<close>

definition call_ok :: "call \<Rightarrow> bool" where
  "call_ok c = (c_type c \<in> set ttypes \<and> i32 (c_line c) \<noteq> None \<and> c_text c \<noteq> [] \<and> length (c_text c) \<le> 1400
     \<and> (case c_file c of None \<Rightarrow> True | Some f \<Rightarrow> length f \<le> 200))"

definition call_prefix :: "call \<Rightarrow> cstr" where
  "call_prefix c = (case c_file c of
      Some f \<Rightarrow> if c_type c \<noteq> TPASS \<and> c_type c \<noteq> TINFO then f @ '':'' @ sdec (c_line c) @ '': '' else []
    | None \<Rightarrow> [])"

definition call_mesg :: "call \<Rightarrow> cstr" where
  "call_mesg c = call_prefix c @ c_text c"

definition is_case :: "int \<Rightarrow> bool" where
  "is_case t = (t \<noteq> TWARN \<and> t \<noteq> TINFO)"

text \<open>The results with their test case numbers; warnings and information have number 0.\<close>

fun items :: "int \<Rightarrow> call list \<Rightarrow> (int \<times> int \<times> cstr) list" where
  "items k [] = []"
| "items k (c # cs) =
     (if is_case (c_type c) then (k + 1, c_type c, call_mesg c) # items (k + 1) cs
      else (0, c_type c, call_mesg c) # items k cs)"

text \<open>The first of every run of equal results.\<close>

fun condense :: "(int \<times> int \<times> cstr) list \<Rightarrow> (int \<times> int \<times> cstr) list" where
  "condense [] = []"
| "condense [x] = [x]"
| "condense (x # y # zs) = (if snd x = snd y then condense (x # zs) else x # condense (y # zs))"

definition cases_of :: "call list \<Rightarrow> (int \<times> int \<times> cstr) list" where
  "cases_of cs = filter (\<lambda>(n, t, m). is_case t) (items 0 cs)"

definition mode_of :: "tst_cfg \<Rightarrow> tmode" where
  "mode_of cfg = (case TOUTPUT cfg of
      None \<Rightarrow> VERBOSE
    | Some v \<Rightarrow> if v = ''NOPASS'' then NOPASS else if v = ''DISCARD'' then DISCARD else VERBOSE)"

definition or_types :: "call list \<Rightarrow> int" where
  "or_types cs = fold (\<lambda>c x. x OR c_type c) cs 0"

definition n_case :: "call list \<Rightarrow> nat" where
  "n_case cs = length (filter (\<lambda>c. is_case (c_type c)) cs)"

definition n_pass :: "call list \<Rightarrow> nat" where
  "n_pass cs = length (filter (\<lambda>c. c_type c = TPASS) cs)"

definition shown :: "int \<times> int \<times> cstr \<Rightarrow> bool" where
  "shown = (\<lambda>(n, t, m). t = TFAIL \<or> t = TBROK)"

lemma items_snoc:
  "items k (cs @ [c]) = items k cs @ [(if is_case (c_type c) then k + int (n_case cs) + 1 else 0, c_type c, call_mesg c)]"
  by (induction cs arbitrary: k) (simp_all add: n_case_def)

lemma cases_snoc:
  "cases_of (cs @ [c]) = cases_of cs @ (if is_case (c_type c) then [(int (n_case cs) + 1, c_type c, call_mesg c)] else [])"
  by (simp add: cases_of_def items_snoc)

lemma cases_Nil [simp]: "cases_of [] = []"
  by (simp add: cases_of_def)

lemma condense_Nil_iff: "condense xs = [] \<longleftrightarrow> xs = []"
  by (induction xs rule: condense.induct) simp_all

lemma condense_snoc:
  "condense (xs @ [y]) = (if xs \<noteq> [] \<and> snd (last (condense xs)) = snd y then condense xs else condense xs @ [y])"
proof (induction xs rule: condense.induct)
  case (3 x z zs)
  then show ?case by (auto simp: condense_Nil_iff)
qed auto

lemma or_types_snoc: "or_types (cs @ [c]) = or_types cs OR c_type c"
  by (simp add: or_types_def)

lemma n_snoc: "n_case (cs @ [c]) = n_case cs + (if is_case (c_type c) then 1 else 0)"
  "n_pass (cs @ [c]) = n_pass cs + (if c_type c = TPASS then 1 else 0)"
  by (simp_all add: n_case_def n_pass_def)

lemma or_types_absorb: "c \<in> set cs \<Longrightarrow> or_types cs OR c_type c = or_types cs"
proof (induction cs rule: rev_induct)
  case (snoc d cs)
  show ?case
  proof (cases "c = d")
    case True
    then show ?thesis by (simp add: or_types_snoc or.assoc)
  next
    case False
    have "(or_types cs OR c_type d) OR c_type c = (or_types cs OR c_type c) OR c_type d" by (simp only: ac_simps)
    then show ?thesis using snoc False by (simp add: or_types_snoc)
  qed
qed simp

lemma cases_types: "(n, t, m) \<in> set (cases_of cs) \<Longrightarrow> \<exists>c \<in> set cs. c_type c = t \<and> call_mesg c = m"
  by (induction cs rule: rev_induct) (auto simp: cases_snoc split: if_splits)

lemma cases_num: "(n, t, m) \<in> set (cases_of cs) \<Longrightarrow> 0 < n \<and> n \<le> int (n_case cs)"
  by (induction cs rule: rev_induct) (auto simp: cases_snoc n_snoc split: if_splits)

lemma condense_subset: "set (condense xs) \<subseteq> set xs"
  by (induction xs rule: condense.induct) auto

lemma call_mesg_length:
  assumes "call_ok c"
  shows "length (call_mesg c) \<le> 1700" "length (call_prefix c) \<le> 214"
proof -
  have "length (sdec (c_line c)) \<le> 11" using assms length_sdec by (simp add: call_ok_def)
  then show 1: "length (call_prefix c) \<le> 214" using assms by (auto simp: call_prefix_def call_ok_def split: option.splits)
  then show "length (call_mesg c) \<le> 1700" using assms by (simp add: call_mesg_def call_ok_def)
qed

subsection \<open>The state after some results\<close>

definition buffer_ok :: "tst_cfg \<Rightarrow> call list \<Rightarrow> tst \<Rightarrow> bool" where
  "buffer_ok cfg cs s =
     (if mode_of cfg = NOPASS then
        Buffered s = (cases_of cs \<noteq> [])
        \<and> (cases_of cs \<noteq> [] \<longrightarrow> last (condense (cases_of cs)) = (Last_num s, Last_type s, Last_mesg s) \<and> Last_tcid s = TCID cfg)
      else \<not> Buffered s)"

definition printed :: "tst_cfg \<Rightarrow> call list \<Rightarrow> cstr list" where
  "printed cfg cs =
     (case mode_of cfg of
        VERBOSE \<Rightarrow> map (line_text cfg VERBOSE) (items 0 cs)
      | DISCARD \<Rightarrow> []
      | NOPASS \<Rightarrow> map (line_text cfg NOPASS) (filter shown (butlast (condense (cases_of cs)))))"

definition no_warn :: "tst_cfg \<Rightarrow> call list \<Rightarrow> bool" where
  "no_warn cfg cs = (mode_of cfg = NOPASS \<longrightarrow> list_all (\<lambda>c. c_type c \<noteq> TWARN) cs)"

definition tst_inv :: "tst_cfg \<Rightarrow> call list \<Rightarrow> tst \<Rightarrow> bool" where
  "tst_inv cfg cs s =
     (T_exitval s = or_types cs \<and> passed_cnt s = int (n_pass cs) \<and> tst_count s = int (n_case cs)
      \<and> first_time s = (cs = []) \<and> (cs \<noteq> [] \<longrightarrow> T_mode s = mode_of cfg) \<and> color_ok cfg s
      \<and> tst_brk_entered s = 0 \<and> buffer_ok cfg cs s \<and> (no_warn cfg cs \<longrightarrow> outp s = printed cfg cs))"

lemma check_env_ok: "first_time s = (cs = []) \<Longrightarrow> (cs \<noteq> [] \<longrightarrow> T_mode s = mode_of cfg)
    \<Longrightarrow> check_env cfg s = s\<lparr>first_time := False, T_mode := mode_of cfg\<rparr>"
  by (cases s) (auto simp: check_env_def mode_of_def)

lemma tst_inv_init: "tst_inv cfg [] init_tst"
  by (simp add: tst_inv_def init_tst_def or_types_def n_pass_def n_case_def color_ok_def buffer_ok_def printed_def split: tmode.splits)

text \<open>\<^verbatim>\<open>tst_resm\<close> up to the display.\<close>

definition counted :: "tst_cfg \<Rightarrow> call \<Rightarrow> tst \<Rightarrow> tst" where
  "counted cfg c s = s\<lparr>T_exitval := T_exitval s OR c_type c,
     passed_cnt := (if c_type c = TPASS then passed_cnt s + 1 else passed_cnt s), first_time := False, T_mode := mode_of cfg\<rparr>"

definition display :: "tst_cfg \<Rightarrow> call \<Rightarrow> tst \<Rightarrow> tst_result" where
  "display cfg c s =
     (if \<not> is_case (c_type c) then tst_print cfg (TCID cfg) 0 (c_type c) (call_mesg c) s
      else
        bindr (case T_mode s of
                 DISCARD \<Rightarrow> Inr s
               | NOPASS \<Rightarrow> tst_condense cfg (tst_count s + 1) (c_type c) (call_mesg c) s
               | VERBOSE \<Rightarrow> tst_print cfg (TCID cfg) (tst_count s + 1) (c_type c) (call_mesg c) s) (\<lambda>s.
        Inr (s\<lparr>tst_count := tst_count s + 1\<rparr>)))"

lemma tst_resm_display:
  assumes inv: "tst_inv cfg cs s" and c: "call_ok c"
  shows "tst_resm cfg (c_file c) (c_line c) (c_type c) (c_text c) s = display cfg c (counted cfg c s)"
proof -
  have t: "TTYPE_RESULT (c_type c) = c_type c" using ttype_plain(1) c by (simp add: call_ok_def)
  have len: "length (call_prefix c) \<le> 214" using call_mesg_length [OF c] by simp
  have tx: "c_text c \<noteq> []" "length (c_text c) \<le> 1400" using c by (simp_all add: call_ok_def)
  have e: "expand_var_args 0 (c_text c) s = Inr (c_text c)" "expand_var_args (length (call_prefix c)) (c_text c) s = Inr (c_text c)"
    using tx len by (simp_all add: expand_var_args_def USERMESG_def)
  define s1 where "s1 = s\<lparr>T_exitval := T_exitval s OR c_type c, passed_cnt := (if c_type c = TPASS then passed_cnt s + 1 else passed_cnt s)\<rparr>"
  have "check_env cfg s1 = s1\<lparr>first_time := False, T_mode := mode_of cfg\<rparr>"
    using inv by (intro check_env_ok [of _ cs]) (simp_all add: s1_def tst_inv_def)
  then have s2: "check_env cfg s1 = counted cfg c s" by (simp add: s1_def counted_def)
  have n: "\<not> tst_count (counted cfg c s) < 0" using inv by (simp add: counted_def tst_inv_def)
  have p: "(case c_file c of Some f \<Rightarrow> if c_type c \<noteq> TPASS \<and> c_type c \<noteq> TINFO then f @ '':'' @ sdec (c_line c) @ '': '' else []
      | None \<Rightarrow> []) = call_prefix c" by (simp add: call_prefix_def split: option.splits)
  have 1: "(if c_type c = TPASS then (s\<lparr>T_exitval := T_exitval s OR c_type c\<rparr>)\<lparr>passed_cnt := passed_cnt (s\<lparr>T_exitval := T_exitval s OR c_type c\<rparr>) + 1\<rparr>
      else s\<lparr>T_exitval := T_exitval s OR c_type c\<rparr>) = s1" by (simp add: s1_def)
  have w: "(c_type c = TWARN \<or> c_type c = TINFO) = (\<not> is_case (c_type c))" by (simp add: is_case_def)
  have len': "\<not> USERMESG \<le> length (call_prefix c)" using len by (simp add: USERMESG_def)
  show ?thesis
    unfolding tst_resm_def e(1) bindr_simps tst_res_core_def t Let_def p e(2) 1 s2 w call_mesg_def [symmetric] display_def
    using len' n by (simp only: if_False bindr_simps)
qed

text \<open>The buffered result is one of the earlier ones.\<close>

lemma buffered_result:
  assumes "tst_inv cfg cs s" "list_all call_ok cs" "mode_of cfg = NOPASS" "Buffered s" "int (n_case cs) \<le> INT_MAX"
  obtains D where "condense (cases_of cs) = D @ [(Last_num s, Last_type s, Last_mesg s)]" "Last_tcid s = TCID cfg"
    "Last_type s \<in> set ttypes" "is_case (Last_type s)" "length (Last_mesg s) \<le> 1700" "i32 (Last_num s) \<noteq> None"
    "or_types cs OR Last_type s = or_types cs"
proof -
  let ?D = "condense (cases_of cs)" and ?x = "(Last_num s, Last_type s, Last_mesg s)"
  have b: "cases_of cs \<noteq> []" "last ?D = ?x" "Last_tcid s = TCID cfg"
    using assms(1,3,4) by (simp_all add: tst_inv_def buffer_ok_def)
  have ne: "?D \<noteq> []" using b(1) by (simp add: condense_Nil_iff)
  then have "?x \<in> set (cases_of cs)" using condense_subset [of "cases_of cs"] last_in_set [OF ne] b(2) by auto
  then have x: "is_case (Last_type s)" "0 < Last_num s" "Last_num s \<le> int (n_case cs)"
    using cases_num [of "Last_num s" "Last_type s" "Last_mesg s" cs] by (auto simp: cases_of_def)
  from cases_types [OF \<open>?x \<in> set (cases_of cs)\<close>] obtain c where c: "c \<in> set cs" "c_type c = Last_type s" "call_mesg c = Last_mesg s" by blast
  have ok: "call_ok c" using assms(2) c(1) by (simp add: list_all_iff)
  have "?D = butlast ?D @ [?x]" using append_butlast_last_id [OF ne] b(2) by simp
  moreover have "length (Last_mesg s) \<le> 1700" using call_mesg_length(1) [OF ok] c(3) by simp
  moreover have "Last_type s \<in> set ttypes" using ok c(2) by (simp add: call_ok_def)
  moreover have "i32 (Last_num s) \<noteq> None" using x assms(5) by (simp add: i32_def INT_MIN_def)
  moreover have "or_types cs OR Last_type s = or_types cs" using or_types_absorb [OF c(1)] c(2) by simp
  ultimately show ?thesis using that b(3) x(1) by blast
qed

lemma hidden_nopass: "is_case t \<Longrightarrow> hidden NOPASS t = (\<not> shown (n, t, m))"
  by (auto simp: hidden_def shown_def is_case_def)

lemma condense_inv:
  assumes inv: "tst_inv cfg cs s" and ok: "list_all call_ok cs" "call_ok c" "length (TCID cfg) \<le> 200" "int (n_case cs) < INT_MAX"
    and m: "mode_of cfg = NOPASS" and ic: "is_case (c_type c)"
  obtains s' where "tst_condense cfg (int (n_case cs) + 1) (c_type c) (call_mesg c) (counted cfg c s) = Inr s'"
    "tst_inv cfg (cs @ [c]) (s'\<lparr>tst_count := int (n_case cs) + 1\<rparr>)" "tst_count s' = int (n_case cs)"
proof -
  let ?x = "(int (n_case cs) + 1, c_type c, call_mesg c)" and ?s = "counted cfg c s"
  have t: "TTYPE_RESULT (c_type c) = c_type c" using ttype_plain(1) ok(2) by (simp add: call_ok_def)
  have I: "T_exitval s = or_types cs" "passed_cnt s = int (n_pass cs)" "tst_count s = int (n_case cs)" "color_ok cfg s"
    "buffer_ok cfg cs s" "tst_brk_entered s = 0" "no_warn cfg cs \<longrightarrow> outp s = printed cfg cs" using inv by (simp_all add: tst_inv_def)
  have S: "Buffered ?s = Buffered s" "Last_tcid ?s = Last_tcid s" "Last_num ?s = Last_num s" "Last_type ?s = Last_type s"
    "Last_mesg ?s = Last_mesg s" "T_mode ?s = NOPASS" "T_exitval ?s = or_types (cs @ [c])" "passed_cnt ?s = int (n_pass (cs @ [c]))"
    "first_time ?s = False" "tst_count ?s = int (n_case cs)" "outp ?s = outp s" "color ?s = color s" "tst_brk_entered ?s = 0"
    using I m by (simp_all add: counted_def or_types_snoc n_snoc)
  have nw: "no_warn cfg (cs @ [c]) = no_warn cfg cs" using ic by (simp add: no_warn_def is_case_def)
  have cs': "cases_of (cs @ [c]) = cases_of cs @ [?x]" using ic by (simp add: cases_snoc)
  show ?thesis
  proof (cases "Buffered s")
    case False
    then have e: "cases_of cs = []" using I(5) m by (simp add: buffer_ok_def)
    define s' where "s' = ?s\<lparr>Last_tcid := TCID cfg, Last_num := int (n_case cs) + 1, Last_type := c_type c, Last_mesg := call_mesg c, Buffered := True\<rparr>"
    have eq: "tst_condense cfg (int (n_case cs) + 1) (c_type c) (call_mesg c) ?s = Inr s'"
      using False by (simp add: tst_condense_def S t s'_def)
    have "tst_inv cfg (cs @ [c]) (s'\<lparr>tst_count := int (n_case cs) + 1\<rparr>)"
      using I e m ic by (simp add: tst_inv_def s'_def S nw cs' buffer_ok_def color_ok_def n_snoc printed_def)
    then show ?thesis using that [OF eq] by (simp add: s'_def S)
  next
    case True
    from buffered_result [OF inv ok(1) m True] ok(4) obtain D where D:
      "condense (cases_of cs) = D @ [(Last_num s, Last_type s, Last_mesg s)]" "Last_tcid s = TCID cfg"
      "Last_type s \<in> set ttypes" "is_case (Last_type s)" "length (Last_mesg s) \<le> 1700" "i32 (Last_num s) \<noteq> None"
      "or_types cs OR Last_type s = or_types cs" by auto
    have ne: "cases_of cs \<noteq> []" using D(1) condense_Nil_iff [of "cases_of cs"] by auto
    show ?thesis
    proof (cases "Last_type s = c_type c \<and> Last_mesg s = call_mesg c")
      case same: True
      then have eq: "tst_condense cfg (int (n_case cs) + 1) (c_type c) (call_mesg c) ?s = Inr ?s"
        using True D(2) by (simp add: tst_condense_def S t)
      have "condense (cases_of (cs @ [c])) = condense (cases_of cs)" using ne same D(1) by (simp add: cs' condense_snoc)
      then have "tst_inv cfg (cs @ [c]) (?s\<lparr>tst_count := int (n_case cs) + 1\<rparr>)"
        using I m ic True D(1,2) by (simp add: tst_inv_def S nw cs' buffer_ok_def color_ok_def n_snoc printed_def)
      then show ?thesis using that [OF eq] by (simp add: S)
    next
      case diff: False
      have cok: "color_ok cfg ?s" using I(4) by (simp add: color_ok_def S)
      from tst_print_ok [OF D(3) ok(3) D(6,5) cok] obtain k where k: "tst_print cfg (TCID cfg) (Last_num s) (Last_type s) (Last_mesg s) ?s =
          Inr (?s\<lparr>T_exitval := T_exitval ?s OR Last_type s, color := k, outp := outp ?s @ (if hidden (T_mode ?s) (Last_type s) then []
            else [line_text cfg (T_mode ?s) (Last_num s, Last_type s, Last_mesg s)])\<rparr>)" "color_ok cfg (?s\<lparr>color := k\<rparr>)" .
      define o' where "o' = outp s @ (if shown (Last_num s, Last_type s, Last_mesg s) then [line_text cfg NOPASS (Last_num s, Last_type s, Last_mesg s)] else [])"
      define s' where "s' = ?s\<lparr>color := k, outp := o', Last_tcid := TCID cfg, Last_num := int (n_case cs) + 1, Last_type := c_type c,
        Last_mesg := call_mesg c, Buffered := True\<rparr>"
      have ev: "or_types (cs @ [c]) OR Last_type s = or_types (cs @ [c])"
      proof -
        have "or_types (cs @ [c]) OR Last_type s = (or_types cs OR Last_type s) OR c_type c" by (simp only: or_types_snoc ac_simps)
        then show ?thesis using D(7) by (simp add: or_types_snoc)
      qed
      have "?s\<lparr>T_exitval := or_types (cs @ [c])\<rparr> = ?s" using S(7) by (cases ?s) simp
      then have eq: "tst_condense cfg (int (n_case cs) + 1) (c_type c) (call_mesg c) ?s = Inr s'"
        using True diff k(1) ev hidden_nopass [OF D(4), of "Last_num s" "Last_mesg s"]
        by (auto simp: tst_condense_def S t s'_def o'_def D(2))
      have "condense (cases_of (cs @ [c])) = condense (cases_of cs) @ [?x]" using diff D(1) by (auto simp: cs' condense_snoc)
      then have "tst_inv cfg (cs @ [c]) (s'\<lparr>tst_count := int (n_case cs) + 1\<rparr>)"
        using I m ic k(2) by (auto simp: tst_inv_def s'_def o'_def S nw cs' buffer_ok_def color_ok_def n_snoc printed_def D(1) butlast_append)
      then show ?thesis using that [OF eq] by (simp add: s'_def S)
    qed
  qed
qed

lemma tst_resm_inv:
  assumes inv: "tst_inv cfg cs s" and ok: "list_all call_ok cs" "call_ok c" "length (TCID cfg) \<le> 200" "int (n_case cs) < INT_MAX"
  obtains s' where "tst_resm cfg (c_file c) (c_line c) (c_type c) (c_text c) s = Inr s'" "tst_inv cfg (cs @ [c]) s'"
proof -
  let ?s = "counted cfg c s" and ?n = "if is_case (c_type c) then int (n_case cs) + 1 else 0"
  have I: "T_exitval s = or_types cs" "passed_cnt s = int (n_pass cs)" "tst_count s = int (n_case cs)" "color_ok cfg s"
    "buffer_ok cfg cs s" "tst_brk_entered s = 0" "no_warn cfg cs \<longrightarrow> outp s = printed cfg cs" using inv by (simp_all add: tst_inv_def)
  have S: "T_mode ?s = mode_of cfg" "tst_count ?s = int (n_case cs)" "color_ok cfg ?s" "outp ?s = outp s" "T_exitval ?s = or_types cs OR c_type c"
    using I by (simp_all add: counted_def color_ok_def)
  have d: "tst_resm cfg (c_file c) (c_line c) (c_type c) (c_text c) s = display cfg c ?s" by (rule tst_resm_display [OF inv ok(2)])
  have t: "c_type c \<in> set ttypes" "length (call_mesg c) \<le> 1700" using ok(2) call_mesg_length(1) [OF ok(2)] by (simp_all add: call_ok_def)
  have n: "i32 ?n \<noteq> None" using ok(4) by (simp add: i32_def INT_MIN_def INT_MAX_def)
  have idem: "(or_types cs OR c_type c) OR c_type c = or_types (cs @ [c])" "or_types (cs @ [c]) OR c_type c = or_types (cs @ [c])"
    by (simp_all add: or_types_snoc or.assoc)
  from tst_print_ok [OF t(1) ok(3) n t(2) S(3)] obtain k where k: "tst_print cfg (TCID cfg) ?n (c_type c) (call_mesg c) ?s =
      Inr (?s\<lparr>T_exitval := T_exitval ?s OR c_type c, color := k, outp := outp ?s @ (if hidden (T_mode ?s) (c_type c) then []
        else [line_text cfg (T_mode ?s) (?n, c_type c, call_mesg c)])\<rparr>)" "color_ok cfg (?s\<lparr>color := k\<rparr>)" .
  define s1 where "s1 = ?s\<lparr>T_exitval := T_exitval ?s OR c_type c, color := k, outp := outp ?s @ (if hidden (T_mode ?s) (c_type c) then []
        else [line_text cfg (T_mode ?s) (?n, c_type c, call_mesg c)])\<rparr>"
  define N where "N = int (n_case (cs @ [c]))"
  consider (info) "\<not> is_case (c_type c)" | (nopass) "is_case (c_type c)" "mode_of cfg = NOPASS"
    | (verbose) "is_case (c_type c)" "mode_of cfg = VERBOSE" | (discard) "is_case (c_type c)" "mode_of cfg = DISCARD"
    by (cases "mode_of cfg") auto
  then show ?thesis
  proof cases
    case nopass
    from condense_inv [OF inv ok nopass(2,1)] obtain s' where
      "tst_condense cfg (int (n_case cs) + 1) (c_type c) (call_mesg c) ?s = Inr s'"
      "tst_inv cfg (cs @ [c]) (s'\<lparr>tst_count := int (n_case cs) + 1\<rparr>)" "tst_count s' = int (n_case cs)" .
    then show ?thesis using that nopass S d by (simp add: display_def)
  next
    case discard
    have "tst_inv cfg (cs @ [c]) (?s\<lparr>tst_count := int (n_case cs) + 1\<rparr>)"
      using I discard S by (simp add: tst_inv_def counted_def buffer_ok_def color_ok_def no_warn_def printed_def n_snoc or_types_snoc)
    then show ?thesis using that discard S d by (simp add: display_def)
  next
    case verbose
    have "tst_inv cfg (cs @ [c]) (s1\<lparr>tst_count := int (n_case cs) + 1\<rparr>)"
      using I verbose S k(2) idem
      by (auto simp: tst_inv_def s1_def counted_def buffer_ok_def color_ok_def no_warn_def printed_def n_snoc items_snoc hidden_def)
    then show ?thesis using that verbose S d k(1) by (simp add: display_def s1_def)
  next
    case info
    then have "c_type c = TWARN \<or> c_type c = TINFO" by (simp add: is_case_def)
    then have "tst_inv cfg (cs @ [c]) s1"
      using I info S k(2) idem
      by (auto simp: tst_inv_def s1_def counted_def buffer_ok_def color_ok_def no_warn_def printed_def n_snoc items_snoc cases_snoc hidden_def
          ttype_defs split: tmode.splits)
    then show ?thesis using that info d k(1) by (simp add: display_def s1_def)
  qed
qed

lemma n_case_le: "n_case cs \<le> length cs"
  by (simp add: n_case_def)

lemma results_inv:
  assumes "tst_inv cfg cs s" "list_all call_ok (cs @ ds)" "length (TCID cfg) \<le> 200" "int (length (cs @ ds)) \<le> INT_MAX"
  shows "\<exists>s'. results cfg ds s = Inr s' \<and> tst_inv cfg (cs @ ds) s'"
  using assms(1,2,4)
proof (induction ds arbitrary: cs s)
  case (Cons d ds)
  have "int (n_case cs) < INT_MAX" using n_case_le [of cs] Cons.prems(3) by simp
  from tst_resm_inv [OF Cons.prems(1) _ _ assms(3) this, of d] Cons.prems(2) obtain s' where s':
    "tst_resm cfg (c_file d) (c_line d) (c_type d) (c_text d) s = Inr s'" "tst_inv cfg (cs @ [d]) s'" by auto
  show ?case using Cons.IH [OF s'(2)] Cons.prems s'(1) by simp
qed simp

subsection \<open>The end of a test\<close>

definition exit_status :: "call list \<Rightarrow> int" where
  "exit_status cs =
     (let x = or_types cs AND NOT TINFO in if x = TCONF \<and> n_pass cs \<noteq> 0 then x AND NOT TCONF else x)"

definition final_out :: "tst_cfg \<Rightarrow> call list \<Rightarrow> cstr list" where
  "final_out cfg cs =
     (case mode_of cfg of
        VERBOSE \<Rightarrow> map (line_text cfg VERBOSE) (items 0 cs)
      | DISCARD \<Rightarrow> []
      | NOPASS \<Rightarrow> map (line_text cfg NOPASS) (filter shown (condense (cases_of cs))))"

lemma tst_exit_ok:
  assumes inv: "tst_inv cfg cs s" and ok: "list_all call_ok cs" "length (TCID cfg) \<le> 200" "int (length cs) \<le> INT_MAX"
  obtains s' where "tst_exit cfg s = Inl (Exit (exit_status cs), s')" "no_warn cfg cs \<longrightarrow> outp s' = final_out cfg cs"
proof -
  have I: "T_exitval s = or_types cs" "passed_cnt s = int (n_pass cs)" "color_ok cfg s" "buffer_ok cfg cs s"
    "cs \<noteq> [] \<longrightarrow> T_mode s = mode_of cfg" "no_warn cfg cs \<longrightarrow> outp s = printed cfg cs" using inv by (simp_all add: tst_inv_def)
  have "\<exists>s1. tst_old_flush cfg s = Inr s1 \<and> T_exitval s1 = or_types cs \<and> passed_cnt s1 = int (n_pass cs)
      \<and> (no_warn cfg cs \<longrightarrow> outp s1 = final_out cfg cs)"
  proof (cases "mode_of cfg = NOPASS \<and> Buffered s")
    case True
    have "int (n_case cs) \<le> INT_MAX" using n_case_le [of cs] ok(3) by simp
    from buffered_result [OF inv ok(1) _ _ this] True obtain D where D:
      "condense (cases_of cs) = D @ [(Last_num s, Last_type s, Last_mesg s)]" "Last_tcid s = TCID cfg"
      "Last_type s \<in> set ttypes" "is_case (Last_type s)" "length (Last_mesg s) \<le> 1700" "i32 (Last_num s) \<noteq> None"
      "or_types cs OR Last_type s = or_types cs" by blast
    have m: "T_mode s = NOPASS" using I(5) D(1) True by auto
    from tst_print_ok [OF D(3) ok(2) D(6,5) I(3)] obtain k where k: "tst_print cfg (TCID cfg) (Last_num s) (Last_type s) (Last_mesg s) s =
        Inr (s\<lparr>T_exitval := T_exitval s OR Last_type s, color := k, outp := outp s @ (if hidden (T_mode s) (Last_type s) then []
          else [line_text cfg (T_mode s) (Last_num s, Last_type s, Last_mesg s)])\<rparr>)" .
    show ?thesis
      using True m k D I(1,2,6) hidden_nopass [OF D(4), of "Last_num s" "Last_mesg s"]
      by (auto simp: tst_old_flush_def printed_def final_out_def)
  next
    case False
    then have "tst_old_flush cfg s = Inr s" using I(4,5) by (cases "cs = []") (auto simp: tst_old_flush_def buffer_ok_def split: if_splits)
    moreover have "printed cfg cs = final_out cfg cs"
      using False I(4) by (auto simp: printed_def final_out_def buffer_ok_def split: tmode.splits)
    ultimately show ?thesis using I by simp
  qed
  then obtain s1 where s1: "tst_old_flush cfg s = Inr s1" "T_exitval s1 = or_types cs" "passed_cnt s1 = int (n_pass cs)"
    "no_warn cfg cs \<longrightarrow> outp s1 = final_out cfg cs" by blast
  define s2 where "s2 = s1\<lparr>T_exitval := exit_status cs\<rparr>"
  have "tst_exit cfg s = Inl (Exit (exit_status cs), s2)"
    using s1(1-3) by (simp add: tst_exit_def Let_def exit_status_def s2_def)
  then show ?thesis using that [of s2] s1(4) by (simp add: s2_def)
qed

lemma test_main_ok:
  assumes "list_all call_ok cs" "length (TCID cfg) \<le> 200" "int (length cs) \<le> INT_MAX"
  obtains s where "test_main cfg cs = Inl (Exit (exit_status cs), s)" "no_warn cfg cs \<longrightarrow> outp s = final_out cfg cs"
proof -
  from results_inv [OF tst_inv_init, of cs cfg] assms obtain s1 where s1: "results cfg cs init_tst = Inr s1" "tst_inv cfg cs s1" by auto
  from tst_exit_ok [OF s1(2) assms] show ?thesis using that s1(1) by (auto simp: test_main_def)
qed

text \<open>The result types are separate bits.\<close>

definition has :: "int \<Rightarrow> call list \<Rightarrow> bool" where
  "has t cs = list_ex (\<lambda>c. c_type c = t) cs"

definition bits_of :: "bool \<Rightarrow> bool \<Rightarrow> bool \<Rightarrow> bool \<Rightarrow> bool \<Rightarrow> int" where
  "bits_of f b w i c = of_bool f + 2 * of_bool b + 4 * of_bool w + 16 * of_bool i + 32 * of_bool c"

lemma bits_of_or:
  "bits_of f b w i c OR TPASS = bits_of f b w i c" "bits_of f b w i c OR TFAIL = bits_of True b w i c"
  "bits_of f b w i c OR TBROK = bits_of f True w i c" "bits_of f b w i c OR TWARN = bits_of f b True i c"
  "bits_of f b w i c OR TINFO = bits_of f b w True c" "bits_of f b w i c OR TCONF = bits_of f b w i True"
  by (cases f; cases b; cases w; cases i; cases c; simp add: bits_of_def ttype_defs)+

lemma bits_of_and: "bits_of f b w i c AND NOT TINFO = bits_of f b w False c" "TCONF AND NOT TCONF = 0"
  by (cases f; cases b; cases w; cases i; cases c; simp add: bits_of_def ttype_defs)+

lemma bits_of_conf: "bits_of f b w False c = TCONF \<longleftrightarrow> \<not> f \<and> \<not> b \<and> \<not> w \<and> c"
  by (cases f; cases b; cases w; cases c; simp add: bits_of_def ttype_defs)

lemma has_snoc: "has t (cs @ [c]) = (has t cs \<or> c_type c = t)"
  by (simp add: has_def)

lemma or_types_bits:
  "list_all call_ok cs \<Longrightarrow> or_types cs = bits_of (has TFAIL cs) (has TBROK cs) (has TWARN cs) (has TINFO cs) (has TCONF cs)"
proof (induction cs rule: rev_induct)
  case Nil
  show ?case by (simp add: or_types_def has_def bits_of_def)
next
  case (snoc c cs)
  then have "c_type c \<in> set ttypes" "or_types cs = bits_of (has TFAIL cs) (has TBROK cs) (has TWARN cs) (has TINFO cs) (has TCONF cs)"
    by (simp_all add: call_ok_def)
  then show ?case unfolding or_types_snoc has_snoc by (auto simp: ttypes_def bits_of_or) (simp_all add: ttype_defs)
qed

lemma n_pass_has: "n_pass cs \<noteq> 0 \<longleftrightarrow> has TPASS cs"
  by (induction cs) (auto simp: n_pass_def has_def)

lemma exit_status_bits:
  assumes "list_all call_ok cs"
  shows "exit_status cs = of_bool (has TFAIL cs) + 2 * of_bool (has TBROK cs) + 4 * of_bool (has TWARN cs)
    + 32 * of_bool (has TCONF cs \<and> (has TFAIL cs \<or> has TBROK cs \<or> has TWARN cs \<or> \<not> has TPASS cs))"
proof (cases "\<not> has TFAIL cs \<and> \<not> has TBROK cs \<and> \<not> has TWARN cs \<and> has TCONF cs")
  case True
  then have "bits_of (has TFAIL cs) (has TBROK cs) (has TWARN cs) False (has TCONF cs) = TCONF" by (simp add: bits_of_conf)
  then show ?thesis using True n_pass_has [of cs]
    by (simp add: exit_status_def Let_def or_types_bits [OF assms] bits_of_and) (simp add: TCONF_def)
next
  case False
  then show ?thesis
    by (auto simp: exit_status_def Let_def or_types_bits [OF assms] bits_of_and bits_of_conf) (simp_all add: bits_of_def)
qed

text \<open>What \<^verbatim>\<open>tst_brkm\<close> reports.\<close>

definition brk_calls :: "cstr option \<Rightarrow> int \<Rightarrow> int \<Rightarrow> cstr \<Rightarrow> call list" where
  "brk_calls file lineno ttype text =
     \<lparr>c_file = file, c_line = lineno, c_type = ttype, c_text = text\<rparr> #
     (if ttype = TCONF then [\<lparr>c_file = file, c_line = lineno, c_type = TCONF, c_text = ''Remaining cases not appropriate for configuration''\<rparr>]
      else if ttype = TBROK then [\<lparr>c_file = file, c_line = lineno, c_type = TBROK, c_text = ''Remaining cases broken''\<rparr>]
      else [])"

lemma expand_again: "text \<noteq> [] \<Longrightarrow> length text \<le> 1400 \<Longrightarrow> expand_var_args 0 text s = Inr text"
  by (simp add: expand_var_args_def USERMESG_def)

lemma brk_calls_ok:
  assumes "call_ok \<lparr>c_file = file, c_line = lineno, c_type = t, c_text = text\<rparr>"
  shows "list_all call_ok (brk_calls file lineno t text)"
  using assms by (auto simp: brk_calls_def call_ok_def ttypes_def)

lemma tst_brkm_calls:
  assumes inv: "tst_inv cfg cs s" and ok: "list_all call_ok cs" "call_ok \<lparr>c_file = file, c_line = lineno, c_type = t, c_text = text\<rparr>"
    and cfg: "length (TCID cfg) \<le> 200" "int (length cs + 2) \<le> INT_MAX" and t: "t = TFAIL \<or> t = TBROK \<or> t = TCONF"
  shows "tst_brkm cfg file lineno t None text s = bindr (results cfg (brk_calls file lineno t text) s) (tst_exit cfg)"
proof -
  let ?c = "\<lparr>c_file = file, c_line = lineno, c_type = t, c_text = text\<rparr>"
  have tx: "text \<noteq> []" "length text \<le> 1400" "TTYPE_RESULT t = t" using ok(2) ttype_plain(1) [of t] by (simp_all add: call_ok_def)
  have n: "int (n_case cs) < INT_MAX" "int (n_case (cs @ [?c])) < INT_MAX" using n_case_le [of cs] cfg(2) by (simp_all add: n_snoc)
  from tst_resm_inv [OF inv ok cfg(1) n(1)] obtain s1 where s1: "tst_res_core cfg file lineno t text s = Inr s1" "tst_inv cfg (cs @ [?c]) s1"
    by (auto simp: tst_resm_def expand_again [OF tx(1,2)])
  have e0: "tst_brk_entered s1 = 0" using s1(2) by (simp add: tst_inv_def)
  have r1: "tst_resm cfg file lineno t text s = Inr s1" using s1(1) by (simp add: tst_resm_def expand_again [OF tx(1,2)])
  have ok': "list_all call_ok (cs @ [?c])" using ok by simp
  have step: "\<exists>s2. tst_resm cfg file lineno t m s1 = Inr s2 \<and> tst_res_core cfg file lineno t m s1 = Inr s2 \<and> tst_brk_entered s2 = 0"
    if m: "m \<noteq> []" "length m \<le> 1400" for m
  proof -
    have c: "call_ok \<lparr>c_file = file, c_line = lineno, c_type = t, c_text = m\<rparr>" using ok(2) m by (simp add: call_ok_def)
    from tst_resm_inv [OF s1(2) ok' c cfg(1) n(2)] show ?thesis
      using m by (auto simp: tst_resm_def expand_again tst_inv_def)
  qed
  have tail: "tst_exit cfg s2 = bindr (tst_exit cfg s2) (\<lambda>s. Inl (Abort, s))" for s2
    by (cases "tst_old_flush cfg s2") (simp_all add: tst_exit_def Let_def)
  obtain s2 where s2: "tst_resm cfg file lineno t ''Remaining cases broken'' s1 = Inr s2"
    "tst_res_core cfg file lineno t ''Remaining cases broken'' s1 = Inr s2" "tst_brk_entered s2 = 0"
    using step [of "''Remaining cases broken''"] by auto
  obtain s3 where s3: "tst_resm cfg file lineno t ''Remaining cases not appropriate for configuration'' s1 = Inr s3"
    "tst_res_core cfg file lineno t ''Remaining cases not appropriate for configuration'' s1 = Inr s3" "tst_brk_entered s3 = 0"
    using step [of "''Remaining cases not appropriate for configuration''"] by auto
  have d: "TFAIL \<noteq> TBROK" "TFAIL \<noteq> TCONF" "TBROK \<noteq> TCONF" by (simp_all add: ttype_defs)
  show ?thesis
    using t
  proof (elim disjE)
    assume f: "t = TFAIL"
    show ?thesis using s1(1) r1 e0 tx d tail [of s1] unfolding f
      by (simp add: tst_brkm_def tst_brk_core_def expand_again brk_calls_def)
  next
    assume f: "t = TBROK"
    show ?thesis using s1(1) r1 e0 tx d s2 tail [of s2] unfolding f
      by (simp add: tst_brkm_def tst_brk_core_def expand_again brk_calls_def)
  next
    assume f: "t = TCONF"
    show ?thesis using s1(1) r1 e0 tx d s3 tail [of s3] unfolding f
      by (simp add: tst_brkm_def tst_brk_core_def expand_again brk_calls_def)
  qed
qed

lemma results_append: "results cfg (cs @ ds) s = bindr (results cfg cs s) (results cfg ds)"
proof (induction cs arbitrary: s)
  case (Cons c cs)
  then show ?case by (cases "tst_resm cfg (c_file c) (c_line c) (c_type c) (c_text c) s") simp_all
qed simp

section \<open>Properties\<close>


definition demo_tst :: "cstr \<Rightarrow> tst_cfg" where
  "demo_tst mode = \<lparr>TCID = ''t01'', TOUTPUT = Some mode, colorize = Some ''n'', tty = False, strerror = (\<lambda>_. ''msg'')\<rparr>"

definition demo_call :: "int \<Rightarrow> cstr \<Rightarrow> call" where
  "demo_call t text = \<lparr>c_file = Some ''a.c'', c_line = 7, c_type = t, c_text = text\<rparr>"

definition demo_calls :: "call list" where
  "demo_calls = [demo_call TPASS ''ok'', demo_call TFAIL ''bad'', demo_call TFAIL ''bad'', demo_call TINFO ''note'',
     demo_call TCONF ''skip'', demo_call TPASS ''ok'']"




section \<open>Observations\<close>

text \<open>\<^verbatim>\<open>tst_brk__\<close> is made to return inside a clean-up function, so that the function can go on, but \<^verbatim>\<open>tst_brkm__\<close>, through which
  it is called, then aborts.\<close>

lemma brkm_in_cleanup_aborts:
  "map_sum fst id (tst_brkm (demo_tst []) None 1 TFAIL (Some (tst_brkm (demo_tst []) None 2 TBROK None ''inner'')) ''outer'' init_tst)
     = Inl Abort"
  by code_simp

text \<open>With \<^verbatim>\<open>TOUTPUT=NOPASS\<close> the error number asked for with \<^verbatim>\<open>TERRNO\<close> is not printed, because only the result type is kept.\<close>

lemma nopass_drops_errno:
  "(case test_main (demo_tst ''NOPASS'') [demo_call (TFAIL + TERRNO) ''open'']
    of Inl (e, s) \<Rightarrow> outp s | Inr s \<Rightarrow> []) = [''t01         1       TFAIL  :  a.c:7: open'' @ [NEWLINE]]"
  "(case test_main (demo_tst []) [demo_call (TFAIL + TERRNO) ''open'']
    of Inl (e, s) \<Rightarrow> outp s | Inr s \<Rightarrow> []) = [''t01         1  TFAIL  :  a.c:7: open: errno=SUCCESS(0): msg'' @ [NEWLINE]]"
  by code_simp+

text \<open>An unknown value of \<^verbatim>\<open>LTP_COLORIZE_OUTPUT\<close> turns colours on.\<close>

lemma unknown_colorize: "fst (tst_color_enabled (Some ''never'') False 0) \<noteq> 0"
  by code_simp

text \<open>The dump of 17 bytes: a line with the message, a line with 16 bytes and a line with the last one.\<close>

lemma hexd_lines:
  "map_sum id outp (tst_resm_hexd (demo_tst []) None 1 TINFO (replicate 17 171) ''buf'' init_tst) = Inr
     [''t01         0  TINFO  :  buf'' @ [NEWLINE],
      ''t01         0  TINFO  :  ab ab ab ab ab ab ab ab ab ab ab ab ab ab ab ab'' @ [NEWLINE],
      ''t01         0  TINFO  :  ab'' @ [NEWLINE]]"
  by code_simp

end
