(* ===== verification/Tst_Checksum.thy ===== *)
theory Tst_Checksum
  imports "HOL-Library.Word" Ltp_Prelude
begin

text \<open>
  \<^verbatim>\<open>lib/tst_checksum.c\<close>: the CRC32c checksum with its table of 256 words, the bit-by-bit definition of the checksum
  (the reflected Castagnoli polynomial) that it is meant to compute, and the errors that it detects.
\<close>

unbundle bit_operations_syntax

section \<open>The table-driven checksum\<close>

definition crc32c_table :: "32 word list" where
  "crc32c_table = [
    0x00000000, 0xf26b8303, 0xe13b70f7, 0x1350f3f4, 0xc79a971f, 0x35f1141c, 0x26a1e7e8, 0xd4ca64eb,
    0x8ad958cf, 0x78b2dbcc, 0x6be22838, 0x9989ab3b, 0x4d43cfd0, 0xbf284cd3, 0xac78bf27, 0x5e133c24,
    0x105ec76f, 0xe235446c, 0xf165b798, 0x030e349b, 0xd7c45070, 0x25afd373, 0x36ff2087, 0xc494a384,
    0x9a879fa0, 0x68ec1ca3, 0x7bbcef57, 0x89d76c54, 0x5d1d08bf, 0xaf768bbc, 0xbc267848, 0x4e4dfb4b,
    0x20bd8ede, 0xd2d60ddd, 0xc186fe29, 0x33ed7d2a, 0xe72719c1, 0x154c9ac2, 0x061c6936, 0xf477ea35,
    0xaa64d611, 0x580f5512, 0x4b5fa6e6, 0xb93425e5, 0x6dfe410e, 0x9f95c20d, 0x8cc531f9, 0x7eaeb2fa,
    0x30e349b1, 0xc288cab2, 0xd1d83946, 0x23b3ba45, 0xf779deae, 0x05125dad, 0x1642ae59, 0xe4292d5a,
    0xba3a117e, 0x4851927d, 0x5b016189, 0xa96ae28a, 0x7da08661, 0x8fcb0562, 0x9c9bf696, 0x6ef07595,
    0x417b1dbc, 0xb3109ebf, 0xa0406d4b, 0x522bee48, 0x86e18aa3, 0x748a09a0, 0x67dafa54, 0x95b17957,
    0xcba24573, 0x39c9c670, 0x2a993584, 0xd8f2b687, 0x0c38d26c, 0xfe53516f, 0xed03a29b, 0x1f682198,
    0x5125dad3, 0xa34e59d0, 0xb01eaa24, 0x42752927, 0x96bf4dcc, 0x64d4cecf, 0x77843d3b, 0x85efbe38,
    0xdbfc821c, 0x2997011f, 0x3ac7f2eb, 0xc8ac71e8, 0x1c661503, 0xee0d9600, 0xfd5d65f4, 0x0f36e6f7,
    0x61c69362, 0x93ad1061, 0x80fde395, 0x72966096, 0xa65c047d, 0x5437877e, 0x4767748a, 0xb50cf789,
    0xeb1fcbad, 0x197448ae, 0x0a24bb5a, 0xf84f3859, 0x2c855cb2, 0xdeeedfb1, 0xcdbe2c45, 0x3fd5af46,
    0x7198540d, 0x83f3d70e, 0x90a324fa, 0x62c8a7f9, 0xb602c312, 0x44694011, 0x5739b3e5, 0xa55230e6,
    0xfb410cc2, 0x092a8fc1, 0x1a7a7c35, 0xe811ff36, 0x3cdb9bdd, 0xceb018de, 0xdde0eb2a, 0x2f8b6829,
    0x82f63b78, 0x709db87b, 0x63cd4b8f, 0x91a6c88c, 0x456cac67, 0xb7072f64, 0xa457dc90, 0x563c5f93,
    0x082f63b7, 0xfa44e0b4, 0xe9141340, 0x1b7f9043, 0xcfb5f4a8, 0x3dde77ab, 0x2e8e845f, 0xdce5075c,
    0x92a8fc17, 0x60c37f14, 0x73938ce0, 0x81f80fe3, 0x55326b08, 0xa759e80b, 0xb4091bff, 0x466298fc,
    0x1871a4d8, 0xea1a27db, 0xf94ad42f, 0x0b21572c, 0xdfeb33c7, 0x2d80b0c4, 0x3ed04330, 0xccbbc033,
    0xa24bb5a6, 0x502036a5, 0x4370c551, 0xb11b4652, 0x65d122b9, 0x97baa1ba, 0x84ea524e, 0x7681d14d,
    0x2892ed69, 0xdaf96e6a, 0xc9a99d9e, 0x3bc21e9d, 0xef087a76, 0x1d63f975, 0x0e330a81, 0xfc588982,
    0xb21572c9, 0x407ef1ca, 0x532e023e, 0xa145813d, 0x758fe5d6, 0x87e466d5, 0x94b49521, 0x66df1622,
    0x38cc2a06, 0xcaa7a905, 0xd9f75af1, 0x2b9cd9f2, 0xff56bd19, 0x0d3d3e1a, 0x1e6dcdee, 0xec064eed,
    0xc38d26c4, 0x31e6a5c7, 0x22b65633, 0xd0ddd530, 0x0417b1db, 0xf67c32d8, 0xe52cc12c, 0x1747422f,
    0x49547e0b, 0xbb3ffd08, 0xa86f0efc, 0x5a048dff, 0x8ecee914, 0x7ca56a17, 0x6ff599e3, 0x9d9e1ae0,
    0xd3d3e1ab, 0x21b862a8, 0x32e8915c, 0xc083125f, 0x144976b4, 0xe622f5b7, 0xf5720643, 0x07198540,
    0x590ab964, 0xab613a67, 0xb831c993, 0x4a5a4a90, 0x9e902e7b, 0x6cfbad78, 0x7fab5e8c, 0x8dc0dd8f,
    0xe330a81a, 0x115b2b19, 0x020bd8ed, 0xf0605bee, 0x24aa3f05, 0xd6c1bc06, 0xc5914ff2, 0x37faccf1,
    0x69e9f0d5, 0x9b8273d6, 0x88d28022, 0x7ab90321, 0xae7367ca, 0x5c18e4c9, 0x4f48173d, 0xbd23943e,
    0xf36e6f75, 0x0105ec76, 0x12551f82, 0xe03e9c81, 0x34f4f86a, 0xc69f7b69, 0xd5cf889d, 0x27a40b9e,
    0x79b737ba, 0x8bdcb4b9, 0x988c474d, 0x6ae7c44e, 0xbe2da0a5, 0x4c4623a6, 0x5f16d052, 0xad7d5351]"

definition crc32c_step :: "32 word \<Rightarrow> 8 word \<Rightarrow> 32 word" where
  "crc32c_step crc b = crc32c_table ! unat ((crc XOR ucast b) AND 0xff) XOR drop_bit 8 crc"

definition tst_crc32c :: "8 word list \<Rightarrow> 32 word" where
  "tst_crc32c buf = NOT (foldl crc32c_step 0xffffffff buf)"

section \<open>The checksum bit by bit\<close>

definition castagnoli :: "32 word" where "castagnoli = 0x82f63b78"

definition crc_bit :: "32 word \<Rightarrow> 32 word" where
  "crc_bit c = (if bit c 0 then drop_bit 1 c XOR castagnoli else drop_bit 1 c)"

definition crc_byte :: "32 word \<Rightarrow> 8 word \<Rightarrow> 32 word" where
  "crc_byte c b = (crc_bit ^^ 8) (c XOR ucast b)"

definition crc32c_spec :: "8 word list \<Rightarrow> 32 word" where
  "crc32c_spec buf = NOT (foldl crc_byte 0xffffffff buf)"

section \<open>The division is linear\<close>

lemma crc_bit_xor: "crc_bit (a XOR b) = crc_bit a XOR crc_bit b"
  by (auto simp: crc_bit_def bit_simps intro!: bit_word_eqI)

lemma crc_bits_xor: "(crc_bit ^^ n) (a XOR b) = (crc_bit ^^ n) a XOR (crc_bit ^^ n) b"
  by (induction n) (simp_all add: crc_bit_xor)

lemma crc_bits_zero: "(crc_bit ^^ n) 0 = 0"
  by (induction n) (simp_all add: crc_bit_def)

lemma crc_bits_shift: "take_bit n c = 0 \<Longrightarrow> (crc_bit ^^ n) c = drop_bit n c"
proof (induction n arbitrary: c)
  case (Suc n)
  have b: "\<not> bit c k" if "k < Suc n" for k
    using Suc.prems that by (metis bit_0_eq bit_take_bit_iff bot_apply bot_bool_def)
  then have "take_bit n (crc_bit c) = 0" "crc_bit c = drop_bit 1 c"
    by (auto simp: crc_bit_def bit_simps intro!: bit_word_eqI)
  then have "(crc_bit ^^ n) (crc_bit c) = drop_bit n (drop_bit 1 c)" by (simp add: Suc.IH)
  then show ?case by (simp add: funpow_swap1 drop_bit_drop_bit add.commute)
qed simp

text \<open>The table holds the remainders of the 256 bytes; they are computed on integers.\<close>

definition crc_int :: "int \<Rightarrow> int" where
  "crc_int c = (if odd c then (c div 2) XOR 0x82f63b78 else c div 2)"

definition crc8_int :: "int \<Rightarrow> int" where
  "crc8_int c = crc_int (crc_int (crc_int (crc_int (crc_int (crc_int (crc_int (crc_int c)))))))"

lemma uint_crc_bit: "uint (crc_bit c) = crc_int (uint c)"
proof -
  have "bit c 0 = odd (uint c)" using bit_uint_iff [of c 0] by (simp add: bit_0 [of "uint c"])
  moreover have "uint (drop_bit 1 c) = uint c div 2"
    by (simp add: unsigned_drop_bit_eq drop_bit_Suc uint_div)
  ultimately show ?thesis by (simp add: crc_bit_def crc_int_def castagnoli_def unsigned_xor_eq)
qed

lemma uint_crc8: "uint ((crc_bit ^^ 8) c) = crc8_int (uint c)"
  by (simp add: crc8_int_def numeral_eq_Suc uint_crc_bit)

lemma crc32c_table_check: "map uint crc32c_table = map crc8_int [0..255]"
  by (simp add: crc8_int_def crc_int_def crc32c_table_def upto_rec1)

lemma length_crc32c_table: "length crc32c_table = 256"
  by (simp add: crc32c_table_def)

lemma crc32c_table_nth:
  assumes "n < 256"
  shows "crc32c_table ! n = (crc_bit ^^ 8) (of_nat n)"
proof -
  have "uint (crc32c_table ! n) = map uint crc32c_table ! n" using assms by (simp add: length_crc32c_table)
  also have "\<dots> = crc8_int (int n)" unfolding crc32c_table_check using assms by simp
  also have "\<dots> = uint ((crc_bit ^^ 8) (of_nat n :: 32 word))"
    using assms by (simp add: uint_crc8 unsigned_of_nat take_bit_nat_eq_self)
  finally show ?thesis by (rule word_uint_eqI)
qed

lemma crc32c_step_eq: "crc32c_step c b = crc_byte c b"
proof -
  define x where "x = c XOR (ucast b :: 32 word)"
  have low: "x AND 0xff = take_bit 8 x" by (simp add: take_bit_eq_mask mask_eq_exp_minus_1)
  have x: "x = take_bit 8 x XOR (x AND NOT (mask 8))"
    by (rule bit_word_eqI) (auto simp: bit_simps)
  have "(crc_bit ^^ 8) (x AND NOT (mask 8)) = drop_bit 8 (x AND NOT (mask 8))"
    by (rule crc_bits_shift, rule bit_word_eqI) (auto simp: bit_simps)
  also have "\<dots> = drop_bit 8 c"
    unfolding x_def by (rule bit_word_eqI) (auto simp: bit_simps dest: bit_imp_le_length)
  finally have high: "(crc_bit ^^ 8) (x AND NOT (mask 8)) = drop_bit 8 c" .
  have "unat (take_bit 8 x) < 256"
    using take_bit_nat_less_exp [of 8 "unat x"] by (simp add: unsigned_take_bit_eq)
  then have "crc32c_table ! unat (take_bit 8 x) = (crc_bit ^^ 8) (take_bit 8 x)"
    by (simp add: crc32c_table_nth)
  then have "crc32c_step c b = (crc_bit ^^ 8) (take_bit 8 x) XOR (crc_bit ^^ 8) (x AND NOT (mask 8))"
    by (simp add: crc32c_step_def low high flip: x_def)
  also have "\<dots> = (crc_bit ^^ 8) x" by (metis x crc_bits_xor)
  finally show ?thesis by (simp add: crc_byte_def x_def)
qed

lemma tst_crc32c_eq_spec: "tst_crc32c buf = crc32c_spec buf"
  by (simp add: tst_crc32c_def crc32c_spec_def crc32c_step_eq [abs_def])

section \<open>Detected errors\<close>

text \<open>One step loses nothing: the polynomial has its top bit set, so the bit shifted out can be read off the result.\<close>

lemma crc_bit_zero:
  assumes "crc_bit c = 0"
  shows "c = 0"
proof (rule bit_word_eqI)
  fix n
  have top: "bit castagnoli 31" "\<not> bit (drop_bit 1 c) 31"
    by (simp add: castagnoli_def) (auto simp: bit_drop_bit_eq dest: bit_imp_le_length)
  have 0: "\<not> bit c 0"
  proof
    assume "bit c 0"
    then have "drop_bit 1 c XOR castagnoli = 0" using assms by (simp add: crc_bit_def)
    then have "bit (drop_bit 1 c XOR castagnoli) 31 = False" by simp
    then show False using top by (simp only: bit_xor_iff) simp
  qed
  then have "drop_bit 1 c = 0" using assms by (simp add: crc_bit_def)
  then have "\<not> bit (drop_bit 1 c) (n - 1)" by simp
  then show "bit c n = bit 0 n" using 0 by (cases n) (simp_all add: bit_drop_bit_eq)
qed

lemma crc_bit_inj: "crc_bit a = crc_bit b \<Longrightarrow> a = b"
  using crc_bit_zero [of "a XOR b"] by (simp add: crc_bit_xor) (metis xor.assoc xor.right_neutral xor_self_eq)

lemma crc_bits_inj: "(crc_bit ^^ n) a = (crc_bit ^^ n) b \<Longrightarrow> a = b"
  by (induction n) (auto dest: crc_bit_inj)

lemma xor_cancel: "a XOR x = b XOR x \<Longrightarrow> a = (b :: 32 word)"
  by (metis xor.assoc xor.right_neutral xor_self_eq)

lemma foldl_crc_byte_inj: "foldl crc_byte a bs = foldl crc_byte b bs \<Longrightarrow> a = b"
proof (induction bs arbitrary: a b)
  case (Cons x bs)
  then have "crc_byte a x = crc_byte b x" by simp
  then have "a XOR ucast x = b XOR ucast x" unfolding crc_byte_def by (rule crc_bits_inj)
  then show ?case by (rule xor_cancel)
qed simp

text \<open>Up to four bytes as a word, the first one lowest.\<close>

fun pack :: "8 word list \<Rightarrow> 32 word" where
  "pack [] = 0"
| "pack (b # bs) = ucast b XOR push_bit 8 (pack bs)"

lemma bit_pack_high: "bit (pack bs) n \<Longrightarrow> n < 8 * length bs"
proof (induction bs arbitrary: n)
  case (Cons b bs)
  then have "bit b n \<or> 8 \<le> n \<and> bit (pack bs) (n - 8)" by (auto simp: bit_simps)
  then show ?case using Cons.IH [of "n - 8"] bit_imp_le_length [of b n] by auto
qed simp

lemma foldl_crc_byte_pack:
  "length bs \<le> 4 \<Longrightarrow> foldl crc_byte c bs = (crc_bit ^^ (8 * length bs)) (c XOR pack bs)"
proof (induction bs arbitrary: c)
  case (Cons b bs)
  have "(crc_bit ^^ 8) (push_bit 8 (pack bs)) = drop_bit 8 (push_bit 8 (pack bs))"
    by (rule crc_bits_shift, rule bit_word_eqI) (auto simp: bit_simps)
  also have "\<dots> = pack bs"
    using Cons.prems by (intro bit_word_eqI) (auto simp: bit_simps dest: bit_pack_high)
  finally have p: "pack bs = (crc_bit ^^ 8) (push_bit 8 (pack bs))" by simp
  have "foldl crc_byte c (b # bs) = (crc_bit ^^ (8 * length bs)) (crc_byte c b XOR pack bs)"
    using Cons by simp
  also have "crc_byte c b XOR pack bs = (crc_bit ^^ 8) (c XOR pack (b # bs))"
    by (subst p) (simp add: crc_byte_def crc_bits_xor xor.assoc)
  also have "(crc_bit ^^ (8 * length bs)) ((crc_bit ^^ 8) (c XOR pack (b # bs))) =
      (crc_bit ^^ (8 * length (b # bs))) (c XOR pack (b # bs))"
    by (simp only: length_Cons mult_Suc_right add.commute [of 8] funpow_add o_apply)
  finally show ?case .
qed simp

lemma pack_inj: "length as = length bs \<Longrightarrow> length as \<le> 4 \<Longrightarrow> pack as = pack bs \<Longrightarrow> as = bs"
proof (induction as bs rule: list_induct2)
  case (Cons a as b bs)
  have b: "bit (pack (a # as)) n = bit (pack (b # bs)) n" for n using Cons.prems by simp
  have "a = b"
  proof (rule bit_word_eqI)
    fix n assume "n < LENGTH(8)"
    then show "bit a n = bit b n" using b [of n] by (simp add: bit_simps)
  qed
  moreover have "bit (pack as) n = bit (pack bs) n" for n
  proof (cases "n + 8 < 32")
    case True
    then show ?thesis using b [of "n + 8"] by (auto simp: bit_simps dest: bit_imp_le_length)
  next
    case False
    then show ?thesis using Cons.prems Cons.hyps bit_pack_high [of as n] bit_pack_high [of bs n] by auto
  qed
  then have "pack as = pack bs" by (intro bit_word_eqI) simp
  ultimately show ?case using Cons by simp
qed simp

lemma crc32c_burst:
  assumes "length as = length bs" "length as \<le> 4" "as \<noteq> bs"
  shows "tst_crc32c (p @ as @ q) \<noteq> tst_crc32c (p @ bs @ q)"
proof
  assume "tst_crc32c (p @ as @ q) = tst_crc32c (p @ bs @ q)"
  then have "foldl crc_byte (foldl crc_byte 0xffffffff p) as = foldl crc_byte (foldl crc_byte 0xffffffff p) bs"
    by (auto simp: tst_crc32c_eq_spec crc32c_spec_def dest: foldl_crc_byte_inj)
  then have "foldl crc_byte 0xffffffff p XOR pack as = foldl crc_byte 0xffffffff p XOR pack bs"
    using assms(1,2) by (auto simp: foldl_crc_byte_pack dest!: crc_bits_inj)
  then have "pack as = pack bs" by (metis xor.commute xor_cancel)
  then show False using assms pack_inj by blast
qed

text \<open>C13. The table-driven checksum is the CRC32c defined bit by bit (initial value and result inverted), for every
  buffer, and two buffers of the same length that differ only within four consecutive bytes have different checksums.\<close>

theorem crc32c_correct:
  "tst_crc32c buf = crc32c_spec buf
   \<and> (length as = length bs \<and> length as \<le> 4 \<and> as \<noteq> bs \<longrightarrow> tst_crc32c (p @ as @ q) \<noteq> tst_crc32c (p @ bs @ q))"
  using crc32c_burst by (simp add: tst_crc32c_eq_spec)

theorem crc32c_correct_witness:
  "tst_crc32c [0x31, 0x32, 0x33, 0x34, 0x35, 0x36, 0x37, 0x38, 0x39] = 0xe3069283
   \<and> crc32c_spec [0x31, 0x32, 0x33, 0x34, 0x35, 0x36, 0x37, 0x38, 0x39] = 0xe3069283
   \<and> tst_crc32c ([1] @ [0, 0, 0, 0] @ [7]) \<noteq> tst_crc32c ([1] @ [0, 0, 0, 1] @ [7])"
proof -
  have "tst_crc32c [0x31, 0x32, 0x33, 0x34, 0x35, 0x36, 0x37, 0x38, 0x39] = 0xe3069283" by code_simp
  with crc32c_correct [of "[0x31, 0x32, 0x33, 0x34, 0x35, 0x36, 0x37, 0x38, 0x39]" "[0, 0, 0, 0]" "[0, 0, 0, 1]" "[1]" "[7]"]
  show ?thesis by simp
qed

end
