(* ===== verification/Data_Pattern.thy ===== *)
theory Data_Pattern
  imports C_Library
begin

text \<open>
  The data patterns of the file system exerciser in \<^verbatim>\<open>testcases/kernel/fs/doio\<close>: \<^verbatim>\<open>pattern.c\<close> (a repeated pattern, filled and
  checked by doubling), \<^verbatim>\<open>dataascii.c\<close>, \<^verbatim>\<open>databin.c\<close> (patterns that depend on the file offset) and the part of
  \<^verbatim>\<open>datapid.c\<close> that is compiled on Linux. A buffer is the list of its characters; an access outside of it, an
  overflow of \<^verbatim>\<open>int\<close> and a division by zero are faults.
\<close>

section \<open>Memory\<close>

datatype mem_fault = Out_of_bounds | Int_overflow | Div_by_zero | No_fuel

text \<open>\<open>n\<close> bytes at \<open>p\<close> read and written; a negative count becomes a huge one.\<close>

definition mem_read :: "char list \<Rightarrow> int \<Rightarrow> int \<Rightarrow> mem_fault + char list" where
  "mem_read m p n =
     (if 0 \<le> p \<and> 0 \<le> n \<and> p + n \<le> int (length m) then Inr (take (nat n) (drop (nat p) m)) else Inl Out_of_bounds)"

definition mem_write :: "char list \<Rightarrow> int \<Rightarrow> char list \<Rightarrow> mem_fault + char list" where
  "mem_write m p bs =
     (if 0 \<le> p \<and> p + int (length bs) \<le> int (length m)
      then Inr (take (nat p) m @ bs @ drop (nat p + length bs) m) else Inl Out_of_bounds)"

definition int_op :: "int \<Rightarrow> mem_fault + int" where
  "int_op x = (case i32 x of None \<Rightarrow> Inl Int_overflow | Some v \<Rightarrow> Inr v)"

text \<open>\<^verbatim>\<open>memcpy(dst + d, src + p, n)\<close> and \<^verbatim>\<open>memcmp(a + d, b + p, n) == 0\<close>.\<close>

definition memcpy :: "char list \<Rightarrow> int \<Rightarrow> char list \<Rightarrow> int \<Rightarrow> int \<Rightarrow> mem_fault + char list" where
  "memcpy dst d src p n = bindr (mem_read src p n) (mem_write dst d)"

definition memcmp0 :: "char list \<Rightarrow> int \<Rightarrow> char list \<Rightarrow> int \<Rightarrow> int \<Rightarrow> mem_fault + bool" where
  "memcmp0 a d b p n = bindr (mem_read a d n) (\<lambda>x. bindr (mem_read b p n) (\<lambda>y. Inr (x = y)))"

section \<open>pattern.c\<close>

definition shift_of :: "int \<Rightarrow> int \<Rightarrow> int" where
  "shift_of patlen patshift = (if patlen \<noteq> 0 then patshift smod patlen else patshift)"

text \<open>\<open>cp\<close> is the offset of the pointer in the buffer.\<close>

fun fill_loop :: "nat \<Rightarrow> char list \<Rightarrow> int \<Rightarrow> int \<Rightarrow> int \<Rightarrow> int \<Rightarrow> mem_fault + char list" where
  "fill_loop 0 buf buflen cp ncopied nleft = Inl No_fuel"
| "fill_loop (Suc fuel) buf buflen cp ncopied nleft =
     (if ncopied < buflen then
        let trans = (if ncopied < nleft then ncopied else nleft) in
        bindr (memcpy buf cp buf 0 trans) (\<lambda>buf.
          fill_loop fuel buf buflen (cp + trans) (ncopied + trans) (nleft - trans))
      else Inr buf)"

definition pattern_fill :: "nat \<Rightarrow> char list \<Rightarrow> int \<Rightarrow> char list \<Rightarrow> int \<Rightarrow> int \<Rightarrow> mem_fault + int \<times> char list" where
  "pattern_fill fuel buf buflen pat patlen patshift =
     (let patshift = shift_of patlen patshift;
          nleft = buflen;
          trans = patlen - patshift
      in
      if nleft < trans then bindr (memcpy buf 0 pat patshift nleft) (\<lambda>buf. Inr (0, buf))
      else
        bindr (memcpy buf 0 pat patshift trans) (\<lambda>buf.
        let nleft = nleft - trans; cp = trans in
        if patshift > 0 \<and> nleft < patshift then bindr (memcpy buf cp pat 0 nleft) (\<lambda>buf. Inr (0, buf))
        else
          bindr (if patshift > 0 then memcpy buf cp pat 0 patshift else Inr buf) (\<lambda>buf.
          let (nleft, cp) = (if patshift > 0 then (nleft - patshift, cp + patshift) else (nleft, cp)) in
          bindr (fill_loop fuel buf buflen cp cp nleft) (\<lambda>buf. Inr (0, buf)))))"

fun check_loop :: "nat \<Rightarrow> char list \<Rightarrow> int \<Rightarrow> int \<Rightarrow> int \<Rightarrow> int \<Rightarrow> mem_fault + int" where
  "check_loop 0 buf buflen cp ncmp nleft = Inl No_fuel"
| "check_loop (Suc fuel) buf buflen cp ncmp nleft =
     (if ncmp < buflen then
        let nb = (if ncmp < nleft then ncmp else nleft) in
        bindr (memcmp0 buf 0 buf cp nb) (\<lambda>same.
          if \<not> same then Inr (- 1) else check_loop fuel buf buflen (cp + nb) (ncmp + nb) (nleft - nb))
      else Inr 0)"

definition pattern_check :: "nat \<Rightarrow> char list \<Rightarrow> int \<Rightarrow> char list \<Rightarrow> int \<Rightarrow> int \<Rightarrow> mem_fault + int" where
  "pattern_check fuel buf buflen pat patlen patshift =
     (let patshift = shift_of patlen patshift;
          nleft = buflen;
          nb = patlen - patshift
      in
      if nleft < nb then bindr (memcmp0 buf 0 pat patshift nleft) (\<lambda>same. Inr (if same then 0 else - 1))
      else
        bindr (memcmp0 buf 0 pat patshift nb) (\<lambda>same.
        if \<not> same then Inr (- 1)
        else
          let nleft = nleft - nb; cp = nb in
          if patshift > 0 \<and> nleft < patshift
          then bindr (memcmp0 buf cp pat 0 nleft) (\<lambda>same. Inr (if same then 0 else - 1))
          else
            bindr (if patshift > 0 then memcmp0 buf cp pat 0 patshift else Inr True) (\<lambda>same.
            if \<not> same then Inr (- 1)
            else
              let (nleft, cp) = (if patshift > 0 then (nleft - patshift, cp + patshift) else (nleft, cp)) in
              check_loop fuel buf buflen cp cp nleft)))"

section \<open>dataascii.c\<close>

text \<open>\<^verbatim>\<open>sizeof(CHARS)\<close> counts the terminating NUL, which is part of the default pattern.\<close>

definition CHARS :: "char list" where
  "CHARS = ''ABCDEFGHIJKLMNOPQRSTUVWXYZabcdefghjiklmnopqrstuvwxyz'' @ [NEWLINE]"

definition charlist_of :: "cstr option \<Rightarrow> char list \<times> int" where
  "charlist_of listofchars =
     (case listofchars of None \<Rightarrow> (CHARS @ [NUL], 54) | Some l \<Rightarrow> (l @ [NUL], int (length l)))"

definition ascii_at :: "cstr option \<Rightarrow> int \<Rightarrow> mem_fault + char" where
  "ascii_at listofchars cnt =
     (let (charlist, chars_size) = charlist_of listofchars in
      if chars_size = 0 then Inl Div_by_zero
      else bindr (mem_read charlist (cnt smod chars_size) 1) (\<lambda>b. Inr (hd b)))"

text \<open>The loops count the remaining bytes; \<open>chr\<close> is the offset of the pointer in the buffer.\<close>

fun asciigen_loop :: "nat \<Rightarrow> cstr option \<Rightarrow> char list \<Rightarrow> int \<Rightarrow> int \<Rightarrow> mem_fault + char list" where
  "asciigen_loop 0 listofchars buffer chr cnt = Inr buffer"
| "asciigen_loop (Suc n) listofchars buffer chr cnt =
     bindr (ascii_at listofchars cnt) (\<lambda>c.
     bindr (mem_write buffer chr [c]) (\<lambda>buffer.
       asciigen_loop n listofchars buffer (chr + 1) (cnt + 1)))"

definition dataasciigen :: "cstr option \<Rightarrow> char list \<Rightarrow> int \<Rightarrow> int \<Rightarrow> mem_fault + int \<times> char list" where
  "dataasciigen listofchars buffer bsize offset =
     bindr (int_op (offset + bsize)) (\<lambda>total.
     bindr (asciigen_loop (nat (total - offset)) listofchars buffer 0 offset) (\<lambda>buffer. Inr (bsize, buffer)))"

text \<open>\<^verbatim>\<open>%#o\<close> of an \<^verbatim>\<open>int\<close> or \<^verbatim>\<open>long\<close> of the given width: octal digits of the unsigned value, with a leading 0. A \<^verbatim>\<open>char\<close> is signed.\<close>

fun oct_digits :: "nat \<Rightarrow> cstr" where
  "oct_digits n = (if n < 8 then [digit n] else oct_digits (n div 8) @ [digit (n mod 8)])"

declare oct_digits.simps [simp del]

definition oct_alt :: "nat \<Rightarrow> int \<Rightarrow> cstr" where
  "oct_alt w v = (if v = 0 then ''0'' else ''0'' @ oct_digits (nat (v mod 2 ^ w)))"

definition schar :: "char \<Rightarrow> int" where
  "schar c = (let n = int (of_char c :: nat) in if n < 128 then n else n - 256)"

definition mismatch_msg :: "int \<Rightarrow> cstr \<Rightarrow> cstr \<Rightarrow> cstr" where
  "mismatch_msg pos e a = ''data mismatch at offset '' @ sdec pos @ '', exp:'' @ e @ '', act:'' @ a"

definition match_msg :: "int \<Rightarrow> cstr" where
  "match_msg bsize = ''all '' @ sdec bsize @ '' bytes match desired pattern''"

fun asciichk_loop :: "nat \<Rightarrow> cstr option \<Rightarrow> char list \<Rightarrow> int \<Rightarrow> int \<Rightarrow> mem_fault + (int \<times> cstr) option" where
  "asciichk_loop 0 listofchars buffer chr cnt = Inr None"
| "asciichk_loop (Suc n) listofchars buffer chr cnt =
     bindr (ascii_at listofchars cnt) (\<lambda>e.
     bindr (mem_read buffer chr 1) (\<lambda>b.
       if hd b \<noteq> e then Inr (Some (cnt, mismatch_msg cnt (oct_alt 32 (schar e)) (oct_alt 32 (schar (hd b)))))
       else asciichk_loop n listofchars buffer (chr + 1) (cnt + 1)))"

text \<open>The returned number and the message.\<close>

definition dataasciichk :: "cstr option \<Rightarrow> char list \<Rightarrow> int \<Rightarrow> int \<Rightarrow> mem_fault + int \<times> cstr" where
  "dataasciichk listofchars buffer bsize offset =
     bindr (int_op (offset + bsize)) (\<lambda>total.
     bindr (asciichk_loop (nat (total - offset)) listofchars buffer 0 offset) (\<lambda>r.
       Inr (case r of None \<Rightarrow> (- 1, match_msg bsize) | Some (cnt, m) \<Rightarrow> (cnt, m))))"

section \<open>databin.c\<close>

definition memset :: "char list \<Rightarrow> nat \<Rightarrow> int \<Rightarrow> mem_fault + char list" where
  "memset buf v n = (if n < 0 then Inl Out_of_bounds else mem_write buf 0 (replicate (nat n) (char_of v)))"

text \<open>\<^verbatim>\<open>x % 8 & 0177\<close>: the remainder has the sign of \<open>x\<close>; masking adds 128 to a negative one.\<close>

definition count_byte :: "int \<Rightarrow> int" where
  "count_byte x = (x smod 8) mod 128"

fun count_loop :: "nat \<Rightarrow> char list \<Rightarrow> int \<Rightarrow> int \<Rightarrow> mem_fault + char list" where
  "count_loop 0 buffer offset ind = Inr buffer"
| "count_loop (Suc n) buffer offset ind =
     bindr (int_op (offset + ind)) (\<lambda>x.
     bindr (mem_write buffer ind [char_of (nat (count_byte x))]) (\<lambda>buffer. count_loop n buffer offset (ind + 1)))"

text \<open>\<^verbatim>\<open>(rand() & 0177) | 0100\<close> for the successive random numbers.\<close>

fun rand_loop :: "nat \<Rightarrow> char list \<Rightarrow> (nat \<Rightarrow> int) \<Rightarrow> int \<Rightarrow> mem_fault + char list" where
  "rand_loop 0 buffer rnd ind = Inr buffer"
| "rand_loop (Suc n) buffer rnd ind =
     bindr (mem_write buffer ind [char_of (64 + nat (rnd (nat ind) mod 64))]) (\<lambda>buffer.
       rand_loop n buffer rnd (ind + 1))"

definition databingen :: "(nat \<Rightarrow> int) \<Rightarrow> char \<Rightarrow> char list \<Rightarrow> int \<Rightarrow> int \<Rightarrow> mem_fault + char list" where
  "databingen rnd mode buffer bsize offset =
     (if mode = CHR ''c'' then memset buffer 0xf0 bsize
      else if mode = CHR ''C'' then count_loop (nat bsize) buffer offset 0
      else if mode = CHR ''o'' then memset buffer 0xff bsize
      else if mode = CHR ''z'' then memset buffer 0 bsize
      else if mode = CHR ''r'' then rand_loop (nat bsize) buffer rnd 0
      else memset buffer 0x55 bsize)"

text \<open>The two loops of the check. In the counting one the byte is a signed character.\<close>

fun countchk_loop :: "nat \<Rightarrow> char list \<Rightarrow> int \<Rightarrow> int \<Rightarrow> mem_fault + (int \<times> cstr) option" where
  "countchk_loop 0 buffer offset cnt = Inr None"
| "countchk_loop (Suc n) buffer offset cnt =
     bindr (int_op (offset + cnt)) (\<lambda>x.
     bindr (mem_read buffer cnt 1) (\<lambda>b.
       if schar (hd b) \<noteq> count_byte x
       then Inr (Some (x, mismatch_msg x (oct_alt 64 (count_byte x)) (oct_alt 32 (schar (hd b)))))
       else countchk_loop n buffer offset (cnt + 1)))"

fun bitschk_loop :: "nat \<Rightarrow> char list \<Rightarrow> int \<Rightarrow> int \<Rightarrow> int \<Rightarrow> mem_fault + (int \<times> cstr) option" where
  "bitschk_loop 0 buffer expbits offset cnt = Inr None"
| "bitschk_loop (Suc n) buffer expbits offset cnt =
     bindr (mem_read buffer cnt 1) (\<lambda>b.
       let actbits = int (of_char (hd b) :: nat) in
       if actbits \<noteq> expbits then
         bindr (int_op (offset + cnt)) (\<lambda>x.
           Inr (Some (x, mismatch_msg x (oct_alt 64 expbits) (oct_alt 64 actbits))))
       else bitschk_loop n buffer expbits offset (cnt + 1))"

text \<open>For random data the message is the one of the last call.\<close>

definition databinchk :: "cstr \<Rightarrow> char \<Rightarrow> char list \<Rightarrow> int \<Rightarrow> int \<Rightarrow> mem_fault + int \<times> cstr" where
  "databinchk errmsg mode buffer bsize offset =
     (if mode = CHR ''r'' then Inr (- 1, errmsg)
      else
        bindr (if mode = CHR ''C'' then countchk_loop (nat bsize) buffer offset 0
               else bitschk_loop (nat bsize) buffer
                 (if mode = CHR ''c'' then 0xf0 else if mode = CHR ''o'' then 0xff else if mode = CHR ''z'' then 0 else 0x55)
                 offset 0) (\<lambda>r.
        Inr (case r of None \<Rightarrow> (- 1, match_msg bsize) | Some x \<Rightarrow> x)))"

section \<open>datapid.c\<close>

definition datapidgen :: "int \<Rightarrow> char list \<Rightarrow> int \<Rightarrow> int \<Rightarrow> int \<times> char list" where
  "datapidgen pid buffer bsize offset = (- 1, buffer)"

definition datapidchk :: "int \<Rightarrow> char list \<Rightarrow> int \<Rightarrow> int \<Rightarrow> int \<times> cstr" where
  "datapidchk pid buffer bsize offset = (0, ''Not supported on this OS.'')"

section \<open>Memory operations in range\<close>

lemma mem_read_nat [simp]: "p + n \<le> length m \<Longrightarrow> mem_read m (int p) (int n) = Inr (take n (drop p m))"
  by (simp add: mem_read_def flip: of_nat_add)

lemma mem_write_nat [simp]:
  "p + length bs \<le> length m \<Longrightarrow> mem_write m (int p) bs = Inr (take p m @ bs @ drop (p + length bs) m)"
  by (simp add: mem_write_def flip: of_nat_add)

lemma memcpy_nat:
  assumes "p + n \<le> length src" "d + n \<le> length dst"
  shows "memcpy dst (int d) src (int p) (int n) = Inr (take d dst @ take n (drop p src) @ drop (d + n) dst)"
  using assms by (simp add: memcpy_def)

lemma memcmp0_nat:
  assumes "p + n \<le> length b" "d + n \<le> length a"
  shows "memcmp0 a (int d) b (int p) (int n) = Inr (take n (drop d a) = take n (drop p b))"
  using assms by (simp add: memcmp0_def)

section \<open>The repeated pattern\<close>

definition pattern_of :: "char list \<Rightarrow> nat \<Rightarrow> nat \<Rightarrow> char list" where
  "pattern_of pat sh n = map (\<lambda>i. pat ! ((i + sh) mod length pat)) [0..<n]"

lemma length_pattern_of [simp]: "length (pattern_of pat sh n) = n"
  by (simp add: pattern_of_def)

lemma pattern_of_add: "pattern_of pat sh (m + k) = pattern_of pat sh m @ pattern_of pat (sh + m) k"
  by (rule nth_equalityI) (auto simp: pattern_of_def nth_append algebra_simps)

lemma pattern_of_period: "length pat dvd m \<Longrightarrow> pattern_of pat (sh + m) k = pattern_of pat sh k"
  by (auto simp: pattern_of_def elim!: dvdE intro!: arg_cong [where f = "nth pat"]) (metis add.assoc mod_mult_self2)

lemma pattern_of_mod: "pattern_of pat (sh mod length pat) k = pattern_of pat sh k"
  by (simp add: pattern_of_def mod_add_right_eq)

lemma pattern_of_take: "sh + k \<le> length pat \<Longrightarrow> pattern_of pat sh k = take k (drop sh pat)"
  by (rule nth_equalityI) (auto simp: pattern_of_def add.commute)

lemma take_pattern_of: "k \<le> n \<Longrightarrow> take k (pattern_of pat sh n) = pattern_of pat sh k"
  by (simp add: pattern_of_def take_map)

lemma pattern_of_rest:
  assumes "sh < length pat" "k \<le> sh"
  shows "pattern_of pat sh (length pat - sh + k) = drop sh pat @ take k pat"
  unfolding pattern_of_add using assms pattern_of_period [of pat "length pat" 0 k]
  by (simp add: pattern_of_take)

lemma pattern_of_repeat:
  "length pat dvd m \<Longrightarrow> pattern_of pat sh (m + k) = pattern_of pat sh m @ pattern_of pat sh k"
  by (simp add: pattern_of_add pattern_of_period)

section \<open>Filling\<close>

lemma fill_loop_ok:
  assumes "length pat dvd m" "0 < m" "m \<le> n" "n \<le> length buf" "n - m < fuel" "take m buf = pattern_of pat sh m"
  shows "fill_loop fuel buf (int n) (int m) (int m) (int (n - m)) = Inr (pattern_of pat sh n @ drop n buf)"
  using assms
proof (induction fuel arbitrary: buf m)
  case (Suc fuel)
  show ?case
  proof (cases "m = n")
    case True
    then show ?thesis using Suc.prems by (metis append_take_drop_id fill_loop.simps(2) less_irrefl)
  next
    case False
    define k where "k = min m (n - m)"
    have k: "0 < k" "m + k \<le> n" "k \<le> m" using False Suc.prems by (auto simp: k_def)
    define buf' where "buf' = take m buf @ take k buf @ drop (m + k) buf"
    have cp: "memcpy buf (int m) buf 0 (int k) = Inr buf'"
      using memcpy_nat [of 0 k buf m buf] k Suc.prems by (simp add: buf'_def)
    have tr: "(if int m < int (n - m) then int m else int (n - m)) = int k" by (auto simp: k_def)
    have "take k buf = pattern_of pat sh k"
      using Suc.prems(6) k(3) take_pattern_of [of k m pat sh] by (metis min.absorb1 take_take)
    then have t: "take (m + k) buf' = pattern_of pat sh (m + k)"
      using Suc.prems k by (simp add: buf'_def pattern_of_repeat)
    have "fill_loop fuel buf' (int n) (int m + int k) (int m + int k) (int (n - m) - int k)
        = Inr (pattern_of pat sh n @ drop n buf')"
    proof (cases "m + k = n")
      case True
      then have "buf' = pattern_of pat sh n @ drop n buf'" using t by (metis append_take_drop_id)
      moreover obtain f where "fuel = Suc f" using Suc.prems(5) False k Suc.prems(3) by (cases fuel) auto
      ultimately show ?thesis using True by (simp flip: of_nat_add)
    next
      case False
      then have "length pat dvd m + k" using Suc.prems(1) k by (simp add: k_def split: if_splits)
      then have "fill_loop fuel buf' (int n) (int (m + k)) (int (m + k)) (int (n - (m + k)))
          = Inr (pattern_of pat sh n @ drop n buf')"
        using Suc.prems k by (intro Suc.IH t) (auto simp: buf'_def)
      then show ?thesis using k by (simp add: of_nat_diff diff_diff_eq)
    qed
    moreover have "drop n buf' = drop n buf" using k Suc.prems by (simp add: buf'_def)
    moreover have "int m < int n" using False Suc.prems(3) by simp
    ultimately show ?thesis by (simp only: fill_loop.simps Let_def tr cp bindr_simps if_True)
  qed
qed simp

lemma shift_of_nat: "0 < length pat \<Longrightarrow> shift_of (int (length pat)) (int sh) = int (sh mod length pat)"
  by (simp add: shift_of_def smod_nonneg zmod_int)

text \<open>The pattern is split at the shift; the three cases are a buffer within the second part, one within the rotated
  pattern, and a longer one.\<close>

lemma pattern_split:
  assumes "0 < length pat"
  obtains a h where "length pat = a + h" "0 < a" "h = sh mod length pat"
  using assms by (metis le_add_diff_inverse2 mod_less_divisor nat_less_le zero_less_diff)

lemma pattern_fill_ok:
  assumes "0 < length pat" "n \<le> length buf" "n < fuel"
  shows "pattern_fill fuel buf (int n) pat (int (length pat)) (int sh) = Inr (0, pattern_of pat sh n @ drop n buf)"
proof -
  obtain a h where L: "length pat = a + h" "0 < a" and h: "h = sh mod length pat"
    by (rule pattern_split [OF assms(1)])
  have "shift_of (int (length pat)) (int sh) = int h" using shift_of_nat [OF assms(1), of sh] h by simp
  then have sh: "shift_of (int a + int h) (int sh) = int h" by (simp add: L)
  have spec: "pattern_of pat sh k = pattern_of pat h k" for k by (simp add: h pattern_of_mod)
  have rot: "k \<le> h \<Longrightarrow> pattern_of pat h (a + k) = drop h pat @ take k pat" for k
    using pattern_of_rest [of h pat k] L by simp
  consider (1) "n < a" | (2) r where "n = a + r" "r < h" | (3) r where "n = a + h + r"
    by (metis add.assoc le_iff_add less_or_eq_imp_le nat_add_left_cancel_less not_less)
  then show ?thesis
  proof cases
    case 1
    then show ?thesis
      using memcpy_nat [of h n pat 0 buf] assms(2) L
      by (simp add: pattern_fill_def Let_def sh spec pattern_of_take)
  next
    case 2
    have "memcpy buf 0 pat (int h) (int a) = Inr (drop h pat @ drop a buf)"
      using memcpy_nat [of h a pat 0 buf] assms(2) L 2 by simp
    moreover have "memcpy (drop h pat @ drop a buf) (int a) pat 0 (int r) = Inr (drop h pat @ take r pat @ drop n buf)"
      using memcpy_nat [of 0 r pat a "drop h pat @ drop a buf"] assms(2) L 2 by (simp add: add.commute)
    ultimately show ?thesis using 2 L by (simp add: pattern_fill_def Let_def sh spec rot)
  next
    case 3
    define b2 where "b2 = drop h pat @ take h pat @ drop (a + h) buf"
    have c1: "memcpy buf 0 pat (int h) (int a) = Inr (drop h pat @ drop a buf)"
      using memcpy_nat [of h a pat 0 buf] assms(2) L 3 by simp
    have c2: "memcpy (drop h pat @ drop a buf) (int a) pat 0 (int h) = Inr b2"
      using memcpy_nat [of 0 h pat a "drop h pat @ drop a buf"] assms(2) L 3 by (simp add: b2_def add.commute)
    have "fill_loop fuel b2 (int n) (int (a + h)) (int (a + h)) (int (n - (a + h))) = Inr (pattern_of pat sh n @ drop n b2)"
      using assms(2,3) L 3 rot [of h] by (intro fill_loop_ok) (auto simp: b2_def spec)
    moreover have "drop n b2 = drop n buf" using 3 L by (simp add: b2_def ac_simps)
    ultimately have lp: "fill_loop fuel b2 (int n) (int a + int h) (int a + int h) (int r) = Inr (pattern_of pat sh n @ drop n buf)"
      using 3 by simp
    show ?thesis
    proof (cases "h = 0")
      case True
      then show ?thesis using lp c1 sh L 3 by (simp add: pattern_fill_def Let_def b2_def)
    next
      case False
      then show ?thesis using lp c1 c2 sh L 3 by (simp add: pattern_fill_def Let_def)
    qed
  qed
qed

section \<open>Checking\<close>

lemma check_loop_ok:
  assumes "length pat dvd m" "0 < m" "m \<le> n" "n \<le> length buf" "n - m < fuel" "take m buf = pattern_of pat sh m"
  shows "check_loop fuel buf (int n) (int m) (int m) (int (n - m)) =
     Inr (if take n buf = pattern_of pat sh n then 0 else - 1)"
  using assms
proof (induction fuel arbitrary: m)
  case (Suc fuel)
  show ?case
  proof (cases "m = n")
    case True
    then show ?thesis using Suc.prems by simp
  next
    case False
    define k where "k = min m (n - m)"
    have k: "0 < k" "m + k \<le> n" "k \<le> m" using False Suc.prems by (auto simp: k_def)
    have cmp: "memcmp0 buf 0 buf (int m) (int k) = Inr (take k buf = take k (drop m buf))"
      using memcmp0_nat [of m k buf 0 buf] k Suc.prems by simp
    have tr: "(if int m < int (n - m) then int m else int (n - m)) = int k" by (auto simp: k_def)
    have lt: "int m < int n" using False Suc.prems(3) by simp
    have "take k buf = pattern_of pat sh k"
      using Suc.prems(6) k(3) take_pattern_of [of k m pat sh] by (metis min.absorb1 take_take)
    then have same: "(take k buf = take k (drop m buf)) = (take (m + k) buf = pattern_of pat sh (m + k))"
      using Suc.prems(1,6) by (auto simp: take_add pattern_of_repeat)
    show ?thesis
    proof (cases "take (m + k) buf = pattern_of pat sh (m + k)")
      case True
      have "check_loop fuel buf (int n) (int m + int k) (int m + int k) (int (n - m) - int k) =
          Inr (if take n buf = pattern_of pat sh n then 0 else - 1)"
      proof (cases "m + k = n")
        case e: True
        moreover obtain f where "fuel = Suc f" using Suc.prems(5) k by (cases fuel) auto
        ultimately show ?thesis using True by (simp flip: of_nat_add)
      next
        case e: False
        then have "length pat dvd m + k" using Suc.prems(1) k by (simp add: k_def split: if_splits)
        then have "check_loop fuel buf (int n) (int (m + k)) (int (m + k)) (int (n - (m + k))) =
            Inr (if take n buf = pattern_of pat sh n then 0 else - 1)"
          using Suc.prems k True by (intro Suc.IH) auto
        then show ?thesis using k by (simp add: of_nat_diff diff_diff_eq)
      qed
      then show ?thesis using True lt by (simp only: check_loop.simps Let_def tr cmp same bindr_simps if_True) simp
    next
      case False
      then have "take n buf \<noteq> pattern_of pat sh n"
        using k(2) take_pattern_of [of "m + k" n pat sh] by (metis min.absorb1 take_take)
      then show ?thesis using False lt by (simp only: check_loop.simps Let_def tr cmp same bindr_simps if_True) simp
    qed
  qed
qed simp

lemma take_eq_pattern:
  assumes "m \<le> n" "take n buf = pattern_of pat sh n"
  shows "take m buf = pattern_of pat sh m"
  using assms take_pattern_of [of m n pat sh] by (metis min.absorb1 take_take)

lemma pattern_check_ok:
  assumes "0 < length pat" "n \<le> length buf" "n < fuel"
  shows "pattern_check fuel buf (int n) pat (int (length pat)) (int sh) =
     Inr (if take n buf = pattern_of pat sh n then 0 else - 1)"
proof -
  obtain a h where L: "length pat = a + h" "0 < a" and h: "h = sh mod length pat"
    by (rule pattern_split [OF assms(1)])
  have "shift_of (int (length pat)) (int sh) = int h" using shift_of_nat [OF assms(1), of sh] h by simp
  then have sh: "shift_of (int a + int h) (int sh) = int h" by (simp add: L)
  have spec: "pattern_of pat sh k = pattern_of pat h k" for k by (simp add: h pattern_of_mod)
  have rot: "k \<le> h \<Longrightarrow> pattern_of pat h (a + k) = drop h pat @ take k pat" for k
    using pattern_of_rest [of h pat k] L by simp
  consider (1) "n < a" | (2) r where "n = a + r" "r < h" | (3) r where "n = a + h + r"
    by (metis add.assoc le_iff_add less_or_eq_imp_le nat_add_left_cancel_less not_less)
  then show ?thesis
  proof cases
    case 1
    then show ?thesis
      using memcmp0_nat [of h n pat 0 buf] assms(2) L
      by (simp add: pattern_check_def Let_def sh spec pattern_of_take)
  next
    case 2
    have "memcmp0 buf 0 pat (int h) (int a) = Inr (take a buf = drop h pat)"
      "memcmp0 buf (int a) pat 0 (int r) = Inr (take r (drop a buf) = take r pat)"
      using memcmp0_nat [of h a pat 0 buf] memcmp0_nat [of 0 r pat a buf] assms(2) L 2 by simp_all
    then show ?thesis using 2 L assms(2) by (simp add: pattern_check_def Let_def sh spec rot take_add)
  next
    case 3
    have c1: "memcmp0 buf 0 pat (int h) (int a) = Inr (take a buf = drop h pat)"
      and c2: "memcmp0 buf (int a) pat 0 (int h) = Inr (take h (drop a buf) = take h pat)"
      using memcmp0_nat [of h a pat 0 buf] memcmp0_nat [of 0 h pat a buf] assms(2) L 3 by simp_all
    have same: "(take a buf = drop h pat \<and> take h (drop a buf) = take h pat) = (take (a + h) buf = pattern_of pat sh (a + h))"
      using assms(2) L 3 by (auto simp: spec rot take_add)
    have lp: "check_loop fuel buf (int n) (int a + int h) (int a + int h) (int r) =
        Inr (if take n buf = pattern_of pat sh n then 0 else - 1)"
      if "take (a + h) buf = pattern_of pat sh (a + h)"
      using check_loop_ok [of pat "a + h" n buf fuel sh] that assms(2,3) L 3 by simp
    have no: "take n buf \<noteq> pattern_of pat sh n" if "take (a + h) buf \<noteq> pattern_of pat sh (a + h)"
      using that take_eq_pattern [of "a + h" n buf pat sh] 3 by auto
    show ?thesis
    proof (cases "h = 0")
      case True
      then show ?thesis using lp no c1 sh L 3 same by (simp add: pattern_check_def Let_def)
    next
      case False
      then show ?thesis using lp no c1 c2 sh L 3 same by (auto simp: pattern_check_def Let_def)
    qed
  qed
qed

lemma fill_loop_stuck: "0 < n \<Longrightarrow> fill_loop fuel buf n 0 0 n = Inl No_fuel"
  by (induction fuel) (simp_all add: memcpy_def mem_read_def mem_write_def)

text \<open>An empty pattern: the loop makes no progress.\<close>

lemma pattern_fill_empty: "0 < n \<Longrightarrow> pattern_fill fuel buf n [] 0 0 = Inl No_fuel"
  by (simp add: pattern_fill_def shift_of_def memcpy_def mem_read_def mem_write_def fill_loop_stuck)

text \<open>C14. For a non-empty pattern, a shift that is not negative and a buffer that is large enough, filling ends, puts the
  shifted pattern over and over into the first \<open>n\<close> bytes and leaves the others; checking ends and returns 0 exactly if
  the first \<open>n\<close> bytes are the repeated pattern, and -1 otherwise. The loops need no more than \<open>n\<close> rounds.\<close>

theorem pattern_correct:
  assumes "0 < length pat" "n \<le> length buf" "n < fuel"
  shows "pattern_fill fuel buf (int n) pat (int (length pat)) (int sh) = Inr (0, pattern_of pat sh n @ drop n buf)
       \<and> pattern_check fuel buf (int n) pat (int (length pat)) (int sh) =
           Inr (if take n buf = pattern_of pat sh n then 0 else - 1)
       \<and> pattern_check fuel (pattern_of pat sh n @ drop n buf) (int n) pat (int (length pat)) (int sh) = Inr 0"
  using pattern_fill_ok [OF assms, of sh] pattern_check_ok [OF assms, of sh]
    pattern_check_ok [OF assms(1), of n "pattern_of pat sh n @ drop n buf" fuel sh] assms(2,3) by simp

theorem pattern_correct_witness:
  "pattern_fill 20 (replicate 12 NUL) 11 ''abc'' 3 4 = Inr (0, ''bcabcabcabc'' @ [NUL])
   \<and> pattern_check 20 (''bcabcabcabc'' @ [NUL]) 11 ''abc'' 3 4 = Inr 0
   \<and> pattern_check 20 (replicate 12 NUL) 11 ''abc'' 3 4 = Inr (- 1)"
proof -
  have "pattern_of ''abc'' 4 11 = ''bcabcabcabc''" "take 11 (replicate 12 NUL) \<noteq> ''bcabcabcabc''"
    "drop 11 (replicate 12 NUL) = [NUL]" by code_simp+
  then show ?thesis using pattern_correct [of "''abc''" 11 "replicate 12 NUL" 20 4] by simp
qed

section \<open>Patterns that depend on the offset\<close>

text \<open>What the generators write: byte \<open>i\<close> of the buffer is the byte of the pattern at \<open>offset + i\<close>.\<close>

definition ascii_byte :: "cstr option \<Rightarrow> nat \<Rightarrow> char" where
  "ascii_byte listofchars x =
     (case listofchars of
        None \<Rightarrow> (CHARS @ [NUL]) ! (x mod 54)
      | Some l \<Rightarrow> l ! (x mod length l))"

definition bin_byte :: "char \<Rightarrow> nat \<Rightarrow> char" where
  "bin_byte mode x =
     char_of (if mode = CHR ''c'' then 0xf0 else if mode = CHR ''C'' then x mod 8 else if mode = CHR ''o'' then 0xff
              else if mode = CHR ''z'' then 0 else 0x55 :: nat)"

definition data_at :: "(nat \<Rightarrow> char) \<Rightarrow> nat \<Rightarrow> nat \<Rightarrow> char list" where
  "data_at byte offset n = map (\<lambda>i. byte (offset + i)) [0..<n]"

text \<open>The offset of the first wrong byte, and this byte.\<close>

fun first_bad :: "(nat \<Rightarrow> char) \<Rightarrow> nat \<Rightarrow> char list \<Rightarrow> (nat \<times> char) option" where
  "first_bad byte x [] = None"
| "first_bad byte x (c # cs) = (if c \<noteq> byte x then Some (x, c) else first_bad byte (x + 1) cs)"

lemma length_data_at [simp]: "length (data_at byte x n) = n"
  by (simp add: data_at_def)

lemma data_at_Suc: "data_at byte x (Suc n) = byte x # data_at byte (x + 1) n"
  by (simp add: data_at_def map_upt_Suc del: upt_Suc)

lemma first_bad_None: "first_bad byte x cs = None \<longleftrightarrow> data_at byte x (length cs) = cs"
  by (induction cs arbitrary: x) (auto simp: data_at_Suc, simp add: data_at_def)

lemma first_bad_Some:
  "first_bad byte x cs = Some (k, c) \<Longrightarrow>
     x \<le> k \<and> k - x < length cs \<and> cs ! (k - x) = c \<and> c \<noteq> byte k \<and> take (k - x) cs = data_at byte x (k - x)"
proof (induction cs arbitrary: x)
  case (Cons d cs)
  show ?case
  proof (cases "d = byte x")
    case True
    then have "first_bad byte (x + 1) cs = Some (k, c)" using Cons.prems by simp
    then have "x + 1 \<le> k \<and> k - (x + 1) < length cs \<and> cs ! (k - (x + 1)) = c \<and> c \<noteq> byte k
        \<and> take (k - (x + 1)) cs = data_at byte (x + 1) (k - (x + 1))" by (rule Cons.IH)
    moreover from this have "k - x = Suc (k - (x + 1))" by auto
    ultimately show ?thesis using True by (simp add: data_at_Suc)
  next
    case False
    then show ?thesis using Cons.prems by (auto simp: data_at_def)
  qed
qed simp

lemma i32_nat: "int x \<le> INT_MAX \<Longrightarrow> int_op (int x) = Inr (int x)"
  by (simp add: int_op_def i32_def INT_MIN_def)

lemma drop_nth_Cons: "p < length m \<Longrightarrow> drop p m = m ! p # drop (Suc p) m"
  by (simp add: Cons_nth_drop_Suc)

lemma read1: "p < length m \<Longrightarrow> mem_read m (int p) 1 = Inr [m ! p]"
  using mem_read_nat [of p 1 m] by (simp add: drop_nth_Cons take_Suc)

lemma write1:
  assumes "p < length m"
  shows "mem_write m (int p) [c] = Inr (m[p := c])"
  using assms mem_write_nat [of p "[c]" m] by (simp add: upd_conv_take_nth_drop)

text \<open>Writing byte after byte gives the bytes in front of the rest.\<close>

lemma upd_then_data:
  assumes "p < length m"
  shows "take (Suc p) (m[p := c]) @ bs @ drop (Suc p + n) (m[p := c]) = take p m @ (c # bs) @ drop (p + Suc n) m"
  using assms by (simp add: take_Suc_conv_app_nth)

lemma ascii_at_nat: "l \<noteq> Some [] \<Longrightarrow> ascii_at l (int x) = Inr (ascii_byte l x)"
proof (cases l)
  case None
  have "length (CHARS @ [NUL]) = 54" by (simp add: CHARS_def)
  moreover have "int x smod 54 = int (x mod 54)" by (simp add: smod_nonneg zmod_int)
  ultimately show ?thesis using None read1 [of "x mod 54" "CHARS @ [NUL]"]
    by (simp add: ascii_at_def charlist_of_def ascii_byte_def)
next
  case (Some cs)
  assume "l \<noteq> Some []"
  then have "0 < length cs" using Some by simp
  moreover from this have "int x smod int (length cs) = int (x mod length cs)" by (simp add: smod_nonneg zmod_int)
  ultimately show ?thesis using Some read1 [of "x mod length cs" "cs @ [NUL]"]
    by (simp add: ascii_at_def charlist_of_def ascii_byte_def nth_append less_SucI)
qed

lemma asciigen_loop_ok:
  assumes "l \<noteq> Some []" "p + n \<le> length m"
  shows "asciigen_loop n l m (int p) (int x) = Inr (take p m @ data_at (ascii_byte l) x n @ drop (p + n) m)"
  using assms(2)
proof (induction n arbitrary: m p x)
  case (Suc n)
  have "asciigen_loop (Suc n) l m (int p) (int x) = asciigen_loop n l (m[p := ascii_byte l x]) (int (Suc p)) (int (Suc x))"
    using Suc.prems assms(1) by (simp add: ascii_at_nat write1 algebra_simps del: mem_write_nat)
  also have "\<dots> = Inr (take p m @ (ascii_byte l x # data_at (ascii_byte l) (Suc x) n) @ drop (p + Suc n) m)"
    using Suc.prems by (subst Suc.IH) (simp_all only: upd_then_data, simp_all)
  finally show ?case by (simp add: data_at_Suc)
qed (simp add: data_at_def)

lemma take_drop_Suc: "p < length m \<Longrightarrow> take (Suc n) (drop p m) = m ! p # take n (drop (Suc p) m)"
  by (simp add: drop_nth_Cons)

lemma asciichk_loop_ok:
  assumes "l \<noteq> Some []" "p + n \<le> length m"
  shows "asciichk_loop n l m (int p) (int x) =
     Inr (map_option (\<lambda>(k, c). (int k, mismatch_msg (int k) (oct_alt 32 (schar (ascii_byte l k))) (oct_alt 32 (schar c))))
       (first_bad (ascii_byte l) x (take n (drop p m))))"
  using assms(2)
proof (induction n arbitrary: p x)
  case (Suc n)
  have "asciichk_loop n l m (int (Suc p)) (int (Suc x)) = asciichk_loop n l m (int p + 1) (int x + 1)"
    by (simp add: algebra_simps)
  then show ?case
    using Suc.IH [of "Suc p" "Suc x"] Suc.prems assms(1) by (auto simp: ascii_at_nat read1 take_drop_Suc)
qed simp

lemma of_char_less: "(of_char c :: nat) < 256"
  using of_char_mod_256 [where ?'a = nat, of c] mod_less_divisor [of 256 "of_char c :: nat"] by simp

lemma schar_eq:
  assumes "n < 128"
  shows "(schar c = int n) = (c = char_of n)"
proof
  assume a: "schar c = int n"
  define k :: nat where "k = of_char c"
  have "k < 256" "schar c = (if int k < 128 then int k else int k - 256)"
    unfolding k_def by (rule of_char_less) (simp add: schar_def Let_def)
  then have "k = n" using a by (simp split: if_splits)
  then have "of_char c = n" by (simp add: k_def)
  then show "c = char_of n" by (metis char_of_char)
next
  assume "c = char_of n"
  then show "schar c = int n" using assms by (simp add: schar_def Let_def)
qed

lemma of_char_eq:
  assumes "n < 256"
  shows "(int (of_char c :: nat) = int n) = (c = char_of n)"
proof
  assume "int (of_char c :: nat) = int n"
  then show "c = char_of n" by (metis char_of_char of_nat_eq_iff)
next
  assume "c = char_of n"
  then show "int (of_char c :: nat) = int n" using assms by simp
qed

lemma count_byte_nat: "count_byte (int x) = int (x mod 8)"
  by (simp add: count_byte_def smod_nonneg zmod_int)

lemma count_loop_ok:
  assumes "p + n \<le> length m" "int (x + p + n) \<le> INT_MAX"
  shows "count_loop n m (int x) (int p) = Inr (take p m @ data_at (bin_byte (CHR ''C'')) (x + p) n @ drop (p + n) m)"
  using assms
proof (induction n arbitrary: m p)
  case (Suc n)
  have c: "char_of (nat (count_byte (int (x + p)))) = bin_byte (CHR ''C'') (x + p)"
    unfolding count_byte_nat nat_int by (simp add: bin_byte_def)
  have "int_op (int x + int p) = Inr (int (x + p))" using i32_nat [of "x + p"] Suc.prems(2) by simp
  then have "count_loop (Suc n) m (int x) (int p) =
      count_loop n (m[p := bin_byte (CHR ''C'') (x + p)]) (int x) (int (Suc p))"
    using Suc.prems(1) by (simp only: count_loop.simps bindr_simps c write1) (simp add: algebra_simps write1 del: mem_write_nat)
  also have "\<dots> = Inr (take p m @ (bin_byte (CHR ''C'') (x + p) # data_at (bin_byte (CHR ''C'')) (x + Suc p) n) @ drop (p + Suc n) m)"
    using Suc.prems by (subst Suc.IH) (simp_all only: upd_then_data, simp_all)
  finally show ?case by (simp add: data_at_Suc)
qed (simp add: data_at_def)

lemma countchk_loop_ok:
  assumes "p + n \<le> length m" "int (x + p + n) \<le> INT_MAX"
  shows "countchk_loop n m (int x) (int p) =
     Inr (map_option (\<lambda>(k, c). (int k, mismatch_msg (int k) (oct_alt 64 (int (k mod 8))) (oct_alt 32 (schar c))))
       (first_bad (bin_byte (CHR ''C'')) (x + p) (take n (drop p m))))"
  using assms
proof (induction n arbitrary: p)
  case (Suc n)
  have i: "int_op (int x + int p) = Inr (int (x + p))" using i32_nat [of "x + p"] Suc.prems(2) by simp
  have b: "(schar (m ! p) = int ((x + p) mod 8)) = (m ! p = bin_byte (CHR ''C'') (x + p))"
    by (simp add: schar_eq bin_byte_def)
  have "countchk_loop n m (int x) (int (Suc p)) = countchk_loop n m (int x) (int p + 1)" by (simp add: algebra_simps)
  then show ?case
    using Suc.IH [of "Suc p"] Suc.prems
    by (simp only: countchk_loop.simps i bindr_simps count_byte_nat)
      (auto simp: read1 take_drop_Suc b)
qed simp

lemma bitschk_loop_ok:
  assumes "v < 256" "\<And>y. byte y = char_of v" "p + n \<le> length m" "int (x + p + n) \<le> INT_MAX"
  shows "bitschk_loop n m (int v) (int x) (int p) =
     Inr (map_option (\<lambda>(k, c). (int k, mismatch_msg (int k) (oct_alt 64 (int v)) (oct_alt 64 (int (of_char c :: nat)))))
       (first_bad byte (x + p) (take n (drop p m))))"
  using assms(3,4)
proof (induction n arbitrary: p)
  case (Suc n)
  have i: "int_op (int x + int p) = Inr (int (x + p))" using i32_nat [of "x + p"] Suc.prems(2) by simp
  have b: "(int (of_char (m ! p) :: nat) = int v) = (m ! p = byte (x + p))"
    unfolding assms(2) by (rule of_char_eq [OF assms(1)])
  have "bitschk_loop n m (int v) (int x) (int (Suc p)) = bitschk_loop n m (int v) (int x) (int p + 1)"
    by (simp add: algebra_simps)
  then show ?case
    using Suc.IH [of "Suc p"] Suc.prems
    by (simp only: bitschk_loop.simps i Let_def) (auto simp: read1 take_drop_Suc simp flip: b)
qed simp

lemma memset_ok:
  assumes "n \<le> length m" "\<And>y. byte y = char_of v"
  shows "memset m v (int n) = Inr (data_at byte x n @ drop n m)"
proof -
  have "data_at byte x n = replicate n (char_of v)" using assms(2) by (simp add: data_at_def map_replicate_const)
  then show ?thesis using assms(1) mem_write_nat [of 0 "replicate n (char_of v)" m] by (simp add: memset_def)
qed

lemma databingen_ok:
  assumes "mode \<noteq> CHR ''r''" "n \<le> length m" "int (x + n) \<le> INT_MAX"
  shows "databingen rnd mode m (int n) (int x) = Inr (data_at (bin_byte mode) x n @ drop n m)"
proof (cases "mode = CHR ''C''")
  case True
  then show ?thesis using count_loop_ok [of 0 n m x] assms by (simp add: databingen_def)
next
  case False
  then show ?thesis
    using assms(1) memset_ok [OF assms(2), of "bin_byte mode" _ x]
    by (auto simp: databingen_def bin_byte_def)
qed

definition bin_msg :: "char \<Rightarrow> nat \<Rightarrow> char \<Rightarrow> cstr" where
  "bin_msg mode k c =
     mismatch_msg (int k) (oct_alt 64 (int (of_char (bin_byte mode k) :: nat)))
       (if mode = CHR ''C'' then oct_alt 32 (schar c) else oct_alt 64 (int (of_char c :: nat)))"

lemma databinchk_ok:
  assumes "mode \<noteq> CHR ''r''" "n \<le> length m" "int (x + n) \<le> INT_MAX"
  shows "databinchk errmsg mode m (int n) (int x) =
     Inr (case first_bad (bin_byte mode) x (take n m) of
            None \<Rightarrow> (- 1, match_msg (int n)) | Some (k, c) \<Rightarrow> (int k, bin_msg mode k c))"
proof (cases "mode = CHR ''C''")
  case True
  have "(of_char (bin_byte (CHR ''C'') k) :: nat) = k mod 8" for k
  proof -
    have "k mod 8 < 8" by simp
    then have "k mod 8 mod 256 = k mod 8" by (intro mod_less) linarith
    then show ?thesis by (simp add: bin_byte_def)
  qed
  then show ?thesis
    using True countchk_loop_ok [of 0 n m x] assms
    by (simp add: databinchk_def bin_msg_def split: option.split prod.split)
next
  case False
  define v :: nat where "v = of_char (bin_byte mode 0)"
  have v: "v < 256" "bin_byte mode y = char_of v" for y
    using False of_char_less by (simp_all add: v_def bin_byte_def)
  have e: "(if mode = CHR ''c'' then 0xf0 else if mode = CHR ''o'' then 0xff else if mode = CHR ''z'' then 0 else 0x55) = int v"
    using False by (simp add: v_def bin_byte_def)
  have "of_char (bin_byte mode y) = v" for y using False by (simp add: v_def bin_byte_def)
  then show ?thesis
    using False bitschk_loop_ok [where byte = "bin_byte mode", OF v, of 0 n m x] assms
    by (simp add: databinchk_def bin_msg_def e split: option.split prod.split)
qed

lemma ascii_ok:
  assumes "l \<noteq> Some []" "n \<le> length m" "int (x + n) \<le> INT_MAX"
  shows "dataasciigen l m (int n) (int x) = Inr (int n, data_at (ascii_byte l) x n @ drop n m)"
    and "dataasciichk l m (int n) (int x) =
     Inr (case first_bad (ascii_byte l) x (take n m) of
            None \<Rightarrow> (- 1, match_msg (int n))
          | Some (k, c) \<Rightarrow> (int k, mismatch_msg (int k) (oct_alt 32 (schar (ascii_byte l k))) (oct_alt 32 (schar c))))"
proof -
  have "int_op (int x + int n) = Inr (int (x + n))" using i32_nat [OF assms(3)] by simp
  then show "dataasciigen l m (int n) (int x) = Inr (int n, data_at (ascii_byte l) x n @ drop n m)"
    "dataasciichk l m (int n) (int x) =
     Inr (case first_bad (ascii_byte l) x (take n m) of
            None \<Rightarrow> (- 1, match_msg (int n))
          | Some (k, c) \<Rightarrow> (int k, mismatch_msg (int k) (oct_alt 32 (schar (ascii_byte l k))) (oct_alt 32 (schar c))))"
    using asciigen_loop_ok [OF assms(1), of 0 n m x] asciichk_loop_ok [OF assms(1), of 0 n m x] assms(2)
    by (simp_all add: dataasciigen_def dataasciichk_def split: option.split prod.split)
qed



section \<open>Observations\<close>

text \<open>The NUL of the default list is part of the pattern; an empty list divides by zero. Without a 64-bit Cray the check
  with the process number returns 0, which means an error at offset 0, for every buffer, also right after generating.\<close>

lemma ascii_default_has_nul: "ascii_byte None 53 = NUL"
  by code_simp

lemma ascii_empty_list:
  assumes "int (Suc n) \<le> INT_MAX"
  shows "dataasciigen (Some []) m (int (Suc n)) 0 = Inl Div_by_zero"
proof -
  have "int_op (0 + int (Suc n)) = Inr (int (Suc n))" using i32_nat [OF assms] by simp
  then show ?thesis by (simp only: dataasciigen_def bindr_simps diff_zero nat_int asciigen_loop.simps)
    (simp add: ascii_at_def charlist_of_def)
qed

lemma datapid_never_matches: "fst (datapidchk pid (snd (datapidgen pid buffer bsize offset)) bsize offset) = 0"
  by (simp add: datapidchk_def)

end
