(* ===== verification/Open_Flags.thy ===== *)
theory Open_Flags
  imports C_Library
begin

text \<open>
  \<^verbatim>\<open>open_flags.c\<close> and \<^verbatim>\<open>string_to_tokens.c\<close> of \<^verbatim>\<open>testcases/kernel/fs/doio\<close>: open flags as symbols and back, and splitting a string
  into an array of tokens. The values of the flags are those of \<^verbatim>\<open><fcntl.h>\<close>: a function that gives the value of a macro,
  \<open>None\<close> if it is not defined.
\<close>

unbundle bit_operations_syntax

section \<open>The table of flags\<close>

type_synonym fcntl = "cstr \<Rightarrow> int option"

definition macro :: "fcntl \<Rightarrow> cstr \<Rightarrow> int" where
  "macro f m = (case f m of None \<Rightarrow> 0 | Some v \<Rightarrow> v)"

text \<open>Whether an entry is compiled: always, if the macro is not 0 (\<^verbatim>\<open>#if\<close>), or if it is defined (\<^verbatim>\<open>#ifdef\<close>).\<close>

datatype guard = Always | If_nonzero cstr | If_defined cstr

fun compiled :: "fcntl \<Rightarrow> guard \<Rightarrow> bool" where
  "compiled f Always = True"
| "compiled f (If_nonzero m) = (macro f m \<noteq> 0)"
| "compiled f (If_defined m) = (f m \<noteq> None)"

definition flag_entries :: "(cstr \<times> guard \<times> cstr list) list" where
  "flag_entries = [
    (''O_RDONLY'', Always, [''O_RDONLY'']),
    (''O_WRONLY'', Always, [''O_WRONLY'']),
    (''O_RDWR'', Always, [''O_RDWR'']),
    (''O_SYNC'', Always, [''O_SYNC'']),
    (''O_CREAT'', Always, [''O_CREAT'']),
    (''O_TRUNC'', Always, [''O_TRUNC'']),
    (''O_EXCL'', Always, [''O_EXCL'']),
    (''O_APPEND'', Always, [''O_APPEND'']),
    (''O_NONBLOCK'', Always, [''O_NONBLOCK'']),
    (''O_NOCTTY'', If_nonzero ''O_NOCTTY'', [''O_NOCTTY'']),
    (''O_DSYNC'', If_nonzero ''O_DSYNC'', [''O_DSYNC'']),
    (''O_RSYNC'', If_nonzero ''O_RSYNC'', [''O_RSYNC'']),
    (''O_ASYNC'', If_nonzero ''O_ASYNC'', [''O_ASYNC'']),
    (''O_PTYIGN'', If_nonzero ''O_PTYIGN'', [''O_PTYIGN'']),
    (''O_NDELAY'', If_nonzero ''O_NDELAY'', [''O_NDELAY'']),
    (''O_RAW'', If_nonzero ''O_RAW'', [''O_RAW'']),
    (''O_SSD'', If_defined ''O_SSD'', [''O_SSD'']),
    (''O_BIG'', If_nonzero ''O_BIG'', [''O_BIG'']),
    (''O_PLACE'', If_nonzero ''O_PLACE'', [''O_PLACE'']),
    (''O_RESTART'', If_nonzero ''O_RESTART'', [''O_RESTART'']),
    (''O_SFSXOP'', If_nonzero ''O_SFSXOP'', [''O_SFSXOP'']),
    (''O_SFS_DEFER_TM'', If_nonzero ''O_SFS_DEFER_TM'', [''O_SFS_DEFER_TM'']),
    (''O_WELLFORMED'', If_nonzero ''O_WELLFORMED'', [''O_WELLFORMED'']),
    (''O_LDRAW'', If_nonzero ''O_LDRAW'', [''O_LDRAW'']),
    (''O_T3D'', If_nonzero ''O_T3D'', [''O_T3D'']),
    (''O_PARALLEL'', If_nonzero ''O_PARALLEL'', [''O_PARALLEL'']),
    (''O_FSA'', If_nonzero ''O_PARALLEL'', [''O_PARALLEL'', ''O_WELLFORMED'', ''O_RAW'']),
    (''O_LARGEFILE'', If_defined ''O_LARGEFILE'', [''O_LARGEFILE'']),
    (''O_DIRECT'', If_defined ''O_DIRECT'', [''O_DIRECT'']),
    (''O_PRIV'', If_defined ''O_PRIV'', [''O_PRIV''])]"

definition Open_flags :: "fcntl \<Rightarrow> (cstr \<times> int) list" where
  "Open_flags f =
     map (\<lambda>(symbol, g, ms). (symbol, foldr (\<lambda>m v. macro f m OR v) ms 0))
       (filter (\<lambda>(symbol, g, ms). compiled f g) flag_entries)"

section \<open>Symbols to flags\<close>

text \<open>The inner loop: the flag of the first entry with this name.\<close>

fun find_flag :: "(cstr \<times> int) list \<Rightarrow> cstr \<Rightarrow> int option" where
  "find_flag [] name = None"
| "find_flag ((symbol, flag) # table) name = (if name = symbol then Some flag else find_flag table name)"

text \<open>The result is the bit mask, or -1 and where the bad name starts in the string.\<close>

function parse_flags :: "(cstr \<times> int) list \<Rightarrow> int \<Rightarrow> cstr \<Rightarrow> int \<times> cstr option" where
  "parse_flags table bits name =
     (let cc = dropWhile (\<lambda>c. c \<noteq> CHR '','') name in
      case find_flag table (takeWhile (\<lambda>c. c \<noteq> CHR '','') name) of
        None \<Rightarrow> (- 1, Some name)
      | Some flag \<Rightarrow> if cc = [] then (bits OR flag, None) else parse_flags table (bits OR flag) (tl cc))"
  by pat_completeness auto
termination
proof (relation "measure (\<lambda>(table, bits, name). length name)")
  fix table :: "(cstr \<times> int) list" and bits flag :: int and name cc :: cstr
  assume "cc = dropWhile (\<lambda>c. c \<noteq> CHR '','') name" "cc \<noteq> []"
  then have "length cc \<le> length name" "0 < length cc" by (simp_all add: length_dropWhile_le)
  then show "((table, bits OR flag, tl cc), table, bits, name) \<in> measure (\<lambda>(table, bits, name). length name)"
    by (cases cc) auto
qed simp

declare parse_flags.simps [simp del]

definition parse_open_flags :: "fcntl \<Rightarrow> cstr \<Rightarrow> int \<times> cstr option" where
  "parse_open_flags f string = parse_flags (Open_flags f) 0 string"

section \<open>Flags to symbols\<close>

text \<open>\<^verbatim>\<open>strcat\<close> into the array of 512 characters; \<open>None\<close> is a write past its end.\<close>

definition cat :: "cstr \<Rightarrow> cstr \<Rightarrow> cstr option" where
  "cat s t = (if length s + length t < 512 then Some (s @ t) else None)"

definition cat_symbol :: "cstr \<Rightarrow> cstr \<Rightarrow> bool \<Rightarrow> cstr \<Rightarrow> cstr option" where
  "cat_symbol sep s havesome symbol =
     Option.bind (if havesome then cat s sep else Some s) (\<lambda>s. cat s symbol)"

fun symbols_loop :: "(cstr \<times> int) list \<Rightarrow> cstr \<Rightarrow> int \<Rightarrow> bool \<Rightarrow> cstr \<Rightarrow> (int \<times> bool \<times> cstr) option" where
  "symbols_loop [] sep bits havesome s = Some (bits, havesome, s)"
| "symbols_loop ((symbol, flag) # table) sep bits havesome s =
     (if bits AND flag = flag then
        Option.bind (cat_symbol sep s havesome symbol) (\<lambda>s. symbols_loop table sep (bits AND NOT flag) True s)
      else symbols_loop table sep bits havesome s)"

definition openflags2symbols :: "fcntl \<Rightarrow> int \<Rightarrow> cstr \<Rightarrow> int \<Rightarrow> cstr option" where
  "openflags2symbols f openflags sep mode =
     (let rdonly = (openflags AND (macro f ''O_WRONLY'' OR macro f ''O_RDWR'') = 0) in
      Option.bind (if rdonly then cat [] ''O_RDONLY'' else Some []) (\<lambda>s.
      Option.bind (symbols_loop (tl (Open_flags f)) sep openflags rdonly s) (\<lambda>(bits, havesome, s).
        if bits \<noteq> 0 \<and> mode = 1 then cat_symbol sep s havesome ''UNKNOWN'' else Some s)))"

section \<open>string_to_tokens\<close>

text \<open>The array has \<open>length arr\<close> elements; a null pointer is \<open>None\<close>. \<open>Inl ()\<close> is a write outside the array.\<close>

definition put :: "cstr option list \<Rightarrow> nat \<Rightarrow> cstr option \<Rightarrow> unit + cstr option list" where
  "put arr i p = (if i < length arr then Inr (arr[i := p]) else Inl ())"

text \<open>The successive results of \<^verbatim>\<open>strtok\<close> are the tokens and then null pointers.\<close>

fun tokens_loop :: "nat \<Rightarrow> cstr list \<Rightarrow> cstr option list \<Rightarrow> nat \<Rightarrow> unit + nat \<times> cstr option list" where
  "tokens_loop 0 toks arr num_toks = Inr (num_toks, arr)"
| "tokens_loop (Suc n) [] arr num_toks = bindr (put arr num_toks None) (\<lambda>arr. Inr (num_toks, arr))"
| "tokens_loop (Suc n) (t # toks) arr num_toks =
     bindr (put arr num_toks (Some t)) (\<lambda>arr. tokens_loop n toks arr (num_toks + 1))"

definition string_to_tokens ::
  "cstr \<Rightarrow> cstr option list option \<Rightarrow> int \<Rightarrow> cstr option \<Rightarrow> unit + int \<times> cstr option list option" where
  "string_to_tokens arg_string arg_array array_size separator =
     (case (arg_array, separator) of
        (Some arr, Some sep) \<Rightarrow>
          if array_size \<le> 1 then Inr (- 1, arg_array)
          else (case strtok arg_string sep of
              [] \<Rightarrow> bindr (put arr 0 None) (\<lambda>arr. Inr (0, Some arr))
            | t # toks \<Rightarrow>
                bindr (put arr 0 (Some t)) (\<lambda>arr.
                bindr (tokens_loop (nat array_size - 1) toks arr 1) (\<lambda>(num_toks, arr).
                bindr (if int num_toks = array_size then put arr num_toks None else Inr arr) (\<lambda>arr.
                  Inr (int num_toks, Some arr)))))
      | _ \<Rightarrow> Inr (- 1, arg_array))"

section \<open>What the table has, for every definition of the macros\<close>

lemma Open_flags_fst: "map fst (Open_flags f) = map fst (filter (\<lambda>(symbol, g, ms). compiled f g) flag_entries)"
  unfolding Open_flags_def map_map o_def by (rule map_cong) (auto split: prod.split)

lemma flag_entries_ok:
  "distinct (map fst flag_entries)" "list_all (\<lambda>n. CHR '','' \<notin> set n \<and> n \<noteq> []) (map fst flag_entries)"
  "''UNKNOWN'' \<notin> set (map fst flag_entries)" "sum_list (map (\<lambda>e. length (fst e) + 1) flag_entries) < 490"
  by code_simp+

lemma Open_flags_ok:
  "distinct (map fst (Open_flags f))" "n \<in> set (map fst (Open_flags f)) \<Longrightarrow> CHR '','' \<notin> set n \<and> n \<noteq> []"
  "''UNKNOWN'' \<notin> set (map fst (Open_flags f))"
proof -
  show "distinct (map fst (Open_flags f))"
    unfolding Open_flags_fst using flag_entries_ok(1) by (rule distinct_map_filter)
  have s: "set (map fst (Open_flags f)) \<subseteq> set (map fst flag_entries)" unfolding Open_flags_fst by auto
  then show "n \<in> set (map fst (Open_flags f)) \<Longrightarrow> CHR '','' \<notin> set n \<and> n \<noteq> []"
    using flag_entries_ok(2) unfolding list_all_iff by blast
  show "''UNKNOWN'' \<notin> set (map fst (Open_flags f))" using s flag_entries_ok(3) by (rule contra_subsetD)
qed

lemma Open_flags_head: "Open_flags f = (''O_RDONLY'', macro f ''O_RDONLY'') # tl (Open_flags f)"
  by (simp add: Open_flags_def flag_entries_def)

lemma find_flag_nth: "distinct (map fst table) \<Longrightarrow> (n, v) \<in> set table \<Longrightarrow> find_flag table n = Some v"
  by (induction table n rule: find_flag.induct) force+

lemma find_flag_None: "n \<notin> set (map fst table) \<Longrightarrow> find_flag table n = None"
  by (induction table n rule: find_flag.induct) auto

section \<open>The symbols that are chosen\<close>

fun chosen :: "(cstr \<times> int) list \<Rightarrow> int \<Rightarrow> (cstr \<times> int) list" where
  "chosen [] bits = []"
| "chosen ((symbol, flag) # table) bits =
     (if bits AND flag = flag then (symbol, flag) # chosen table (bits AND NOT flag) else chosen table bits)"

fun leftover :: "(cstr \<times> int) list \<Rightarrow> int \<Rightarrow> int" where
  "leftover [] bits = bits"
| "leftover ((symbol, flag) # table) bits =
     (if bits AND flag = flag then leftover table (bits AND NOT flag) else leftover table bits)"

fun glue :: "cstr \<Rightarrow> bool \<Rightarrow> cstr list \<Rightarrow> cstr" where
  "glue sep havesome [] = []"
| "glue sep havesome (n # ns) = (if havesome then sep else []) @ n @ glue sep True ns"

definition flags_of :: "(cstr \<times> int) list \<Rightarrow> int" where
  "flags_of table = foldr (OR) (map snd table) 0"

lemma chosen_subset: "set (chosen table bits) \<subseteq> set table"
  by (induction table bits rule: chosen.induct) auto

lemma split_bits:
  assumes "bits AND flag = (flag :: int)"
  shows "flag OR (bits AND NOT flag) = bits"
proof (rule bit_eqI)
  fix n
  have "bit (bits AND flag) n = bit flag n" using assms by simp
  then show "bit (flag OR (bits AND NOT flag)) n = bit bits n" by (auto simp: bit_simps)
qed

lemma chosen_or_leftover: "flags_of (chosen table bits) OR leftover table bits = bits"
  by (induction table bits rule: chosen.induct) (simp_all add: flags_of_def split_bits or.assoc)

lemma glue_length:
  "length (glue sep h (map fst (chosen table bits))) \<le> sum_list (map (\<lambda>e. length (fst e) + length sep) table)"
  by (induction table bits arbitrary: h rule: chosen.induct) (auto intro: le_SucI trans_le_add2 add_mono)

lemma symbols_loop_eq:
  assumes "length s + length (glue sep h (map fst (chosen table bits))) < 512"
  shows "symbols_loop table sep bits h s =
     Some (leftover table bits, h \<or> chosen table bits \<noteq> [], s @ glue sep h (map fst (chosen table bits)))"
  using assms
  by (induction table bits arbitrary: h s rule: chosen.induct) (auto simp: cat_symbol_def cat_def)

section \<open>Parsing the symbols back\<close>

lemma takeWhile_comma:
  assumes "CHR '','' \<notin> set n" "r = [] \<or> hd r = CHR '',''"
  shows "takeWhile (\<lambda>c. c \<noteq> CHR '','') (n @ r) = n" "dropWhile (\<lambda>c. c \<noteq> CHR '','') (n @ r) = r"
  using assms by (induction n) (cases r; auto)+

lemma glue_comma: "glue '','' True ns = [] \<or> hd (glue '','' True ns) = CHR '',''"
  by (cases ns) auto

lemma parse_flags_step:
  assumes "CHR '','' \<notin> set n" "r = [] \<or> hd r = CHR '',''"
  shows "parse_flags table b (n @ r) =
     (case find_flag table n of
        None \<Rightarrow> (- 1, Some (n @ r))
      | Some v \<Rightarrow> if r = [] then (b OR v, None) else parse_flags table (b OR v) (tl r))"
  by (subst parse_flags.simps) (simp only: takeWhile_comma [OF assms] Let_def)

lemma glue_start: "glue sep False (n # ns) = n @ glue sep True ns"
  by simp

lemma glue_cont: "ns \<noteq> [] \<Longrightarrow> glue '','' True ns = CHR '','' # glue '','' False ns"
  by (cases ns) simp_all

lemma parse_flags_glue:
  assumes "distinct (map fst table)" "set es \<subseteq> set table" "\<And>n. n \<in> set (map fst table) \<Longrightarrow> CHR '','' \<notin> set n" "es \<noteq> []"
  shows "parse_flags table b (glue '','' False (map fst es)) = (b OR flags_of es, None)"
  using assms(2,4)
proof (induction es arbitrary: b)
  case (Cons e es)
  obtain n v where e: "e = (n, v)" by (cases e)
  have n: "CHR '','' \<notin> set n" "find_flag table n = Some v"
    using Cons.prems(1) assms(1,3) by (force simp: e intro: find_flag_nth)+
  note st = parse_flags_step [OF n(1) glue_comma, of table b "map fst es", unfolded n(2) option.case]
  show ?case
  proof (cases "es = []")
    case True
    then show ?thesis using st by (simp add: e flags_of_def)
  next
    case False
    then show ?thesis
      using st Cons.IH [of "b OR v"] Cons.prems glue_cont [of "map fst es"] by (simp add: e flags_of_def or.assoc)
  qed
qed simp

lemma parse_flags_bad:
  assumes "distinct (map fst table)" "set es \<subseteq> set table" "\<And>n. n \<in> set (map fst table) \<Longrightarrow> CHR '','' \<notin> set n"
    "bad \<notin> set (map fst table)" "CHR '','' \<notin> set bad"
  shows "parse_flags table b (glue '','' False (map fst es @ [bad])) = (- 1, Some bad)"
  using assms(2)
proof (induction es arbitrary: b)
  case Nil
  then show ?case
    using parse_flags_step [OF assms(5), of "[]" table b] find_flag_None [OF assms(4)] by simp
next
  case (Cons e es)
  obtain n v where e: "e = (n, v)" by (cases e)
  have n: "CHR '','' \<notin> set n" "find_flag table n = Some v"
    using Cons.prems(1) assms(1,3) by (force simp: e intro: find_flag_nth)+
  have "parse_flags table b (n @ glue '','' True (map fst es @ [bad])) =
      parse_flags table (b OR v) (glue '','' False (map fst es @ [bad]))"
    using parse_flags_step [OF n(1) glue_comma, of table b "map fst es @ [bad]"] n(2) glue_cont [of "map fst es @ [bad]"] by simp
  then show ?case using Cons.IH [of "b OR v"] Cons.prems by (simp add: e)
qed

section \<open>The round trip\<close>

lemma glue_append: "ns \<noteq> [] \<Longrightarrow> glue sep h (ns @ ms) = glue sep h ns @ glue sep True ms"
  by (induction ns arbitrary: h) (auto, metis append_Nil glue.simps(1))

lemma Open_flags_size:
  "sum_list (map (\<lambda>e. length (fst e) + 1) (tl (Open_flags f))) \<le> sum_list (map (\<lambda>e. length (fst e) + 1) flag_entries)"
proof -
  have f: "sum_list (map g (filter P xs)) \<le> sum_list (map g xs)" for g :: "cstr \<times> guard \<times> cstr list \<Rightarrow> nat" and P xs
    by (induction xs) auto
  have "sum_list (map (\<lambda>e. length (fst e) + 1) (tl (Open_flags f))) \<le> sum_list (map (\<lambda>e. length (fst e) + 1) (Open_flags f))"
    by (cases "Open_flags f") auto
  also have "\<dots> = sum_list (map (\<lambda>n. length n + 1) (map fst (Open_flags f)))" by (simp add: o_def)
  also have "\<dots> = sum_list (map (\<lambda>e. length (fst e) + 1) (filter (\<lambda>(symbol, g, ms). compiled f g) flag_entries))"
    unfolding Open_flags_fst by (simp add: o_def)
  finally show ?thesis using f le_trans by blast
qed

text \<open>The symbols a mask is shown as, with the special case of read-only access, and the bits without a symbol.\<close>

definition shown :: "fcntl \<Rightarrow> int \<Rightarrow> (cstr \<times> int) list" where
  "shown f bits =
     (if bits AND (macro f ''O_WRONLY'' OR macro f ''O_RDWR'') = 0 then [hd (Open_flags f)] else [])
     @ chosen (tl (Open_flags f)) bits"

definition unknown :: "fcntl \<Rightarrow> int \<Rightarrow> int" where
  "unknown f bits = leftover (tl (Open_flags f)) bits"

lemma openflags2symbols_eq:
  "openflags2symbols f bits '','' mode =
     Some (glue '','' False (map fst (shown f bits) @ (if unknown f bits \<noteq> 0 \<and> mode = 1 then [''UNKNOWN''] else [])))"
proof -
  define t where "t = tl (Open_flags f)"
  define rd where "rd = (bits AND (macro f ''O_WRONLY'' OR macro f ''O_RDWR'') = 0)"
  define s where "s = (if rd then ''O_RDONLY'' else [])"
  define g where "g = glue '','' rd (map fst (chosen t bits))"
  have len: "length s \<le> 8" "length g < 490"
    using glue_length [of "'',''" rd t bits] Open_flags_size [of f] flag_entries_ok(4)
    by (simp_all add: s_def g_def t_def)
  have h: "fst (hd (Open_flags f)) = ''O_RDONLY''" by (subst Open_flags_head) simp
  have sg: "glue '','' False (map fst (shown f bits)) = s @ g"
    by (simp add: shown_def rd_def [symmetric] s_def g_def t_def h)
  have ne: "(map fst (shown f bits) \<noteq> []) = (rd \<or> chosen t bits \<noteq> [])"
    by (simp add: shown_def rd_def [symmetric] t_def)
  have lp: "symbols_loop t '','' bits rd s = Some (unknown f bits, rd \<or> chosen t bits \<noteq> [], s @ g)"
    using symbols_loop_eq [of s "'',''" rd t bits] len by (simp add: g_def unknown_def t_def)
  have c: "cat_symbol '','' (s @ g) (map fst (shown f bits) \<noteq> []) ''UNKNOWN'' =
      Some (glue '','' False (map fst (shown f bits) @ [''UNKNOWN'']))"
  proof (cases "map fst (shown f bits) = []")
    case True
    then show ?thesis using len sg by (simp add: cat_symbol_def cat_def)
  next
    case False
    then show ?thesis using len by (simp add: cat_symbol_def cat_def glue_append sg)
  qed
  have "(if rd then cat [] ''O_RDONLY'' else Some []) = Some s" by (simp add: s_def cat_def)
  then show ?thesis
    using c [unfolded ne] by (simp add: openflags2symbols_def Let_def rd_def [symmetric] t_def [symmetric] lp ne sg)
qed

lemma shown_ok:
  assumes "macro f ''O_RDONLY'' = 0"
  shows "set (shown f bits) \<subseteq> set (Open_flags f)" "flags_of (shown f bits) OR unknown f bits = bits"
proof -
  have "set (chosen (tl (Open_flags f)) bits) \<subseteq> set (Open_flags f)"
    using chosen_subset by (subst Open_flags_head) fastforce
  moreover have "hd (Open_flags f) \<in> set (Open_flags f)" by (subst (2) Open_flags_head) (subst Open_flags_head, simp)
  ultimately show "set (shown f bits) \<subseteq> set (Open_flags f)" by (auto simp: shown_def)
  have "snd (hd (Open_flags f)) = 0" by (subst Open_flags_head) (simp add: assms)
  then have "flags_of (shown f bits) = flags_of (chosen (tl (Open_flags f)) bits)" by (simp add: flags_of_def shown_def)
  then show "flags_of (shown f bits) OR unknown f bits = bits" by (simp add: unknown_def chosen_or_leftover)
qed

text \<open>C25. Showing open flags as symbols separated by commas never overruns the array of 512 characters, whichever flags
  the system has. Where read-only access is 0, parsing the symbols gives the flags back if every bit has a symbol; if
  not, parsing stops at the word that stands for the unknown bits.\<close>

theorem open_flags_roundtrip:
  assumes "macro f ''O_RDONLY'' = 0"
  shows "\<exists>s. openflags2symbols f bits '','' mode = Some s
    \<and> (unknown f bits = 0 \<longrightarrow> parse_open_flags f s = (bits, None))
    \<and> (unknown f bits \<noteq> 0 \<and> mode = 1 \<longrightarrow> parse_open_flags f s = (- 1, Some ''UNKNOWN''))"
proof -
  have ok: "distinct (map fst (Open_flags f))" "\<And>n. n \<in> set (map fst (Open_flags f)) \<Longrightarrow> CHR '','' \<notin> set n"
    "''UNKNOWN'' \<notin> set (map fst (Open_flags f))"
    using Open_flags_ok(1,3) [of f] Open_flags_ok(2) [of _ f] by blast+
  have 1: "parse_open_flags f (glue '','' False (map fst (shown f bits))) = (bits, None)" if u: "unknown f bits = 0"
  proof -
    have b: "flags_of (shown f bits) = bits" using shown_ok(2) [OF assms, of bits] u by simp
    then have "shown f bits \<noteq> []" by (cases "bits = 0") (auto simp: shown_def flags_of_def)
    then show ?thesis
      using parse_flags_glue [OF ok(1) shown_ok(1) [OF assms] ok(2), of bits 0] b by (simp add: parse_open_flags_def)
  qed
  have 2: "parse_open_flags f (glue '','' False (map fst (shown f bits) @ [''UNKNOWN''])) = (- 1, Some ''UNKNOWN'')"
    using parse_flags_bad [OF ok(1) shown_ok(1) [OF assms] ok(2) ok(3), of 0 bits] by (simp add: parse_open_flags_def)
  show ?thesis using 1 2 by (simp add: openflags2symbols_eq)
qed

text \<open>The flags of Linux on 64-bit x86.\<close>

definition x86_fcntl :: fcntl where
  "x86_fcntl = map_of [(''O_RDONLY'', 0), (''O_WRONLY'', 1), (''O_RDWR'', 2), (''O_CREAT'', 64), (''O_EXCL'', 128),
     (''O_NOCTTY'', 256), (''O_TRUNC'', 512), (''O_APPEND'', 1024), (''O_NONBLOCK'', 2048), (''O_NDELAY'', 2048),
     (''O_DSYNC'', 4096), (''O_ASYNC'', 8192), (''O_DIRECT'', 16384), (''O_LARGEFILE'', 0), (''O_RSYNC'', 1052672),
     (''O_SYNC'', 1052672)]"

theorem open_flags_roundtrip_witness:
  "macro x86_fcntl ''O_RDONLY'' = 0 \<and> unknown x86_fcntl 1052738 = 0
   \<and> openflags2symbols x86_fcntl 1052738 '','' 1 = Some ''O_RDWR,O_SYNC,O_CREAT,O_LARGEFILE''
   \<and> parse_open_flags x86_fcntl ''O_RDWR,O_SYNC,O_CREAT,O_LARGEFILE'' = (1052738, None)"
proof -
  have h: "macro x86_fcntl ''O_RDONLY'' = 0" "unknown x86_fcntl 1052738 = 0"
    "openflags2symbols x86_fcntl 1052738 '','' 1 = Some ''O_RDWR,O_SYNC,O_CREAT,O_LARGEFILE''" by code_simp+
  then show ?thesis using open_flags_roundtrip [OF h(1), of 1052738 1] by simp
qed

section \<open>Tokens\<close>

lemma tokens_loop_ok:
  assumes "num \<le> length arr" "length toks < n" "num + length toks < length arr"
  shows "tokens_loop n toks arr num =
     Inr (num + length toks, take num arr @ map Some toks @ [None] @ drop (num + length toks + 1) arr)"
  using assms
proof (induction n toks arr num rule: tokens_loop.induct)
  case (2 n arr num)
  then show ?case by (simp add: put_def upd_conv_take_nth_drop)
next
  case (3 n t toks arr num)
  then show ?case by (simp add: put_def take_Suc_conv_app_nth)
qed simp

lemma tokens_loop_full:
  assumes "num + n \<le> length arr" "n \<le> length toks"
  shows "tokens_loop n toks arr num =
     Inr (num + n, take num arr @ map Some (take n toks) @ drop (num + n) arr)"
  using assms
proof (induction n toks arr num rule: tokens_loop.induct)
  case (3 n t toks arr num)
  then show ?case by (simp add: put_def take_Suc_conv_app_nth)
qed simp_all

text \<open>C26. \<^verbatim>\<open>string_to_tokens\<close> on an array of \<^verbatim>\<open>array_size\<close> (at least 2) elements: fewer tokens than that are stored in order,
  followed by a null pointer, the rest of the array is left, and their number is returned; with \<^verbatim>\<open>array_size\<close> or more tokens
  the null pointer is written behind the end of the array.\<close>

theorem string_to_tokens_correct:
  assumes "2 \<le> length arr" "toks = strtok s sep"
  shows "string_to_tokens s (Some arr) (int (length arr)) (Some sep) =
     (if length toks < length arr
      then Inr (int (length toks), Some (map Some toks @ [None] @ drop (length toks + 1) arr))
      else Inl ())"
proof (cases toks)
  case Nil
  then show ?thesis using assms(1) by (cases arr) (auto simp: string_to_tokens_def put_def simp flip: assms(2))
next
  case (Cons t ts)
  obtain a as where arr: "arr = a # as" "as \<noteq> []" using assms(1) by (cases arr; cases "tl arr") auto
  have n: "nat (1 + int (length as)) - Suc 0 = length as" by simp
  show ?thesis
  proof (cases "length ts < length as")
    case True
    then have "tokens_loop (length as) ts (Some t # as) 1 =
        Inr (1 + length ts, [Some t] @ map Some ts @ [None] @ drop (length ts + 1) as)"
      by (subst tokens_loop_ok) (auto simp: arr)
    then show ?thesis using True arr by (simp add: n string_to_tokens_def put_def Cons flip: assms(2))
  next
    case False
    then have "tokens_loop (length as) ts (Some t # as) 1 = Inr (1 + length as, [Some t] @ map Some (take (length as) ts))"
      by (subst tokens_loop_full) (auto simp: arr)
    then show ?thesis using False arr by (simp add: n string_to_tokens_def put_def Cons flip: assms(2))
  qed
qed

theorem string_to_tokens_correct_witness:
  "string_to_tokens ''a:bc::d'' (Some (replicate 5 None)) 5 (Some '':'') =
     Inr (3, Some [Some ''a'', Some ''bc'', Some ''d'', None, None])
   \<and> string_to_tokens ''a:bc::d'' (Some (replicate 3 None)) 3 (Some '':'') = Inl ()"
proof -
  have "strtok ''a:bc::d'' '':'' = [''a'', ''bc'', ''d'']" by code_simp
  then show ?thesis
    using string_to_tokens_correct [of "replicate 5 None" _ "''a:bc::d''" "'':''", OF _ refl]
      string_to_tokens_correct [of "replicate 3 None" _ "''a:bc::d''" "'':''", OF _ refl]
    by (simp add: numeral_eq_Suc)
qed

section \<open>Observations\<close>

text \<open>A flag whose value is 0 is always shown; the documentation promises an empty string when no symbol is recognised.\<close>

lemma largefile_always_shown:
  "openflags2symbols x86_fcntl 0 '','' 0 = Some ''O_RDONLY,O_LARGEFILE''"
  by code_simp

end
