(* ===== verification/Write_Log.thy ===== *)
theory Write_Log
  imports Data_Pattern
begin

text \<open>
  \<^verbatim>\<open>write_log.c\<close> of \<^verbatim>\<open>testcases/kernel/fs/doio\<close>: the history file of write operations, a sequence of records of variable
  length that is scanned backwards. The layout of \<^verbatim>\<open>struct wlog_rec_disk\<close> is that of gcc on 64-bit x86: seven
  little-endian words of 32 bits. A file is the list of its bytes. Whether opening
  and writing fail is an argument; the positioning and reading of the scan succeed.
\<close>

section \<open>Words of 32 bits in memory\<close>

definition le32 :: "nat \<Rightarrow> char list" where
  "le32 u = [char_of (u mod 256), char_of (u div 256 mod 256), char_of (u div 65536 mod 256), char_of (u div 16777216 mod 256)]"

definition unle32 :: "char list \<Rightarrow> nat" where
  "unle32 b = of_char (b ! 0) + 256 * of_char (b ! 1) + 65536 * of_char (b ! 2) + 16777216 * of_char (b ! 3)"

text \<open>\<^verbatim>\<open>(uint) x\<close>, and an unsigned value assigned to an \<^verbatim>\<open>int\<close>.\<close>

definition uint_of :: "int \<Rightarrow> nat" where
  "uint_of x = nat (x mod 2 ^ 32)"

definition int_of_uint :: "nat \<Rightarrow> int" where
  "int_of_uint u = (if u < 2 ^ 31 then int u else int u - 2 ^ 32)"

section \<open>Records\<close>

definition WLOG_MAX_PATH :: nat where "WLOG_MAX_PATH = 128"
definition WLOG_MAX_PATTERN :: nat where "WLOG_MAX_PATTERN = 64"
definition WLOG_MAX_HOST :: nat where "WLOG_MAX_HOST = 8"
definition WLOG_REC_MAX_SIZE :: nat where "WLOG_REC_MAX_SIZE = 248 + WLOG_MAX_PATH + WLOG_MAX_PATTERN + WLOG_MAX_HOST + 2"

record wlog_rec =
  w_pid :: int
  w_offset :: int
  w_nbytes :: int
  w_oflags :: int
  w_done :: int
  w_async :: int
  w_host :: "char list"
  w_hostlen :: int
  w_path :: "char list"
  w_pathlen :: int
  w_pattern :: "char list"
  w_patternlen :: int

text \<open>The words of \<^verbatim>\<open>struct wlog_rec_disk\<close> in a buffer. Word 4 has the process number (17 bits), the length of the path (7) and of
  the pattern (6), word 5 the length of the host name (4) and the two flags; the other bits belong to no member that
  is used, and keep their value.\<close>

definition DISK_SIZE :: int where "DISK_SIZE = 28"

definition disk_word :: "char list \<Rightarrow> nat \<Rightarrow> nat" where
  "disk_word buf k = unle32 (take 4 (drop (4 * k) buf))"

definition positive :: "int \<Rightarrow> nat" where
  "positive x = (if x > 0 then uint_of x else 0)"

definition disk_words :: "wlog_rec \<Rightarrow> char list \<Rightarrow> nat list" where
  "disk_words wrec buf =
     [uint_of (w_offset wrec), disk_word buf 1, uint_of (w_nbytes wrec), uint_of (w_oflags wrec),
      uint_of (w_pid wrec) mod 2 ^ 17 + 2 ^ 17 * (positive (w_pathlen wrec) mod 2 ^ 7)
        + 2 ^ 24 * (positive (w_patternlen wrec) mod 2 ^ 6) + 2 ^ 30 * (disk_word buf 4 div 2 ^ 30),
      positive (w_hostlen wrec) mod 2 ^ 4 + 2 ^ 4 * (uint_of (w_done wrec) mod 2)
        + 2 ^ 5 * (uint_of (w_async wrec) mod 2) + 2 ^ 6 * (disk_word buf 5 div 2 ^ 6),
      disk_word buf 6]"

definition disk_pathlen :: "char list \<Rightarrow> int" where
  "disk_pathlen buf = int (disk_word buf 4 div 2 ^ 17 mod 2 ^ 7)"

definition disk_patternlen :: "char list \<Rightarrow> int" where
  "disk_patternlen buf = int (disk_word buf 4 div 2 ^ 24 mod 2 ^ 6)"

definition disk_hostlen :: "char list \<Rightarrow> int" where
  "disk_hostlen buf = int (disk_word buf 5 mod 2 ^ 4)"

definition copy_in :: "char list \<Rightarrow> int \<Rightarrow> char list \<Rightarrow> int \<Rightarrow> mem_fault + char list" where
  "copy_in buf d src n = (if n > 0 then memcpy buf d src 0 n else Inr buf)"

text \<open>The returned length and the buffer.\<close>

definition wlog_rec_pack :: "wlog_rec \<Rightarrow> char list \<Rightarrow> bool \<Rightarrow> mem_fault + int \<times> char list" where
  "wlog_rec_pack wrec buf flag =
     bindr (mem_write buf 0 (concat (map le32 (disk_words wrec buf)))) (\<lambda>buf.
     if flag then
       let pathlen = disk_pathlen buf; hostlen = disk_hostlen buf; patternlen = disk_patternlen buf;
           file = DISK_SIZE; host = file + pathlen; pattern = host + hostlen
       in
       bindr (copy_in buf file (w_path wrec) pathlen) (\<lambda>buf.
       bindr (copy_in buf host (w_host wrec) hostlen) (\<lambda>buf.
       bindr (copy_in buf pattern (w_pattern wrec) patternlen) (\<lambda>buf.
         Inr (DISK_SIZE + pathlen + hostlen + patternlen, buf))))
     else Inr (DISK_SIZE, buf))"

definition copy_out :: "nat \<Rightarrow> char list \<Rightarrow> int \<Rightarrow> int \<Rightarrow> mem_fault + char list" where
  "copy_out sz buf p n =
     (if n > 0 then memcpy (replicate sz NUL) 0 buf p n else Inr (replicate sz NUL))"

definition wlog_rec_unpack :: "char list \<Rightarrow> mem_fault + wlog_rec" where
  "wlog_rec_unpack buf =
     (let pathlen = disk_pathlen buf; hostlen = disk_hostlen buf; patternlen = disk_patternlen buf in
      bindr (copy_out (WLOG_MAX_PATH + 1) buf DISK_SIZE pathlen) (\<lambda>path.
      bindr (copy_out (WLOG_MAX_HOST + 1) buf (DISK_SIZE + pathlen) hostlen) (\<lambda>host.
      bindr (copy_out (WLOG_MAX_PATTERN + 1) buf (DISK_SIZE + pathlen + hostlen) patternlen) (\<lambda>pattern.
        Inr \<lparr>w_pid = int (disk_word buf 4 mod 2 ^ 17), w_offset = int_of_uint (disk_word buf 0),
             w_nbytes = int_of_uint (disk_word buf 2), w_oflags = int_of_uint (disk_word buf 3),
             w_done = int (disk_word buf 5 div 2 ^ 4 mod 2), w_async = int (disk_word buf 5 div 2 ^ 5 mod 2),
             w_host = host, w_hostlen = hostlen, w_path = path, w_pathlen = pathlen,
             w_pattern = pattern, w_patternlen = patternlen\<rparr>))))"

section \<open>The file\<close>

text \<open>\<^verbatim>\<open>wlog_open\<close> and \<^verbatim>\<open>wlog_close\<close>: \<open>afd\<close> and \<open>rfd\<close> are what the two calls of \<^verbatim>\<open>open\<close> return, the last part of the result is the list
  of descriptors that are closed. The message in \<^verbatim>\<open>Wlog_Error_String\<close> is left out.\<close>

record wlog_file =
  w_afd :: int
  w_rfd :: int
  w_file :: cstr

definition wlog_open :: "int \<Rightarrow> int \<Rightarrow> int \<Rightarrow> char list \<Rightarrow> wlog_file \<Rightarrow> int \<times> wlog_file \<times> char list \<times> int list" where
  "wlog_open afd rfd trunc file wfile =
     (let wfile = wfile\<lparr>w_afd := afd\<rparr> in
      if afd = - 1 then (- 1, wfile, file, [])
      else
        let file = (if trunc \<noteq> 0 then [] else file); wfile = wfile\<lparr>w_rfd := rfd\<rparr> in
        if rfd = - 1 then (- 1, wfile\<lparr>w_afd := - 1\<rparr>, file, [afd])
        else (0, wfile, file, []))"

definition wlog_close :: "wlog_file \<Rightarrow> int \<times> int list" where
  "wlog_close wfile = (0, [w_afd wfile, w_rfd wfile])"

text \<open>\<^verbatim>\<open>write(w_afd)\<close> appends; \<^verbatim>\<open>write(w_rfd)\<close> after \<^verbatim>\<open>lseek\<close> overwrites and extends the file with zeros if needed.\<close>

definition file_write :: "char list \<Rightarrow> int \<Rightarrow> char list \<Rightarrow> char list" where
  "file_write file pos bs =
     (let n = nat pos; f = file @ replicate (n - length file) NUL in take n f @ bs @ drop (n + length bs) f)"

text \<open>\<^verbatim>\<open>read\<close> gives the bytes that are there.\<close>

definition file_read :: "char list \<Rightarrow> int \<Rightarrow> int \<Rightarrow> char list" where
  "file_read file pos n = take (nat n) (drop (nat pos) file)"

text \<open>\<open>wbuf\<close> is the array on the stack with its old contents, \<open>ok\<close> says whether the system calls succeed.\<close>

definition wlog_record_write ::
  "char list \<Rightarrow> bool \<Rightarrow> char list \<Rightarrow> wlog_rec \<Rightarrow> int \<Rightarrow> mem_fault + int \<times> char list" where
  "wlog_record_write wbuf ok file wrec offset =
     bindr (wlog_rec_pack wrec wbuf (offset < 0)) (\<lambda>(reclen, wbuf).
     if offset < 0 then
       bindr (mem_write wbuf reclen [char_of (nat (reclen div 256)), char_of (nat (reclen mod 256))]) (\<lambda>wbuf.
       bindr (mem_read wbuf 0 (reclen + 2)) (\<lambda>bs.
         if ok then Inr (int_of_uint (uint_of (int (length file))), file @ bs) else Inr (- 1, file)))
     else
       bindr (mem_read wbuf 0 reclen) (\<lambda>bs.
         if ok then Inr (int_of_uint (uint_of offset), file_write file offset bs) else Inr (- 1, file)))"

section \<open>Scanning backwards\<close>

text \<open>Positions in the buffer are offsets from its start; \<open>bufend\<close> is its size. The user function gets a record and its
  own state, and returns a number and the new state.\<close>

type_synonym 's user_fun = "wlog_rec \<Rightarrow> 's \<Rightarrow> int \<times> 's"

definition WLOG_STOP_SCAN :: int where "WLOG_STOP_SCAN = 0"

record 's wlog_scan =
  s_buf :: "char list"
  s_albuf :: "char list"
  s_leftover :: int
  s_recnum :: int
  s_user :: 's

text \<open>\<^verbatim>\<open>leftover = cp - bufstart; memcpy(bufend - leftover, bufstart, leftover)\<close>.\<close>

definition keep_rest :: "int \<Rightarrow> int \<Rightarrow> 's wlog_scan \<Rightarrow> mem_fault + 's wlog_scan" where
  "keep_rest bufstart cp s =
     (let bufend = int (length (s_buf s)); leftover = cp - bufstart in
      bindr (memcpy (s_buf s) (bufend - leftover) (s_buf s) bufstart leftover) (\<lambda>buf.
        Inr (s\<lparr>s_buf := buf, s_leftover := leftover\<rparr>)))"

fun scan_buffer :: "nat \<Rightarrow> 's user_fun \<Rightarrow> int \<Rightarrow> int \<Rightarrow> int \<Rightarrow> 's wlog_scan \<Rightarrow> mem_fault + 's wlog_scan" where
  "scan_buffer 0 func nrecs bufstart cp s = Inl No_fuel"
| "scan_buffer (Suc fuel) func nrecs bufstart cp s =
     (if cp < bufstart then Inr s
      else if cp - bufstart < 2 then keep_rest bufstart cp s
      else
        bindr (mem_read (s_buf s) (cp - 2) 2) (\<lambda>b.
        let reclen = schar (b ! 0) * 256 + schar (b ! 1) in
        if cp - bufstart < reclen + 2 then keep_rest bufstart cp s
        else
          let cp = cp - (reclen + 2) in
          bindr (memcpy (s_albuf s) 0 (s_buf s) cp reclen) (\<lambda>albuf.
          bindr (wlog_rec_unpack albuf) (\<lambda>wrec.
          let (rval, u) = func wrec (s_user s); s = s\<lparr>s_albuf := albuf, s_user := u\<rparr> in
          if rval = WLOG_STOP_SCAN then Inr s
          else
            let s = s\<lparr>s_recnum := s_recnum s + 1\<rparr> in
            if nrecs \<noteq> 0 \<and> s_recnum s \<ge> nrecs then Inr s
            else scan_buffer fuel func nrecs bufstart cp s))))"

fun scan_file :: "nat \<Rightarrow> 's user_fun \<Rightarrow> int \<Rightarrow> char list \<Rightarrow> int \<Rightarrow> int \<Rightarrow> 's wlog_scan \<Rightarrow> mem_fault + 's wlog_scan" where
  "scan_file 0 func nrecs file bufstart offset s = Inl No_fuel"
| "scan_file (Suc fuel) func nrecs file bufstart offset s =
     (if (nrecs = 0 \<or> s_recnum s < nrecs) \<and> offset > 0 then
        let bufend = int (length (s_buf s));
            (bufstart, offset) =
              (if offset + s_leftover s < bufend then (bufend - (offset + s_leftover s), 0)
               else (bufstart, offset - (bufend - s_leftover s)))
        in
        bindr (mem_write (s_buf s) bufstart (file_read file offset (bufend - bufstart - s_leftover s))) (\<lambda>buf.
        bindr (scan_buffer (length (s_buf s) + 1) func nrecs bufstart bufend (s\<lparr>s_buf := buf, s_leftover := 0\<rparr>)) (\<lambda>s.
          scan_file fuel func nrecs file bufstart offset s))
      else Inr s)"

text \<open>The result is 0 and the state of the user function. The arrays have their old contents at the start.\<close>

definition wlog_scan_backward ::
  "char list \<Rightarrow> char list \<Rightarrow> char list \<Rightarrow> int \<Rightarrow> 's user_fun \<Rightarrow> 's \<Rightarrow> mem_fault + int \<times> 's" where
  "wlog_scan_backward buf albuf file nrecs func u =
     bindr (scan_file (length file + 1) func nrecs file 0 (int (length file))
       \<lparr>s_buf = buf, s_albuf = albuf, s_leftover = 0, s_recnum = 0, s_user = u\<rparr>) (\<lambda>s. Inr (0, s_user s))"

section \<open>Opening\<close>

text \<open>A log that could not be opened leaves no descriptor open; one that was opened is released completely.\<close>

lemma wlog_open_releases:
  assumes "wlog_open afd rfd trunc file wfile = (r, lf, file', cl)"
  shows "r = - 1 \<Longrightarrow> cl = (if afd = - 1 then [] else [afd]) \<and> w_afd lf = - 1"
    and "r \<noteq> - 1 \<Longrightarrow> r = 0 \<and> cl = [] \<and> snd (wlog_close lf) = [afd, rfd] \<and> file' = (if trunc = 0 then file else [])"
  using assms by (auto simp: wlog_open_def wlog_close_def Let_def split: if_splits)

section \<open>Words\<close>

lemma length_le32 [simp]: "length (le32 u) = 4"
  by (simp add: le32_def)

lemma base256:
  fixes u a b c d :: nat
  assumes "u = 256 * a + p" "a = 256 * b + q" "b = 256 * c + r" "c = 256 * d + s" "u = 4294967296 * d + m"
  shows "p + 256 * q + 65536 * r + 16777216 * s = m"
  using assms by simp

lemma unle32_le32: "unle32 (le32 u @ r) = u mod 2 ^ 32"
proof -
  define a b c d where "a = u div 256" and "b = a div 256" and "c = b div 256" and "d = c div 256"
  have 1: "u div 65536 = b" "u div 16777216 = c" "u div 2 ^ 32 = d"
    by (simp_all add: a_def b_def c_def d_def div_mult2_eq [symmetric])
  have 2: "u = 256 * a + u mod 256" "a = 256 * b + a mod 256" "b = 256 * c + b mod 256" "c = 256 * d + c mod 256"
    by (simp_all add: a_def b_def c_def d_def)
  have "u = 2 ^ 32 * d + u mod 2 ^ 32" unfolding 1(3) [symmetric] by (rule mult_div_mod_eq [symmetric])
  then have 3: "u = 4294967296 * d + u mod 2 ^ 32" by simp
  have "unle32 (le32 u @ r) = u mod 256 + 256 * (a mod 256) + 65536 * (b mod 256) + 16777216 * (c mod 256)"
    by (simp add: unle32_def le32_def 1 a_def [symmetric])
  then show ?thesis using base256 [OF 2 3] by simp
qed

lemma length_words [simp]: "length (concat (map le32 ws)) = 4 * length ws"
  by (induction ws) simp_all

lemma drop_words: "drop (4 * k) (concat (map le32 ws) @ r) = concat (map le32 (drop k ws)) @ drop (4 * (k - length ws)) r"
proof (induction ws arbitrary: k)
  case (Cons w ws)
  then show ?case by (cases k) simp_all
qed simp

lemma disk_word_words:
  assumes "k < length ws"
  shows "disk_word (concat (map le32 ws) @ r) k = ws ! k mod 2 ^ 32"
proof -
  have "drop k ws = ws ! k # drop (Suc k) ws" using assms by (simp add: Cons_nth_drop_Suc)
  then show ?thesis using unle32_le32 [of "ws ! k" "[]"] unfolding disk_word_def drop_words by simp
qed

lemma disk_word_less: "disk_word buf k < 2 ^ 32"
proof -
  define b where "b i = (of_char (take 4 (drop (4 * k) buf) ! i) :: nat)" for i
  have "b i < 256" for i unfolding b_def by (rule of_char_less)
  from this [of 0] this [of 1] this [of 2] this [of 3]
  show ?thesis unfolding disk_word_def unle32_def b_def [symmetric] by simp
qed

lemma uint_of_less: "uint_of x < 2 ^ 32"
  by (simp add: uint_of_def nat_less_iff)

lemma int_of_uint_of: "- (2 ^ 31) \<le> x \<Longrightarrow> x < 2 ^ 31 \<Longrightarrow> int_of_uint (uint_of x) = x"
proof (cases "x < 0")
  case True
  assume a: "- (2 ^ 31) \<le> x" "x < 2 ^ 31"
  then have "x mod 2 ^ 32 = x + 2 ^ 32" using True by (intro mod_pos_pos_trivial [of "x + 2 ^ 32" "2 ^ 32", simplified mod_add_self2]) simp_all
  then show ?thesis using a True by (simp add: int_of_uint_def uint_of_def)
qed (simp add: int_of_uint_def uint_of_def nat_less_iff)

lemma uint_of_nat: "n < 2 ^ 32 \<Longrightarrow> uint_of (int n) = n"
  by (simp add: uint_of_def)

lemma fields:
  fixes a b c k m :: nat
  assumes "a < k" "b < m"
  shows "(a + k * (b + m * c)) mod k = a" "(a + k * (b + m * c)) div k mod m = b" "(a + k * (b + m * c)) div (k * m) = c"
  using assms by (simp_all add: div_mult2_eq)

section \<open>Packing and unpacking\<close>

text \<open>The records that the format can hold: the numbers fit their fields, the arrays have their sizes and are filled up
  with zeros behind the strings.\<close>

definition wf_rec :: "wlog_rec \<Rightarrow> bool" where
  "wf_rec r =
     (0 \<le> w_pid r \<and> w_pid r < 2 ^ 17
      \<and> list_all (\<lambda>x. - (2 ^ 31) \<le> x \<and> x < 2 ^ 31) [w_offset r, w_nbytes r, w_oflags r]
      \<and> w_done r \<in> {0, 1} \<and> w_async r \<in> {0, 1}
      \<and> 0 \<le> w_pathlen r \<and> w_pathlen r < 128 \<and> 0 \<le> w_hostlen r \<and> w_hostlen r \<le> 9 \<and> 0 \<le> w_patternlen r \<and> w_patternlen r < 64
      \<and> length (w_path r) = 129 \<and> length (w_host r) = 9 \<and> length (w_pattern r) = 65
      \<and> drop (nat (w_pathlen r)) (w_path r) = replicate (129 - nat (w_pathlen r)) NUL
      \<and> drop (nat (w_hostlen r)) (w_host r) = replicate (9 - nat (w_hostlen r)) NUL
      \<and> drop (nat (w_patternlen r)) (w_pattern r) = replicate (65 - nat (w_patternlen r)) NUL)"

definition rec_strings :: "wlog_rec \<Rightarrow> char list" where
  "rec_strings r = take (nat (w_pathlen r)) (w_path r) @ take (nat (w_hostlen r)) (w_host r)
     @ take (nat (w_patternlen r)) (w_pattern r)"

definition rec_header :: "wlog_rec \<Rightarrow> char list \<Rightarrow> char list" where
  "rec_header r buf = concat (map le32 (disk_words r buf))"

lemma length_rec_header [simp]: "length (rec_header r buf) = 28"
  by (simp add: rec_header_def disk_words_def)

lemma positive_eq: "0 \<le> x \<Longrightarrow> x < 2 ^ 31 \<Longrightarrow> positive x = nat x"
  by (simp add: positive_def uint_of_def)

text \<open>Reading the header back.\<close>

lemma header_fields:
  assumes "wf_rec r"
  shows "disk_pathlen (rec_header r buf @ t) = w_pathlen r" "disk_patternlen (rec_header r buf @ t) = w_patternlen r"
    "disk_hostlen (rec_header r buf @ t) = w_hostlen r"
    "int (disk_word (rec_header r buf @ t) 4 mod 2 ^ 17) = w_pid r"
    "int_of_uint (disk_word (rec_header r buf @ t) 0) = w_offset r"
    "int_of_uint (disk_word (rec_header r buf @ t) 2) = w_nbytes r"
    "int_of_uint (disk_word (rec_header r buf @ t) 3) = w_oflags r"
    "int (disk_word (rec_header r buf @ t) 5 div 2 ^ 4 mod 2) = w_done r"
    "int (disk_word (rec_header r buf @ t) 5 div 2 ^ 5 mod 2) = w_async r"
proof -
  obtain pid pl tl hl dn as :: nat where n: "w_pid r = int pid" "w_pathlen r = int pl" "w_patternlen r = int tl"
      "w_hostlen r = int hl" "w_done r = int dn" "w_async r = int as"
      "pid < 2 ^ 17" "pl < 128" "tl < 64" "hl < 16" "dn < 2" "as < 2"
    using assms that [of "nat (w_pid r)" "nat (w_pathlen r)" "nat (w_patternlen r)" "nat (w_hostlen r)" "nat (w_done r)" "nat (w_async r)"]
    by (auto simp: wf_rec_def nat_less_iff)
  define x4 x5 where "x4 = disk_word buf 4 div 2 ^ 30" and "x5 = disk_word buf 5 div 2 ^ 6"
  have x: "x4 < 4" "x5 < 2 ^ 26"
    unfolding x4_def x5_def by (rule less_mult_imp_div_less, use disk_word_less in simp)+
  have x': "disk_word buf 4 div 1073741824 = x4" "disk_word buf 5 div 64 = x5" by (simp_all add: x4_def x5_def)
  have p: "uint_of (int pid) = pid" "positive (int pl) = pl" "positive (int tl) = tl" "positive (int hl) = hl"
    "uint_of (int dn) = dn" "uint_of (int as) = as"
    using n(7-12) by (simp_all add: uint_of_nat positive_eq)
  have w4: "disk_word (rec_header r buf @ t) 4 = pid + 2 ^ 17 * (pl + 2 ^ 7 * (tl + 2 ^ 6 * x4))"
    unfolding rec_header_def using n x by (subst disk_word_words) (simp_all add: disk_words_def p x')
  have w5: "disk_word (rec_header r buf @ t) 5 = hl + 2 ^ 4 * (dn + 2 * (as + 2 * x5))"
    unfolding rec_header_def using n x by (subst disk_word_words) (simp_all add: disk_words_def p x')
  have 24: "(2 :: nat) ^ 24 = 2 ^ 17 * 2 ^ 7" and 5: "(2 :: nat) ^ 5 = 2 ^ 4 * 2" by simp_all
  have f4: "(pid + 2 ^ 17 * (pl + 2 ^ 7 * X)) mod 2 ^ 17 = pid" "(pid + 2 ^ 17 * (pl + 2 ^ 7 * X)) div 2 ^ 17 mod 2 ^ 7 = pl"
    "(pid + 2 ^ 17 * (pl + 2 ^ 7 * X)) div (2 ^ 17 * 2 ^ 7) = X" for X
    using n(7,8) by (intro fields; simp)+
  have f5: "(hl + 2 ^ 4 * (dn + 2 * X)) mod 2 ^ 4 = hl" "(hl + 2 ^ 4 * (dn + 2 * X)) div 2 ^ 4 mod 2 = dn"
    "(hl + 2 ^ 4 * (dn + 2 * X)) div (2 ^ 4 * 2) = X" for X
    using n(10,11) by (intro fields; simp)+
  have g4: "(tl + 2 ^ 6 * x4) mod 2 ^ 6 = tl" and g5: "(as + 2 * x5) mod 2 = as" using n(9,12) by simp_all
  show "disk_pathlen (rec_header r buf @ t) = w_pathlen r" "disk_patternlen (rec_header r buf @ t) = w_patternlen r"
    "disk_hostlen (rec_header r buf @ t) = w_hostlen r"
    "int (disk_word (rec_header r buf @ t) 4 mod 2 ^ 17) = w_pid r"
    "int (disk_word (rec_header r buf @ t) 5 div 2 ^ 4 mod 2) = w_done r"
    "int (disk_word (rec_header r buf @ t) 5 div 2 ^ 5 mod 2) = w_async r"
    unfolding disk_pathlen_def disk_patternlen_def disk_hostlen_def w4 w5 24 5 n(1-6) f4 f5 g4 g5 by (rule refl)+
  have "disk_word (rec_header r buf @ t) k = disk_words r buf ! k mod 2 ^ 32" if "k < 7" for k
    unfolding rec_header_def using that by (intro disk_word_words) (simp add: disk_words_def)
  from this [of 0] this [of 2] this [of 3]
  show "int_of_uint (disk_word (rec_header r buf @ t) 0) = w_offset r"
    "int_of_uint (disk_word (rec_header r buf @ t) 2) = w_nbytes r"
    "int_of_uint (disk_word (rec_header r buf @ t) 3) = w_oflags r"
    using assms uint_of_less by (simp_all add: disk_words_def wf_rec_def int_of_uint_of)
qed

lemma wf_lengths:
  assumes "wf_rec r"
  obtains pl hl tl where "w_pathlen r = int pl" "w_hostlen r = int hl" "w_patternlen r = int tl"
    "pl < 128" "hl \<le> 9" "tl < 64" "length (w_path r) = 129" "length (w_host r) = 9" "length (w_pattern r) = 65"
    "w_path r = take pl (w_path r) @ replicate (129 - pl) NUL" "w_host r = take hl (w_host r) @ replicate (9 - hl) NUL"
    "w_pattern r = take tl (w_pattern r) @ replicate (65 - tl) NUL"
proof (rule that [of "nat (w_pathlen r)" "nat (w_hostlen r)" "nat (w_patternlen r)"])
  show "w_path r = take (nat (w_pathlen r)) (w_path r) @ replicate (129 - nat (w_pathlen r)) NUL"
    "w_host r = take (nat (w_hostlen r)) (w_host r) @ replicate (9 - nat (w_hostlen r)) NUL"
    "w_pattern r = take (nat (w_patternlen r)) (w_pattern r) @ replicate (65 - nat (w_patternlen r)) NUL"
    using assms unfolding wf_rec_def by (metis append_take_drop_id)+
qed (insert assms, auto simp: wf_rec_def)

lemma copy_in_nat:
  assumes "length a + n \<le> length (a @ b)" "n \<le> length src"
  shows "copy_in (a @ b) (int (length a)) src (int n) = Inr (a @ take n src @ drop n b)"
  using assms memcpy_nat [of 0 n src "length a" "a @ b"] by (simp add: copy_in_def)

lemma copy_out_nat:
  assumes "n \<le> sz" "length bs = n"
  shows "copy_out sz (a @ bs @ t) (int (length a)) (int n) = Inr (bs @ replicate (sz - n) NUL)"
  using assms memcpy_nat [of "length a" n "a @ bs @ t" 0 "replicate sz NUL"] by (auto simp: copy_out_def)

lemma pack_ok:
  assumes "wf_rec r" "28 + length (rec_strings r) \<le> length buf"
  shows "wlog_rec_pack r buf True =
     Inr (int (28 + length (rec_strings r)), rec_header r buf @ rec_strings r @ drop (28 + length (rec_strings r)) buf)"
proof -
  obtain pl hl tl where l: "w_pathlen r = int pl" "w_hostlen r = int hl" "w_patternlen r = int tl"
    "pl < 128" "hl \<le> 9" "tl < 64" "length (w_path r) = 129" "length (w_host r) = 9" "length (w_pattern r) = 65"
    by (rule wf_lengths [OF assms(1)])
  define P H T where "P = take pl (w_path r)" and "H = take hl (w_host r)" and "T = take tl (w_pattern r)"
  have len: "length P = pl" "length H = hl" "length T = tl" "rec_strings r = P @ H @ T"
    using l by (simp_all add: P_def H_def T_def rec_strings_def)
  define h b where "h = rec_header r buf" and "b = drop 28 buf"
  have hl: "length h = 28" "pl + hl + tl \<le> length b" using assms(2) len by (simp_all add: h_def b_def)
  have w: "mem_write buf 0 (concat (map le32 (disk_words r buf))) = Inr (h @ b)"
    using mem_write_nat [of 0 "rec_header r buf" buf] assms(2) by (simp add: h_def b_def rec_header_def disk_words_def)
  note f = header_fields(1-3) [OF assms(1), of buf b, folded h_def, unfolded l]
  have c1: "copy_in (h @ b) 28 (w_path r) (int pl) = Inr (h @ P @ drop pl b)"
    using copy_in_nat [of h pl b "w_path r"] hl l by (simp add: P_def)
  have c2: "copy_in (h @ P @ drop pl b) (28 + int pl) (w_host r) (int hl) = Inr (h @ P @ H @ drop (pl + hl) b)"
    using copy_in_nat [of "h @ P" hl "drop pl b" "w_host r"] hl l len by (simp add: H_def add.commute)
  have c3: "copy_in (h @ P @ H @ drop (pl + hl) b) (28 + int pl + int hl) (w_pattern r) (int tl) =
      Inr (h @ P @ H @ T @ drop (pl + hl + tl) b)"
    using copy_in_nat [of "h @ P @ H" tl "drop (pl + hl) b" "w_pattern r"] hl l len by (simp add: T_def ac_simps)
  have "drop (28 + length (rec_strings r)) buf = drop (pl + hl + tl) b" using len by (simp add: b_def ac_simps)
  then show ?thesis
    using w c1 c2 c3 len by (simp add: wlog_rec_pack_def Let_def f DISK_SIZE_def h_def [symmetric])
qed

lemma unpack_ok:
  assumes "wf_rec r"
  shows "wlog_rec_unpack (rec_header r buf @ rec_strings r @ t) = Inr r"
proof -
  obtain pl hl tl where l: "w_pathlen r = int pl" "w_hostlen r = int hl" "w_patternlen r = int tl"
    "pl < 128" "hl \<le> 9" "tl < 64" "length (w_path r) = 129" "length (w_host r) = 9" "length (w_pattern r) = 65"
    and z: "w_path r = take pl (w_path r) @ replicate (129 - pl) NUL" "w_host r = take hl (w_host r) @ replicate (9 - hl) NUL"
    "w_pattern r = take tl (w_pattern r) @ replicate (65 - tl) NUL"
    by (rule wf_lengths [OF assms(1)])
  define P H T where "P = take pl (w_path r)" and "H = take hl (w_host r)" and "T = take tl (w_pattern r)"
  have len: "length P = pl" "length H = hl" "length T = tl" "rec_strings r = P @ H @ T"
    using l by (simp_all add: P_def H_def T_def rec_strings_def)
  define h where "h = rec_header r buf"
  have hl: "length h = 28" by (simp add: h_def)
  note f = header_fields [OF assms(1), of buf "(P @ H @ T) @ t", folded h_def, unfolded l(1-3)]
  have c1: "copy_out (WLOG_MAX_PATH + 1) (h @ (P @ H @ T) @ t) 28 (int pl) = Inr (w_path r)"
    using copy_out_nat [of pl 129 P h "H @ T @ t"] hl l len z(1) [folded P_def] by (simp add: WLOG_MAX_PATH_def)
  have c2: "copy_out (WLOG_MAX_HOST + 1) (h @ (P @ H @ T) @ t) (28 + int pl) (int hl) = Inr (w_host r)"
    using copy_out_nat [of hl 9 H "h @ P" "T @ t"] hl l len z(2) [folded H_def] by (simp add: WLOG_MAX_HOST_def)
  have c3: "copy_out (WLOG_MAX_PATTERN + 1) (h @ (P @ H @ T) @ t) (28 + int pl + int hl) (int tl) = Inr (w_pattern r)"
    using copy_out_nat [of tl 65 T "h @ P @ H" "t"] hl l len z(3) [folded T_def] by (simp add: WLOG_MAX_PATTERN_def add.assoc)
  show ?thesis
    unfolding len(4) h_def [symmetric]
    by (simp only: wlog_rec_unpack_def Let_def f DISK_SIZE_def c1 c2 c3 bindr_simps) (simp add: l(1-3) [symmetric])
qed

section \<open>Encodings of records\<close>

text \<open>Bytes of the file that stand for a record: the packed record, then its length in two bytes. The length is at most
  127, because the two bytes are read as signed characters.\<close>

definition encodes :: "char list \<Rightarrow> wlog_rec \<Rightarrow> bool" where
  "encodes bs r = (\<exists>d. bs = d @ [NUL, char_of (length d)] \<and> length d \<le> 127 \<and> (\<forall>t. wlog_rec_unpack (d @ t) = Inr r))"

definition short_rec :: "wlog_rec \<Rightarrow> bool" where
  "short_rec r = (wf_rec r \<and> w_pathlen r + w_hostlen r + w_patternlen r \<le> 99)"

lemma short_recD:
  assumes "short_rec r"
  shows "wf_rec r" "length (rec_strings r) \<le> 99"
proof -
  show w: "wf_rec r" using assms by (simp add: short_rec_def)
  obtain pl hl tl where "w_pathlen r = int pl" "w_hostlen r = int hl" "w_patternlen r = int tl" by (rule wf_lengths [OF w])
  then show "length (rec_strings r) \<le> 99" using assms by (auto simp: short_rec_def rec_strings_def min_def)
qed

lemma encodes_header:
  assumes "short_rec r" "rec_strings r = t"
  shows "encodes (rec_header r buf @ t @ [NUL, char_of (28 + length t)]) r"
proof -
  have "wlog_rec_unpack ((rec_header r buf @ t) @ u) = Inr r" for u
    using unpack_ok [OF short_recD(1) [OF assms(1)], of buf u] assms(2) by simp
  then show ?thesis
    using short_recD(2) [OF assms(1)] assms(2) by (auto simp: encodes_def intro!: exI [of _ "rec_header r buf @ t"])
qed

lemma encodes_length: "encodes bs r \<Longrightarrow> 0 < length bs \<and> length bs \<le> 129"
  by (auto simp: encodes_def)

lemma char_of_0: "char_of (0 :: nat) = NUL"
  by code_simp

text \<open>The bytes that writing a record produces; the unused bits of the header are those of the old buffer.\<close>

definition packed :: "char list \<Rightarrow> wlog_rec \<Rightarrow> bool" where
  "packed bs r = (short_rec r \<and> (\<exists>buf. bs = rec_header r buf @ rec_strings r @ [NUL, char_of (28 + length (rec_strings r))]))"

lemma packed_encodes: "packed bs r \<Longrightarrow> encodes bs r"
  by (auto simp: packed_def intro: encodes_header)

lemma packed_length: "packed bs r \<Longrightarrow> length bs = 30 + length (rec_strings r)"
  by (auto simp: packed_def)

lemma wbuf_size: "WLOG_REC_MAX_SIZE + 2 = 452"
  by (simp add: WLOG_REC_MAX_SIZE_def WLOG_MAX_PATH_def WLOG_MAX_PATTERN_def WLOG_MAX_HOST_def)

lemma append_ok:
  assumes "short_rec r" "length wbuf = WLOG_REC_MAX_SIZE + 2"
  obtains bs where "packed bs r"
    "wlog_record_write wbuf True file r (- 1) = Inr (int_of_uint (uint_of (int (length file))), file @ bs)"
proof -
  define n d where "n = 28 + length (rec_strings r)" and "d = rec_header r wbuf @ rec_strings r"
  have n: "n \<le> 127" "length wbuf = 452" "length d = n"
    using short_recD(2) [OF assms(1)] assms(2) wbuf_size by (simp_all add: n_def d_def)
  have p: "wlog_rec_pack r wbuf True = Inr (int n, d @ drop n wbuf)"
    using pack_ok [OF short_recD(1) [OF assms(1)], of wbuf] n by (simp add: n_def d_def)
  have "mem_write (d @ drop n wbuf) (int n) [char_of (nat (int n div 256)), char_of (nat (int n mod 256))] =
      Inr ((d @ [NUL, char_of n]) @ drop (n + 2) wbuf)"
    using mem_write_nat [of n "[char_of (nat (int n div 256)), char_of (nat (int n mod 256))]" "d @ drop n wbuf"] n
    by (simp add: zdiv_int [symmetric] zmod_int [symmetric] nat_int add.commute char_of_0)
  moreover have "mem_read ((d @ [NUL, char_of n]) @ drop (n + 2) wbuf) 0 (int n + 2) = Inr (d @ [NUL, char_of n])"
    using mem_read_nat [of 0 "n + 2" "(d @ [NUL, char_of n]) @ drop (n + 2) wbuf"] n by (simp add: add.commute)
  ultimately have "wlog_record_write wbuf True file r (- 1) =
      Inr (int_of_uint (uint_of (int (length file))), file @ d @ [NUL, char_of n])"
    by (simp add: wlog_record_write_def p)
  moreover have "packed (d @ [NUL, char_of n]) r" using assms(1) by (auto simp: packed_def d_def n_def)
  ultimately show thesis by (rule that [rotated])
qed

text \<open>Overwriting the fixed part of a record by one with the same strings.\<close>

lemma overlay_ok:
  assumes "packed bs r" "short_rec r'" "rec_strings r' = rec_strings r" "length wbuf = WLOG_REC_MAX_SIZE + 2"
  obtains bs' where "packed bs' r'"
    "wlog_record_write wbuf True (f1 @ bs @ f2) r' (int (length f1)) =
       Inr (int_of_uint (uint_of (int (length f1))), f1 @ bs' @ f2)"
proof -
  let ?t = "rec_strings r @ [NUL, char_of (28 + length (rec_strings r))]"
  obtain buf where bs: "bs = rec_header r buf @ ?t" using assms(1) by (auto simp: packed_def)
  have n: "length wbuf = 452" using assms(4) wbuf_size by simp
  have p: "wlog_rec_pack r' wbuf False = Inr (28, rec_header r' wbuf @ drop 28 wbuf)"
    using mem_write_nat [of 0 "rec_header r' wbuf" wbuf] n
    by (simp add: wlog_rec_pack_def DISK_SIZE_def rec_header_def disk_words_def)
  have rd: "mem_read (rec_header r' wbuf @ drop 28 wbuf) 0 28 = Inr (rec_header r' wbuf)"
    using mem_read_nat [of 0 28 "rec_header r' wbuf @ drop 28 wbuf"] n by simp
  have "wlog_record_write wbuf True (f1 @ bs @ f2) r' (int (length f1)) =
      Inr (int_of_uint (uint_of (int (length f1))), f1 @ (rec_header r' wbuf @ ?t) @ f2)"
    by (simp add: wlog_record_write_def p rd file_write_def Let_def bs)
  moreover have "packed (rec_header r' wbuf @ ?t) r'" using assms(2,3) by (auto simp: packed_def)
  ultimately show thesis by (rule that [rotated])
qed

section \<open>Scanning one buffer\<close>

definition visit :: "'s user_fun \<Rightarrow> wlog_rec list \<Rightarrow> 's \<Rightarrow> 's" where
  "visit func rs u = fold (\<lambda>r u. snd (func r u)) rs u"

definition never_stops :: "'s user_fun \<Rightarrow> bool" where
  "never_stops func = (\<forall>r u. fst (func r u) \<noteq> WLOG_STOP_SCAN)"

lemma keep_rest_ok:
  assumes "length ys \<le> length (s_buf s)" "take (length ys) (drop a (s_buf s)) = ys" "a + length ys \<le> length (s_buf s)"
  shows "keep_rest (int a) (int a + int (length ys)) s =
     Inr (s\<lparr>s_buf := take (length (s_buf s) - length ys) (s_buf s) @ ys, s_leftover := int (length ys)\<rparr>)"
proof -
  have "int (length (s_buf s)) - int (length ys) = int (length (s_buf s) - length ys)" using assms(1) by simp
  then show ?thesis
    using assms memcpy_nat [of a "length ys" "s_buf s" "length (s_buf s) - length ys" "s_buf s"]
    by (simp add: keep_rest_def Let_def del: of_nat_diff)
qed

text \<open>The last record of the part in the buffer is passed to the user function.\<close>

lemma scan_buffer_step:
  assumes "encodes bs r" "take (length zs + length bs) (drop a (s_buf s)) = zs @ bs"
    "a + length zs + length bs \<le> length (s_buf s)" "length (s_albuf s) = WLOG_REC_MAX_SIZE"
  obtains al where "length al = WLOG_REC_MAX_SIZE"
    "scan_buffer (Suc fuel) func nrecs (int a) (int a + int (length zs) + int (length bs)) s =
       (let (rval, u) = func r (s_user s); s = s\<lparr>s_albuf := al, s_user := u\<rparr> in
        if rval = WLOG_STOP_SCAN then Inr s
        else
          let s = s\<lparr>s_recnum := s_recnum s + 1\<rparr> in
          if nrecs \<noteq> 0 \<and> s_recnum s \<ge> nrecs then Inr s
          else scan_buffer fuel func nrecs (int a) (int a + int (length zs)) s)"
proof -
  obtain d where d: "bs = d @ [NUL, char_of (length d)]" "length d \<le> 127" "\<And>t. wlog_rec_unpack (d @ t) = Inr r"
    using assms(1) unfolding encodes_def by blast
  define al where "al = d @ drop (length d) (s_albuf s)"
  let ?p = "a + length zs"
  have buf: "drop a (s_buf s) = (zs @ bs) @ drop (a + length zs + length bs) (s_buf s)"
    using assms(2) by (metis append_take_drop_id drop_drop add.commute add.left_commute)
  have dp: "drop ?p (s_buf s) = bs @ drop (?p + length bs) (s_buf s)"
    using arg_cong [OF buf, of "drop (length zs)"] by (simp add: add.commute)
  have rd: "mem_read (s_buf s) (int ?p + int (length d)) 2 = Inr [NUL, char_of (length d)]"
    using mem_read_nat [of "?p + length d" 2 "s_buf s"] assms(3) arg_cong [OF dp, of "drop (length d)"] d(1)
    by (simp add: ac_simps)
  have sch: "schar NUL = 0" "schar (char_of (length d)) = int (length d)"
    using d(2) schar_eq [of 0 NUL] schar_eq [of "length d" "char_of (length d)"] by (simp_all add: char_of_0)
  have mc: "memcpy (s_albuf s) 0 (s_buf s) (int ?p) (int (length d)) = Inr al"
    using memcpy_nat [of ?p "length d" "s_buf s" 0 "s_albuf s"] assms(3,4) d(1,2) dp
    by (simp add: al_def WLOG_REC_MAX_SIZE_def)
  have "length al = WLOG_REC_MAX_SIZE" using assms(4) d(2) by (simp add: al_def WLOG_REC_MAX_SIZE_def)
  moreover have "wlog_rec_unpack al = Inr r" unfolding al_def by (rule d(3))
  moreover have "int a + int (length zs) + int (length bs) = int ?p + int (length d) + 2" using d(1) by simp
  ultimately show thesis
    using rd mc sch by (intro that [of al]) (simp_all add: Let_def algebra_simps split: prod.split)
qed

type_synonym log_entries = "(char list \<times> wlog_rec) list"

definition bytes_of :: "log_entries \<Rightarrow> char list" where
  "bytes_of es = concat (map fst es)"

definition good_entries :: "log_entries \<Rightarrow> bool" where
  "good_entries es = (\<forall>(bs, r) \<in> set es. encodes bs r)"

lemma bytes_of_simps [simp]: "bytes_of [] = []" "bytes_of (es @ fs) = bytes_of es @ bytes_of fs" "bytes_of [e] = fst e"
  by (simp_all add: bytes_of_def)

text \<open>A part that begins inside its only record is kept for the next round.\<close>

lemma scan_buffer_keep:
  assumes "encodes bs r" "bs = ws @ ys" "ws \<noteq> []" "take (length ys) (drop a (s_buf s)) = ys" "a + length ys \<le> length (s_buf s)"
  shows "scan_buffer (Suc fuel) func nrecs (int a) (int a + int (length ys)) s = keep_rest (int a) (int a + int (length ys)) s"
proof (cases "length ys < 2")
  case False
  obtain d where d: "bs = d @ [NUL, char_of (length d)]" "length d \<le> 127" using assms(1) unfolding encodes_def by blast
  define k where "k = length ys - 2"
  have k: "length ys = k + 2" using False by (simp add: k_def)
  have len: "length d + 2 = length ws + length ys" using arg_cong [OF assms(2), of length] d(1) by simp
  have "drop k ys = drop (length ws + k) (ws @ ys)" by simp
  also have "\<dots> = [NUL, char_of (length d)]" unfolding assms(2) [symmetric] d(1) using len k by simp
  finally have "drop k ys = [NUL, char_of (length d)]" .
  moreover have "take 2 (drop (a + k) (s_buf s)) = drop k ys"
    using arg_cong [OF assms(4), of "drop k"] k by (simp add: drop_take add.commute)
  ultimately have rd: "mem_read (s_buf s) (int a + int k) 2 = Inr [NUL, char_of (length d)]"
    using mem_read_nat [of "a + k" 2 "s_buf s"] assms(5) k by simp
  have sch: "schar NUL = 0" "schar (char_of (length d)) = int (length d)"
    using d(2) schar_eq [of 0 NUL] schar_eq [of "length d" "char_of (length d)"] by (simp_all add: char_of_0)
  have "int (length ys) < int (length d) + 2" using len assms(3) by (cases ws) auto
  then show ?thesis using k rd sch by (simp add: Let_def algebra_simps)
qed simp

lemma suffix_short:
  assumes "as @ bs = xs @ ys" "length ys < length bs"
  obtains ws where "bs = ws @ ys" "ws \<noteq> []"
proof -
  have n: "length as < length xs" "length xs \<le> length as + length bs"
    using arg_cong [OF assms(1), of length] assms(2) by auto
  have "ys = drop (length xs) (as @ bs)" by (simp add: assms(1))
  then have "ys = drop (length xs - length as) bs" using n by simp
  moreover have "take (length xs - length as) bs \<noteq> []" using n assms(2) by auto
  ultimately show thesis by (intro that [of "take (length xs - length as) bs"]) simp_all
qed

lemma suffix_long:
  assumes "as @ bs = xs @ ys" "length bs \<le> length ys"
  obtains zs where "ys = zs @ bs" "as = xs @ zs"
proof -
  have n: "length xs \<le> length as" using arg_cong [OF assms(1), of length] assms(2) by auto
  have "ys = drop (length xs) (as @ bs)" "xs = take (length xs) (as @ bs)" by (simp_all add: assms(1))
  then have "ys = drop (length xs) as @ bs" "xs = take (length xs) as" using n by simp_all
  then show thesis by (intro that [of "drop (length xs) as"]) (simp, metis append_take_drop_id)
qed

text \<open>What scanning the buffer leaves: the entries \<open>es2\<close> at the end are visited, from the last to the first; either enough
  records are visited, or the bytes that remain in the buffer are at its end and shorter than the next record.\<close>

definition rest_kept :: "char list \<Rightarrow> nat \<Rightarrow> 's wlog_scan \<Rightarrow> log_entries \<Rightarrow> bool" where
  "rest_kept xs n s es1 =
     (\<exists>ys. bytes_of es1 = xs @ ys \<and> s_leftover s = int (length ys) \<and> length ys \<le> n \<and> drop (n - length ys) (s_buf s) = ys
       \<and> (es1 = [] \<or> length ys < length (fst (last es1))))"

definition scanned :: "'s user_fun \<Rightarrow> int \<Rightarrow> char list \<Rightarrow> 's wlog_scan \<Rightarrow> 's wlog_scan \<Rightarrow> log_entries \<Rightarrow> log_entries \<Rightarrow> bool" where
  "scanned func nrecs xs s s' es1 es2 =
     (s_user s' = visit func (rev (map snd es2)) (s_user s) \<and> s_recnum s' = s_recnum s + int (length es2)
      \<and> length (s_buf s') = length (s_buf s) \<and> length (s_albuf s') = WLOG_REC_MAX_SIZE
      \<and> (nrecs \<noteq> 0 \<and> s_recnum s' = nrecs
         \<or> (nrecs = 0 \<or> s_recnum s' < nrecs) \<and> rest_kept xs (length (s_buf s)) s' es1))"

lemma scanned_more:
  assumes "scanned func nrecs xs s1 s' es1 es2" "s1 = s\<lparr>s_albuf := al, s_user := snd (func r (s_user s)), s_recnum := s_recnum s + 1\<rparr>"
  shows "scanned func nrecs xs s s' es1 (es2 @ [(bs, r)])"
  using assms by (auto simp: scanned_def visit_def)

lemma scanned_keep:
  assumes "length ys \<le> length (s_buf s)" "bytes_of es = xs @ ys" "es = [] \<or> length ys < length (fst (last es))"
    "nrecs = 0 \<or> s_recnum s < nrecs" "length (s_albuf s) = WLOG_REC_MAX_SIZE"
  shows "scanned func nrecs xs s
     (s\<lparr>s_buf := take (length (s_buf s) - length ys) (s_buf s) @ ys, s_leftover := int (length ys)\<rparr>) es []"
proof -
  have "rest_kept xs (length (s_buf s))
      (s\<lparr>s_buf := take (length (s_buf s) - length ys) (s_buf s) @ ys, s_leftover := int (length ys)\<rparr>) es"
    unfolding rest_kept_def using assms by (intro exI [of _ ys]) simp
  then show ?thesis using assms by (simp add: scanned_def visit_def)
qed

lemma scan_buffer_ok:
  assumes "good_entries es" "bytes_of es = xs @ ys" "take (length ys) (drop a (s_buf s)) = ys"
    "a + length ys \<le> length (s_buf s)" "length (s_albuf s) = WLOG_REC_MAX_SIZE" "never_stops func" "length ys < fuel"
    "nrecs = 0 \<or> s_recnum s < nrecs"
  shows "\<exists>es1 es2 s'. es = es1 @ es2 \<and> scan_buffer fuel func nrecs (int a) (int a + int (length ys)) s = Inr s'
    \<and> scanned func nrecs xs s s' es1 es2"
  using assms
proof (induction es arbitrary: ys s fuel rule: rev_induct)
  case Nil
  obtain f where f: "fuel = Suc f" using Nil.prems(7) by (cases fuel) auto
  have "keep_rest (int a) (int a) s = Inr (s\<lparr>s_buf := take (length (s_buf s) - length []) (s_buf s) @ [], s_leftover := int (length [])\<rparr>)"
    using keep_rest_ok [of "[]" s a] Nil.prems(4) by simp
  then show ?case
    using Nil.prems f scanned_keep [of "[]" s "[]" xs nrecs func] by (intro exI conjI) simp_all
next
  case (snoc e es)
  obtain bs r where e: "e = (bs, r)" by (cases e)
  have enc: "encodes bs r" and good: "good_entries es" using snoc.prems(1) by (auto simp: good_entries_def e)
  obtain f where f: "fuel = Suc f" using snoc.prems(7) by (cases fuel) auto
  have cc: "bytes_of es @ bs = xs @ ys" using snoc.prems(2) by (simp add: e)
  show ?case
  proof (cases "length ys < length bs")
    case True
    obtain ws where ws: "bs = ws @ ys" "ws \<noteq> []" by (rule suffix_short [OF cc True])
    let ?s = "s\<lparr>s_buf := take (length (s_buf s) - length ys) (s_buf s) @ ys, s_leftover := int (length ys)\<rparr>"
    have l: "length ys \<le> length (s_buf s)" using snoc.prems(4) by simp
    have "scan_buffer fuel func nrecs (int a) (int a + int (length ys)) s = Inr ?s"
      unfolding f scan_buffer_keep [OF enc ws snoc.prems(3,4)] by (rule keep_rest_ok [OF l snoc.prems(3,4)])
    moreover have "scanned func nrecs xs s ?s (es @ [e]) []"
      by (rule scanned_keep [OF l snoc.prems(2) _ snoc.prems(8,5)]) (simp add: e True)
    ultimately show ?thesis by (intro exI [of _ "es @ [e]"] exI [of _ "[]"] exI [of _ ?s]) simp
  next
    case False
    obtain zs where zs: "ys = zs @ bs" "bytes_of es = xs @ zs" by (rule suffix_long [OF cc]) (use False in simp)
    have len: "length ys = length zs + length bs" "0 < length bs" using zs encodes_length [OF enc] by auto
    have tk: "take (length zs + length bs) (drop a (s_buf s)) = zs @ bs" using snoc.prems(3) len zs(1) by simp
    have le: "a + length zs + length bs \<le> length (s_buf s)" using snoc.prems(4) len by simp
    obtain al where al: "length al = WLOG_REC_MAX_SIZE"
      "scan_buffer (Suc f) func nrecs (int a) (int a + int (length zs) + int (length bs)) s =
       (let (rval, u) = func r (s_user s); s = s\<lparr>s_albuf := al, s_user := u\<rparr> in
        if rval = WLOG_STOP_SCAN then Inr s
        else
          let s = s\<lparr>s_recnum := s_recnum s + 1\<rparr> in
          if nrecs \<noteq> 0 \<and> s_recnum s \<ge> nrecs then Inr s
          else scan_buffer f func nrecs (int a) (int a + int (length zs)) s)"
      by (rule scan_buffer_step [OF enc tk le snoc.prems(5)])
    define s1 where "s1 = s\<lparr>s_albuf := al, s_user := snd (func r (s_user s)), s_recnum := s_recnum s + 1\<rparr>"
    have "fst (func r (s_user s)) \<noteq> WLOG_STOP_SCAN" using snoc.prems(6) by (simp add: never_stops_def)
    then have st: "scan_buffer fuel func nrecs (int a) (int a + int (length ys)) s =
        (if nrecs \<noteq> 0 \<and> s_recnum s1 \<ge> nrecs then Inr s1 else scan_buffer f func nrecs (int a) (int a + int (length zs)) s1)"
      using al(2) unfolding f len(1) of_nat_add add.assoc [symmetric]
      by (cases "func r (s_user s)") (simp add: Let_def s1_def del: scan_buffer.simps)
    show ?thesis
    proof (cases "nrecs \<noteq> 0 \<and> s_recnum s1 \<ge> nrecs")
      case True
      then have "scanned func nrecs xs s s1 es [(bs, r)]"
        using al(1) snoc.prems(8) by (auto simp: scanned_def s1_def visit_def)
      then show ?thesis using st True by (intro exI [of _ es] exI [of _ "[e]"] exI [of _ s1]) (simp add: e)
    next
      case more: False
      have tk: "take (length zs) (drop a (s_buf s1)) = zs"
        using arg_cong [OF snoc.prems(3), of "take (length zs)"] zs(1) by (simp add: s1_def)
      have zf: "length zs < f" using len snoc.prems(7) f by linarith
      have "\<exists>es1 es2 s'. es = es1 @ es2 \<and> scan_buffer f func nrecs (int a) (int a + int (length zs)) s1 = Inr s'
          \<and> scanned func nrecs xs s1 s' es1 es2"
        using le al(1) zf more by (intro snoc.IH [OF good zs(2) tk _ _ snoc.prems(6)]) (auto simp: s1_def)
      then obtain es1 es2 s' where a: "es = es1 @ es2"
          "scan_buffer f func nrecs (int a) (int a + int (length zs)) s1 = Inr s'" "scanned func nrecs xs s1 s' es1 es2"
        by (elim exE conjE) (rule that)
      have "scanned func nrecs xs s s' es1 (es2 @ [(bs, r)])" by (rule scanned_more [OF a(3) s1_def])
      then show ?thesis using st more a(1,2) by (intro exI [of _ es1] exI [of _ "es2 @ [e]"] exI [of _ s']) (simp add: e)
    qed
  qed
qed

section \<open>Scanning the file\<close>

text \<open>The part of the file in front of the visited records is \<open>take (off + L) file\<close>, of which the last \<open>L\<close> bytes are kept at
  the end of the buffer.\<close>

lemma visit_append: "visit func (rs @ rs') u = visit func rs' (visit func rs u)"
  by (simp add: visit_def)

lemma take_count:
  assumes "k = int (length es2)" "nrecs = 0 \<or> rn + k \<le> nrecs" "0 \<le> k"
  shows "take (if nrecs = 0 then length (es1 @ es2) else nat (nrecs - rn)) (rev (map snd (es1 @ es2))) =
     rev (map snd es2) @ take (if nrecs = 0 then length es1 else nat (nrecs - (rn + k))) (rev (map snd es1))"
proof -
  have "nrecs \<noteq> 0 \<Longrightarrow> nat (nrecs - rn) = length es2 + nat (nrecs - (rn + k))" using assms by auto
  then show ?thesis by (auto simp: take_map)
qed

lemma good_append: "good_entries (es @ fs) = (good_entries es \<and> good_entries fs)"
  by (auto simp: good_entries_def)

lemma last_length:
  assumes "good_entries es" "es \<noteq> []"
  shows "length (fst (last es)) \<le> 129" "length (fst (last es)) \<le> length (bytes_of es)"
proof -
  obtain fs e where e: "es = fs @ [e]" using assms(2) by (cases es rule: rev_cases) auto
  then show "length (fst (last es)) \<le> length (bytes_of es)" by simp
  have "encodes (fst e) (snd e)" using assms(1) e by (auto simp: good_entries_def)
  then show "length (fst (last es)) \<le> 129" using encodes_length e by simp
qed

text \<open>One round: the bytes in front of the kept ones are read, and the buffer is scanned.\<close>

definition goal_visit :: "'s user_fun \<Rightarrow> int \<Rightarrow> 's wlog_scan \<Rightarrow> log_entries \<Rightarrow> 's" where
  "goal_visit func nrecs s es =
     visit func (take (if nrecs = 0 then length es else nat (nrecs - s_recnum s)) (rev (map snd es))) (s_user s)"

lemma goal_visit_split:
  assumes "scanned func nrecs xs s s' es1 es2"
  shows "goal_visit func nrecs s (es1 @ es2) = goal_visit func nrecs s' es1"
proof -
  have *: "s_user s' = visit func (rev (map snd es2)) (s_user s)" "s_recnum s' = s_recnum s + int (length es2)"
    "nrecs = 0 \<or> s_recnum s' \<le> nrecs"
    using assms by (auto simp: scanned_def)
  have "nrecs = 0 \<or> s_recnum s + int (length es2) \<le> nrecs" using *(2,3) by simp
  from take_count [OF refl this, of es1] show ?thesis
    by (simp add: goal_visit_def * visit_append flip: *(2))
qed

text \<open>Between two rounds.\<close>

definition at_place :: "char list \<Rightarrow> 's wlog_scan \<Rightarrow> log_entries \<Rightarrow> nat \<Rightarrow> char list \<Rightarrow> bool" where
  "at_place file s es off ys =
     (good_entries es \<and> bytes_of es = take (off + length ys) file \<and> off + length ys \<le> length file
      \<and> drop off (take (off + length ys) file) = ys \<and> s_leftover s = int (length ys) \<and> length ys < length (s_buf s)
      \<and> drop (length (s_buf s) - length ys) (s_buf s) = ys \<and> length (s_albuf s) = WLOG_REC_MAX_SIZE)"

text \<open>The bytes read, in front of the kept ones, fill the buffer from \<open>a\<close> on with the bytes of the file from \<open>off'\<close> on.\<close>

lemma read_round:
  assumes "off + length ys \<le> length file" "drop off (take (off + length ys) file) = ys" "drop (N - length ys) buf = ys"
    "length buf = N" "length ys \<le> N" "off' \<le> off" "a + (off + length ys - off') = N"
  defines "zs \<equiv> drop off' (take (off + length ys) file)"
  shows "mem_write buf (int a) (take (off - off') (drop off' file)) = Inr (take a buf @ zs)" "length zs = off + length ys - off'"
proof -
  define new where "new = take (off - off') (drop off' file)"
  have "zs = take (off - off' + length ys) (drop off' file)" using assms(6) by (simp add: zs_def drop_take)
  also have "\<dots> = new @ take (length ys) (drop off file)" unfolding take_add new_def using assms(6) by simp
  also have "take (length ys) (drop off file) = ys" using assms(2) by (simp add: drop_take)
  finally have zs: "zs = new @ ys" .
  have new: "length new = off - off'" using assms(1,6) by (simp add: new_def)
  then show "length zs = off + length ys - off'" using zs assms(6) by simp
  have "a + length new = N - length ys" using new assms(5-7) by simp
  then show "mem_write buf (int a) (take (off - off') (drop off' file)) = Inr (take a buf @ zs)"
    using mem_write_nat [of a new buf] assms(3,4) unfolding new_def [symmetric] zs by simp
qed

lemma scan_round:
  assumes at: "at_place file s es off ys" and "never_stops func" "nrecs = 0 \<or> s_recnum s < nrecs" "0 < off"
  obtains a off' es1 es2 s' where "off' < off" "a = 0 \<or> off' = 0" "es = es1 @ es2"
    "scanned func nrecs (take off' file) s s' es1 es2"
    "scan_file (Suc fuel) func nrecs file 0 (int off) s = scan_file fuel func nrecs file (int a) (int off') s'"
proof -
  note at' = at [unfolded at_place_def]
  define N where "N = length (s_buf s)"
  define a off' where "a = (if off + length ys < N then N - (off + length ys) else 0)"
    and "off' = (if off + length ys < N then 0 else off - (N - length ys))"
  define zs where "zs = drop off' (take (off + length ys) file)"
  have n: "off' < off" "a + (off + length ys - off') = N" "length ys < N" "a = 0 \<or> off' = 0"
    using at' assms(4) by (auto simp: a_def off'_def N_def)
  have co: "(if int off + s_leftover s < int N then (int N - (int off + s_leftover s), 0)
             else (0, int off - (int N - s_leftover s))) = (int a, int off')"
    using at' n(3) by (auto simp: a_def off'_def)
  have "nat (int N - int a - s_leftover s) = off - off'" using at' n by linarith
  then have rd: "file_read file (int off') (int N - int a - s_leftover s) = take (off - off') (drop off' file)"
    by (simp add: file_read_def)
  have wr: "mem_write (s_buf s) (int a) (take (off - off') (drop off' file)) = Inr (take a (s_buf s) @ zs)"
    and lz: "length zs = off + length ys - off'"
    unfolding zs_def using at' n(1,3) by (intro read_round [OF _ _ _ _ _ _ n(2)]; simp add: N_def)+
  define s0 where "s0 = s\<lparr>s_buf := take a (s_buf s) @ zs, s_leftover := 0\<rparr>"
  have b: "length (s_buf s0) = N" "take (length zs) (drop a (s_buf s0)) = zs" "a + length zs = N"
    using n lz by (simp_all add: s0_def N_def)
  have "take off' (take (off + length ys) file) = take off' file" using n(1) by simp
  then have f: "bytes_of es = take off' file @ zs" using at' by (metis append_take_drop_id zs_def)
  have "\<exists>es1 es2 s'. es = es1 @ es2 \<and> scan_buffer (N + 1) func nrecs (int a) (int a + int (length zs)) s0 = Inr s'
      \<and> scanned func nrecs (take off' file) s0 s' es1 es2"
    using at' b assms(3) by (intro scan_buffer_ok [OF _ f b(2) _ _ assms(2)]) (simp_all add: s0_def)
  then obtain es1 es2 s' where sc: "es = es1 @ es2"
      "scan_buffer (N + 1) func nrecs (int a) (int a + int (length zs)) s0 = Inr s'"
      "scanned func nrecs (take off' file) s0 s' es1 es2"
    by (elim exE conjE) (rule that)
  have "int a + int (length zs) = int N" using b(3) by simp
  then have "scan_file (Suc fuel) func nrecs file 0 (int off) s = scan_file fuel func nrecs file (int a) (int off') s'"
    using assms(3,4) co rd wr sc(2) by (simp add: Let_def N_def [symmetric] s0_def)
  moreover have "scanned func nrecs (take off' file) s s' es1 es2"
    using sc(3) b(1) by (auto simp: scanned_def s0_def N_def)
  ultimately show thesis using that n(1,4) sc(1) by blast
qed

text \<open>A round that did not end the scan leaves the next place, or nothing.\<close>

lemma next_place:
  assumes "at_place file s es off ys" "es = es1 @ es2" "rest_kept (take off' file) (length (s_buf s)) s' es1" "off' < off"
    "length (s_buf s') = length (s_buf s)" "length (s_albuf s') = WLOG_REC_MAX_SIZE" "129 \<le> length (s_buf s)"
  shows "(off' = 0 \<longrightarrow> es1 = []) \<and> (\<exists>ys'. at_place file s' es1 off' ys')"
proof -
  note at' = assms(1) [unfolded at_place_def]
  obtain ys' where k: "bytes_of es1 = take off' file @ ys'" "s_leftover s' = int (length ys')"
      "drop (length (s_buf s) - length ys') (s_buf s') = ys'" "es1 = [] \<or> length ys' < length (fst (last es1))"
    using assms(3) unfolding rest_kept_def by blast
  have good: "good_entries es1" using at' assms(2) by (simp add: good_append)
  have len: "length (bytes_of es1) = off' + length ys'" using k(1) at' assms(4) by simp
  have "es1 = []" if "off' = 0"
    using that k(1,4) last_length(2) [OF good] by fastforce
  moreover have "length ys' < length (s_buf s')"
  proof (cases "es1 = []")
    case True
    then have "length ys' = 0" using k(1) by simp
    then show ?thesis using assms(5,7) by linarith
  next
    case False
    then have "length ys' < 129" using k(4) last_length(1) [OF good] by auto
    then show ?thesis using assms(5,7) by linarith
  qed
  moreover have le: "off' + length ys' \<le> off + length ys" "off' + length ys' \<le> length file"
    using at' len arg_cong [OF assms(2), of "length \<circ> bytes_of"] by simp_all
  moreover have pre: "bytes_of es1 = take (off' + length ys') file"
  proof -
    have "bytes_of es1 = take (length (bytes_of es1)) (bytes_of es)" by (simp add: assms(2))
    also have "\<dots> = take (off' + length ys') (take (off + length ys) file)" using at' len by simp
    finally show ?thesis using le(1) by simp
  qed
  moreover have "drop off' (take (off' + length ys') file) = ys'"
    unfolding pre [symmetric] k(1) using at' assms(4) by simp
  moreover have "drop (length (s_buf s') - length ys') (s_buf s') = ys'" using k(3) assms(5) by simp
  ultimately have "at_place file s' es1 off' ys'" "off' = 0 \<longrightarrow> es1 = []"
    unfolding at_place_def using good k(2) assms(6) by simp_all
  then show ?thesis by blast
qed

lemma scan_file_ok:
  assumes "at_place file s es off ys" "129 \<le> length (s_buf s)" "never_stops func" "off < fuel"
    "nrecs = 0 \<or> s_recnum s \<le> nrecs" "off = 0 \<longrightarrow> es = []"
  shows "\<exists>s'. scan_file fuel func nrecs file 0 (int off) s = Inr s' \<and> s_user s' = goal_visit func nrecs s es"
  using assms
proof (induction fuel arbitrary: es off ys s)
  case (Suc fuel)
  show ?case
  proof (cases "(nrecs = 0 \<or> s_recnum s < nrecs) \<and> 0 < off")
    case False
    then have "goal_visit func nrecs s es = s_user s" using Suc.prems(5,6) by (auto simp: goal_visit_def visit_def)
    then show ?thesis using False by (auto simp: not_less)
  next
    case True
    obtain a off' es1 es2 s' where r: "off' < off" "a = 0 \<or> off' = 0" "es = es1 @ es2"
      "scanned func nrecs (take off' file) s s' es1 es2"
      "scan_file (Suc fuel) func nrecs file 0 (int off) s = scan_file fuel func nrecs file (int a) (int off') s'"
      using scan_round [OF Suc.prems(1,3), of nrecs fuel] True by metis
    have gv: "goal_visit func nrecs s es = goal_visit func nrecs s' es1"
      unfolding r(3) by (rule goal_visit_split [OF r(4)])
    obtain g where g: "fuel = Suc g" using r(1) Suc.prems(4) by (cases fuel) auto
    have fin: "scan_file fuel func nrecs file (int a) (int off') s' = Inr s'" if "nrecs \<noteq> 0 \<and> s_recnum s' = nrecs \<or> off' = 0"
      using that by (auto simp: g)
    show ?thesis
    proof (cases "nrecs \<noteq> 0 \<and> s_recnum s' = nrecs")
      case True
      then have "goal_visit func nrecs s' es1 = s_user s'" by (simp add: goal_visit_def visit_def)
      then show ?thesis unfolding r(5) gv using fin True by simp
    next
      case False
      then have k: "rest_kept (take off' file) (length (s_buf s)) s' es1" "nrecs = 0 \<or> s_recnum s' \<le> nrecs"
        "length (s_buf s') = length (s_buf s)" "length (s_albuf s') = WLOG_REC_MAX_SIZE"
        using r(4) by (auto simp: scanned_def)
      obtain ys' where ys': "off' = 0 \<longrightarrow> es1 = []" "at_place file s' es1 off' ys'"
        using next_place [OF Suc.prems(1) r(3) k(1) r(1) k(3,4) Suc.prems(2)] by blast
      show ?thesis
      proof (cases "off' = 0")
        case True
        then have "goal_visit func nrecs s' es1 = s_user s'" using ys'(1) by (simp add: goal_visit_def visit_def)
        then show ?thesis unfolding r(5) gv using fin True by simp
      next
        case False
        then have "a = 0" using r(2) by simp
        moreover have "\<exists>s''. scan_file fuel func nrecs file 0 (int off') s' = Inr s'' \<and> s_user s'' = goal_visit func nrecs s' es1"
          using r(1) Suc.prems(2,4) k(2,3) ys'(1) by (intro Suc.IH [OF ys'(2) _ Suc.prems(3)]) auto
        ultimately show ?thesis unfolding r(5) gv by simp
      qed
    qed
  qed
qed simp

lemma scan_backward_ok:
  assumes "good_entries es" "129 \<le> length buf" "length albuf = WLOG_REC_MAX_SIZE" "never_stops func" "0 \<le> nrecs"
  shows "wlog_scan_backward buf albuf (bytes_of es) nrecs func u =
     Inr (0, visit func (take (if nrecs = 0 then length es else nat nrecs) (rev (map snd es))) u)"
proof -
  let ?s = "\<lparr>s_buf = buf, s_albuf = albuf, s_leftover = 0, s_recnum = 0, s_user = u\<rparr>"
  have e: "es = []" if "bytes_of es = []"
    using that last_length(2) [OF assms(1)] encodes_length assms(1)
    by (cases es rule: rev_cases) (auto simp: good_entries_def)
  have "at_place (bytes_of es) ?s es (length (bytes_of es)) []"
    using assms by (auto simp: at_place_def)
  from scan_file_ok [OF this _ assms(4), of "length (bytes_of es) + 1" nrecs] assms(2,5) e
  show ?thesis by (auto simp: wlog_scan_backward_def goal_visit_def)
qed

section \<open>Writing and scanning\<close>

text \<open>A sequence of records appended to a file, each with the old contents of the array on the stack.\<close>

fun write_all :: "(char list \<times> wlog_rec) list \<Rightarrow> char list \<Rightarrow> mem_fault + char list" where
  "write_all [] file = Inr file"
| "write_all ((wbuf, r) # ws) file = bindr (wlog_record_write wbuf True file r (- 1)) (\<lambda>(off, file). write_all ws file)"

definition writable :: "char list \<times> wlog_rec \<Rightarrow> bool" where
  "writable w = (short_rec (snd w) \<and> length (fst w) = WLOG_REC_MAX_SIZE + 2)"

text \<open>Where record \<open>k\<close> begins.\<close>

definition record_pos :: "wlog_rec list \<Rightarrow> nat \<Rightarrow> nat" where
  "record_pos rs k = sum_list (map (\<lambda>r. 30 + length (rec_strings r)) (take k rs))"

lemma write_all_ok:
  assumes "list_all writable ws"
  shows "\<exists>es. write_all ws fl = Inr (fl @ bytes_of es) \<and> map snd es = map snd ws \<and> list_all (\<lambda>(bs, r). packed bs r) es"
  using assms
proof (induction ws arbitrary: fl)
  case Nil
  then show ?case by (intro exI [of _ "[]"]) simp
next
  case (Cons w ws)
  obtain wbuf r where w: "w = (wbuf, r)" by (cases w)
  obtain bs where bs: "packed bs r"
      "wlog_record_write wbuf True fl r (- 1) = Inr (int_of_uint (uint_of (int (length fl))), fl @ bs)"
    using append_ok [of r wbuf fl] Cons.prems by (auto simp: w writable_def)
  obtain es where es: "write_all ws (fl @ bs) = Inr ((fl @ bs) @ bytes_of es)" "map snd es = map snd ws"
      "list_all (\<lambda>(bs, r). packed bs r) es"
    using Cons.IH [of "fl @ bs"] Cons.prems by auto
  then show ?case using bs by (intro exI [of _ "(bs, r) # es"]) (simp add: w bytes_of_def)
qed

lemma packed_good: "list_all (\<lambda>(bs, r). packed bs r) es \<Longrightarrow> good_entries es"
  by (auto simp: list_all_iff good_entries_def dest: packed_encodes)

lemma packed_pos:
  "list_all (\<lambda>(bs, r). packed bs r) es \<Longrightarrow> length (bytes_of (take k es)) = record_pos (map snd es) k"
proof (induction es arbitrary: k)
  case (Cons e es)
  then show ?case by (cases k) (auto simp: bytes_of_def record_pos_def packed_length)
qed (simp add: record_pos_def)


definition demo_rec :: "int \<Rightarrow> int \<Rightarrow> wlog_rec" where
  "demo_rec pid don =
     \<lparr>w_pid = pid, w_offset = 4096, w_nbytes = 512, w_oflags = 1, w_done = don, w_async = 1,
      w_host = ''h'' @ replicate 8 NUL, w_hostlen = 1, w_path = ''/tmp/f'' @ replicate 123 NUL, w_pathlen = 6,
      w_pattern = ''ab'' @ replicate 63 NUL, w_patternlen = 2\<rparr>"

lemma demo_rec_short: "short_rec (demo_rec 7 0)" "short_rec (demo_rec 8 0)" "short_rec (demo_rec 7 1)"
  "rec_strings (demo_rec 7 1) = rec_strings (demo_rec 7 0)"
  by code_simp+


section \<open>Observations\<close>

text \<open>A record of 128 bytes or more: the low byte of its length is read as a negative number, and the record is copied from
  outside the buffer.\<close>

lemma long_record_faults:
  fixes n :: nat
  assumes "128 \<le> n" "n < 256" "2 \<le> cp - bufstart" "mem_read (s_buf s) (cp - 2) 2 = Inr [NUL, char_of n]"
  shows "scan_buffer (Suc fuel) func nrecs bufstart cp s = Inl Out_of_bounds"
proof -
  have "schar (char_of n) = int n - 256" "schar NUL = 0" using assms(1,2) by (simp_all add: schar_def Let_def)
  then show ?thesis using assms by (simp add: Let_def memcpy_def mem_read_def)
qed

text \<open>A path of 128 characters is stored with the length 0.\<close>

lemma path_128_lost:
  assumes "w_pathlen r = 128" "- (2 ^ 31) \<le> w_pid r"
  shows "disk_words r buf ! 4 div 2 ^ 17 mod 2 ^ 7 = 0"
proof -
  have "positive 128 mod 2 ^ 7 = 0" by (simp add: positive_def uint_of_def)
  moreover have "(a + 2 ^ 17 * 0 + 2 ^ 24 * b + 2 ^ 30 * c) div 2 ^ 17 mod 2 ^ 7 = 0" if "a < 2 ^ 17" for a b c :: nat
    using fields(2) [of a "2 ^ 17" 0 "2 ^ 7" "b + 2 ^ 6 * c"] that by (simp add: algebra_simps)
  ultimately show ?thesis using assms by (simp add: disk_words_def)
qed

text \<open>After the user function asked to stop, the scan goes on if the file is longer than the buffer.\<close>

lemma stop_is_ignored:
  "wlog_scan_backward [NUL, NUL, NUL, NUL] (replicate 28 NUL) [NUL, NUL, NUL, NUL, NUL, NUL] 0
     (\<lambda>r u. (WLOG_STOP_SCAN, u + 1)) (0 :: int) = Inr (0, 2)"
proof -
  have w: "disk_word (replicate 28 NUL) k = 0" if "k < 7" for k
    using that by (simp add: disk_word_def unle32_def nth_append)
  have u: "\<exists>r. wlog_rec_unpack (replicate 28 NUL) = Inr r"
    by (simp add: wlog_rec_unpack_def w disk_pathlen_def disk_hostlen_def disk_patternlen_def copy_out_def)
  define al where "al = replicate 28 NUL"
  obtain r where u: "wlog_rec_unpack al = Inr r" using u by (auto simp: al_def)
  have c: "memcpy al 0 m p 0 = Inr al" if "0 \<le> p" "p \<le> int (length m)" for m p
    using that by (simp add: memcpy_def mem_read_def mem_write_def)
  have z: "schar NUL = 0" by (simp add: schar_def)
  show ?thesis
    unfolding al_def [symmetric]
    by (simp add: wlog_scan_backward_def Let_def c u z numeral_eq_Suc mem_read_def mem_write_def file_read_def)
qed

end
