(* ===== verification/Tst_Test.thy ===== *)
theory Tst_Test
  imports Complex_Main Timer Kvercmp Tst_Res
begin

text \<open>
  \<^verbatim>\<open>lib/tst_test.c\<close>: the new test library, from \<^verbatim>\<open>tst_run_tcases\<close> down to the counters in shared memory. A function takes the
  state of the process and returns the new state, or how the process ends. A message is given as the text its format
  expands to. What other parts of the library do (mounting, devices, the temporary directory, the kernel
  configuration) is given by the reporting calls they make; what the operating system returns is given by \<open>sys\<close>.
  \<^verbatim>\<open>float\<close> and \<^verbatim>\<open>double\<close> are rational numbers with a rounding function that is a parameter.
\<close>

unbundle bit_operations_syntax

section \<open>The test and the state\<close>

text \<open>The counters in shared memory.\<close>

record results =
  passed :: "32 word"
  skipped :: "32 word"
  failed :: "32 word"
  warnings :: "32 word"
  broken :: "32 word"
  r_timeout :: nat

text \<open>The members of \<^verbatim>\<open>struct tst_test\<close> except the functions. A null pointer is \<open>None\<close>.\<close>

record test =
  tcnt :: nat
  t_options :: "(cstr \<times> cstr) list option"
  min_kver :: "cstr option"
  tconf_msg :: "cstr option"
  needs_tmpdir_flag :: bool
  needs_root :: bool
  forks_child :: bool
  needs_device :: bool
  needs_checkpoints :: bool
  needs_overlay :: bool
  format_device :: bool
  mount_device :: bool
  needs_rofs :: bool
  child_needs_reinit :: bool
  needs_devfs :: bool
  restore_wallclock :: bool
  all_filesystems :: bool
  skip_filesystems :: "cstr list option"
  min_cpus :: nat
  request_hugepages :: nat
  taint_check :: nat
  test_variants :: nat
  dev_fs_type :: "cstr option"
  mntpoint :: "cstr option"
  t_timeout :: int
  resource_files :: "cstr list option"
  needs_drivers :: "cstr list option"
  save_restore :: "cstr list option"
  needs_kconfigs :: "cstr list option"
  has_bufs :: bool
  has_caps :: bool
  tags :: "(cstr \<times> cstr) list option"
  needs_cmds :: "cstr list option"

text \<open>What becomes visible outside: output, calls of the functions of the test, and resources.\<close>

datatype event =
    Ev_err cstr | Ev_out cstr | Ev_called cstr | Ev_mount cstr | Ev_umount cstr | Ev_acquire cstr | Ev_release cstr
  | Ev_tmpdir | Ev_rmdir | Ev_save cstr | Ev_restore | Ev_wallclock_save | Ev_wallclock_restore | Ev_ipc | Ev_ipc_gone
  | Ev_alarm nat | Ev_kill int int | Ev_path cstr | Ev_env cstr | Ev_fork int

text \<open>What \<^verbatim>\<open>wait\<close> returns next: a child with its status and the results it reported before it ended, or an error number. When
  nothing is left, there is no child any more.\<close>

datatype wait_status = W_exited int | W_signaled int | W_other

datatype wait_event = W_child int wait_status "int list" | W_error int

datatype handler = H_vbrk | H_cvres

text \<open>The static variables, the current process, and a counter of the questions to the operating system. \<open>reports\<close> is the
  list of all result types counted so far.\<close>

record lib =
  lib_results :: "results option"
  iterations :: int
  duration :: rat
  timeout_mul :: rat
  pid :: int
  main_pid :: int
  lib_pid :: int
  test_pid :: int
  mntpoint_mounted :: bool
  ovl_mounted :: bool
  tst_brk_handler :: handler
  tst_test :: "test option"
  tid :: cstr
  tdev_dev :: "cstr option"
  tdev_fs_type :: cstr
  tmpdir_created :: bool
  targs :: "cstr option list"
  tst_start_time :: timespec
  now :: timespec
  sigkill_retries :: nat
  tst_max_futexes :: nat
  l_color :: int
  l_errno :: int
  TST_ERR :: int
  TST_RET :: int
  waits :: "wait_event list"
  clk :: nat
  trace :: "event list"
  reports :: "int list"

text \<open>How a process ends: it calls \<^verbatim>\<open>exit\<close>, is killed by a signal, or does something undefined.\<close>

datatype lib_stop = L_exit int | L_killed int | L_overrun | L_recursion | L_undefined | L_null | L_no_fuel

type_synonym 'a outcome = "lib_stop \<times> lib + 'a"
type_synonym oper = "lib \<Rightarrow> lib outcome"

definition emit_ev :: "event list \<Rightarrow> lib \<Rightarrow> lib" where
  "emit_ev es s = s\<lparr>trace := trace s @ es\<rparr>"

text \<open>The reporting calls of a piece of code, with the file and line they are made in.\<close>

datatype lcall =
    C_res cstr int int cstr | C_brk cstr int int cstr | C_reap | C_fork cstr int int wait_event | C_exit int | C_killed int

text \<open>The operating system, the environment and the other parts of the library. The functions of the counter give the answer
  to the question with this number.\<close>

record sys =
  argv0 :: "cstr option"
  colorize_env :: "cstr option"
  err_tty :: bool
  err_flush_fails :: bool
  out_flush_fails :: bool
  out_tty :: bool
  getopts :: "(char \<times> cstr option) list"
  extra_args :: "cstr list"
  atof :: "cstr \<Rightarrow> rat"
  strtod :: "cstr \<Rightarrow> rat \<times> cstr \<times> int"
  flt :: "rat \<Rightarrow> rat"
  fmt2 :: "rat \<Rightarrow> cstr"
  timeout_mul_env :: "cstr option"
  path_env :: "cstr option"
  start_dir :: cstr
  euid :: int
  uname :: cstr
  in_path :: "cstr \<Rightarrow> bool"
  has_driver :: "cstr \<Rightarrow> bool"
  ncpus :: nat
  kconfig_calls :: "cstr list \<Rightarrow> lcall list"
  timer_test :: "test \<Rightarrow> test"
  hugepages_calls :: "nat \<Rightarrow> lcall list"
  shm_present :: bool
  tmpdir_path :: cstr
  ipc_open_errno :: "int option"
  ipc_map_calls :: "lcall list"
  ipc_unlink_calls :: "lcall list"
  ipc_close_calls :: "lcall list"
  pagesize :: nat
  bufs_calls :: "lcall list"
  tmpdir_calls :: "lcall list"
  save_calls :: "cstr \<Rightarrow> lcall list"
  mkdir_calls :: "cstr \<Rightarrow> lcall list"
  tmp_is_nodev :: bool
  mkfs_calls :: "cstr \<Rightarrow> lcall list"
  mount_errno :: "cstr option \<Rightarrow> int option"
  rofs_calls :: "lcall list"
  mount_calls :: "cstr option \<Rightarrow> lcall list"
  overlay_calls :: "lcall list"
  ovl_umount_fails :: bool
  resource_calls :: "cstr \<Rightarrow> lcall list"
  wallclock_calls :: "lcall list"
  taint_calls :: "nat \<Rightarrow> lcall list"
  late_reports :: "nat \<Rightarrow> (cstr \<times> int \<times> int \<times> cstr) list"
  device :: "cstr option"
  default_fs_type :: cstr
  supported_fs_types :: "cstr list option \<Rightarrow> cstr list"
  fs_name :: cstr
  in_skiplist :: "cstr \<Rightarrow> cstr list \<Rightarrow> bool"
  caps_calls :: "bool \<Rightarrow> lcall list"
  fork_pid :: "nat \<Rightarrow> int"
  fork_errno :: "nat \<Rightarrow> int"
  tainted :: "nat \<Rightarrow> bool"
  getppid :: "nat \<Rightarrow> int"
  clock_gettime :: "nat \<Rightarrow> int + timespec"

text \<open>The functions of the test; they run in the process they are called in.\<close>

record callbacks =
  cb_setup :: "oper option"
  cb_cleanup :: "oper option"
  cb_test :: "(nat \<Rightarrow> oper) option"
  cb_test_all :: "oper option"
  cb_sample :: bool

section \<open>Printing a result\<close>

definition result_name :: "int \<Rightarrow> cstr option" where
  "result_name r =
     (if r = TPASS then Some ''TPASS'' else if r = TFAIL then Some ''TFAIL'' else if r = TBROK then Some ''TBROK''
      else if r = TCONF then Some ''TCONF'' else if r = TWARN then Some ''TWARN'' else if r = TINFO then Some ''TINFO'' else None)"

text \<open>The error that is added to the message; the last of the flags counts. \<open>None\<close> in the first place is an overflow.\<close>

definition result_errno :: "int \<Rightarrow> lib \<Rightarrow> int option option" where
  "result_errno ttype s =
     (if ttype AND TRERRNO \<noteq> 0 then
        let v = int_of_long (TST_RET s) in if TST_RET s < 0 then map_option Some (i32 (- v)) else Some (Some v)
      else if ttype AND TTERRNO \<noteq> 0 then Some (Some (TST_ERR s))
      else if ttype AND TERRNO \<noteq> 0 then Some (Some (l_errno s))
      else Some None)"

definition errno_text :: "int option \<Rightarrow> cstr" where
  "errno_text e = (case e of None \<Rightarrow> [] | Some n \<Rightarrow> '': '' @ tst_strerrno n @ '' ('' @ sdec n @ '')'')"

definition result_head :: "sys \<Rightarrow> cstr \<Rightarrow> int \<Rightarrow> int \<Rightarrow> cstr \<Rightarrow> lib \<Rightarrow> cstr \<times> lib" where
  "result_head sys file lineno ttype res s =
     (let (on, c) = tst_color_enabled (colorize_env sys) (err_tty sys) (l_color s) in
      (file @ '':'' @ sdec lineno @ '': ''
         @ (if on \<noteq> 0 then tst_ttype2color ttype @ res @ '': '' @ ANSI_COLOR_RESET else res @ '': ''),
       s\<lparr>l_color := c\<rparr>))"

text \<open>The line in the array of 1024 characters, and whether it was cut. Two characters are kept for the end of the line.\<close>

definition result_line :: "cstr \<Rightarrow> cstr \<Rightarrow> cstr \<Rightarrow> cstr \<times> bool" where
  "result_line pre text err =
     (let room = 1022 - length pre in
      if length text \<ge> room then (pre @ take room text @ [NEWLINE], True)
      else if err \<noteq> [] \<and> length err \<ge> room - length text then (pre @ text @ take (room - length text) err @ [NEWLINE], True)
      else (pre @ text @ err @ [NEWLINE], False))"

definition inc_result :: "int \<Rightarrow> results \<Rightarrow> results" where
  "inc_result ttype r =
     (if ttype = TCONF then r\<lparr>skipped := skipped r + 1\<rparr>
      else if ttype = TPASS then r\<lparr>passed := passed r + 1\<rparr>
      else if ttype = TWARN then r\<lparr>warnings := warnings r + 1\<rparr>
      else if ttype = TFAIL then r\<lparr>failed := failed r + 1\<rparr>
      else if ttype = TBROK then r\<lparr>broken := broken r + 1\<rparr>
      else r)"

definition update_results :: "int \<Rightarrow> lib \<Rightarrow> lib" where
  "update_results ttype s =
     (case lib_results s of
        None \<Rightarrow> s
      | Some r \<Rightarrow> s\<lparr>lib_results := Some (inc_result ttype r), reports := reports s @ [ttype]\<rparr>)"

definition truncated_msg :: cstr where "truncated_msg = ''Next message is too long and truncated:''"

text \<open>The warning is itself a result; if it does not fit either, the functions call each other for ever.\<close>

definition warn_truncated :: "sys \<Rightarrow> cstr \<Rightarrow> int \<Rightarrow> oper" where
  "warn_truncated sys file lineno s =
     (let (pre, s) = result_head sys file lineno TWARN ''TWARN'' s; (line, cut) = result_line pre truncated_msg [] in
      if length pre > 1024 then Inl (L_overrun, s)
      else if cut then Inl (L_recursion, s) else Inr (update_results TWARN (emit_ev [Ev_err line] s)))"

text \<open>\<open>invalid\<close> is what happens for a type that is none of the six.\<close>

definition print_with :: "oper \<Rightarrow> sys \<Rightarrow> cstr \<Rightarrow> int \<Rightarrow> int \<Rightarrow> cstr \<Rightarrow> oper" where
  "print_with invalid sys file lineno ttype text s =
     (case result_name (TTYPE_RESULT ttype) of
        None \<Rightarrow> invalid s
      | Some res \<Rightarrow>
          (case result_errno ttype s of
             None \<Rightarrow> Inl (L_undefined, s)
           | Some e \<Rightarrow>
               let (pre, s) = result_head sys file lineno ttype res s in
               if length pre > 1024 then Inl (L_overrun, s)
               else let (line, cut) = result_line pre text (errno_text e) in
                 bindr (if cut then warn_truncated sys file lineno s else Inr s) (\<lambda>s.
                   Inr (emit_ev [Ev_err line] s))))"

section \<open>Ending the test\<close>

definition print_colored :: "sys \<Rightarrow> cstr \<Rightarrow> lib \<Rightarrow> lib" where
  "print_colored sys str s =
     (let (on, c) = tst_color_enabled (colorize_env sys) (out_tty sys) (l_color s) in
      emit_ev [Ev_out (if on \<noteq> 0 then (ESC # ''[1;33m'') @ str @ ANSI_COLOR_RESET else str)] (s\<lparr>l_color := c\<rparr>))"

definition test_of :: "lib \<Rightarrow> test" where
  "test_of s = the (tst_test s)"

fun hint_loop :: "sys \<Rightarrow> cstr \<Rightarrow> cstr \<Rightarrow> cstr \<Rightarrow> (cstr \<times> cstr) list \<Rightarrow> bool \<Rightarrow> lib \<Rightarrow> lib" where
  "hint_loop sys tag hint url [] hinted s = s"
| "hint_loop sys tag hint url ((name, val) # tgs) hinted s =
     (if name = tag then
        let s = (if hinted then s
                 else emit_ev [Ev_out (''You _MAY_ be '' @ hint @ '', see:'' @ [NEWLINE, NEWLINE])]
                   (print_colored sys ''HINT: '' (emit_ev [Ev_out [NEWLINE]] s)))
        in hint_loop sys tag hint url tgs True (emit_ev [Ev_out (url @ val @ [NEWLINE])] s)
      else hint_loop sys tag hint url tgs hinted s)"

definition print_failure_hint :: "sys \<Rightarrow> cstr \<Rightarrow> cstr \<Rightarrow> cstr \<Rightarrow> lib \<Rightarrow> lib" where
  "print_failure_hint sys tag hint url s =
     (case tags (test_of s) of None \<Rightarrow> s | Some tgs \<Rightarrow> hint_loop sys tag hint url tgs False s)"

definition LINUX_GIT_URL :: cstr where
  "LINUX_GIT_URL = ''https://git.kernel.org/pub/scm/linux/kernel/git/torvalds/linux.git/commit/?id=''"
definition LINUX_STABLE_GIT_URL :: cstr where
  "LINUX_STABLE_GIT_URL = ''https://git.kernel.org/pub/scm/linux/kernel/git/stable/linux.git/commit/?id=''"
definition GLIBC_GIT_URL :: cstr where "GLIBC_GIT_URL = ''https://sourceware.org/git/?p=glibc.git;a=commit;h=''"
definition CVE_DB_URL :: cstr where "CVE_DB_URL = ''https://cve.mitre.org/cgi-bin/cvename.cgi?name=CVE-''"

definition print_failure_hints :: "sys \<Rightarrow> lib \<Rightarrow> lib" where
  "print_failure_hints sys s =
     print_failure_hint sys ''CVE'' ''vulnerable to CVE(s)'' CVE_DB_URL
       (print_failure_hint sys ''glibc-git'' ''missing glibc fixes'' GLIBC_GIT_URL
         (print_failure_hint sys ''linux-stable-git'' ''missing stable kernel fixes'' LINUX_STABLE_GIT_URL
           (print_failure_hint sys ''linux-git'' ''missing kernel fixes'' LINUX_GIT_URL s)))"

text \<open>The results that the functions called by \<^verbatim>\<open>do_cleanup\<close> report; \<open>stage\<close> says which of them. They are counted after the
  exit status was computed.\<close>

fun late_results :: "sys \<Rightarrow> (cstr \<times> int \<times> int \<times> cstr) list \<Rightarrow> oper" where
  "late_results sys [] s = Inr s"
| "late_results sys ((file, lineno, ttype, text) # rs) s =
     bindr (print_with (\<lambda>s. Inl (L_undefined, s)) sys file lineno ttype text s) (\<lambda>s.
       late_results sys rs (update_results (TTYPE_RESULT ttype) s))"

definition late :: "sys \<Rightarrow> nat \<Rightarrow> oper" where
  "late sys stage = late_results sys (late_reports sys stage)"

text \<open>\<^verbatim>\<open>SAFE_UMOUNT\<close> of the overlay ends the test with \<^verbatim>\<open>tst_brk\<close> when it fails, which comes back to \<^verbatim>\<open>do_cleanup\<close>.\<close>

definition OVL_MNT :: cstr where "OVL_MNT = ''mntpoint/ovl''"

definition cleanup_ipc :: "sys \<Rightarrow> oper" where
  "cleanup_ipc sys s =
     bindr (late sys 5 s) (\<lambda>s.
       Inr (if lib_results s = None then s else emit_ev [Ev_ipc_gone] (s\<lparr>lib_results := None\<rparr>)))"

definition do_cleanup :: "sys \<Rightarrow> oper" where
  "do_cleanup sys s =
     (if ovl_mounted s \<and> ovl_umount_fails sys then Inl (L_recursion, s)
      else
        let s = (if ovl_mounted s then emit_ev [Ev_umount OVL_MNT] s else s) in
        case tst_test s of
          None \<Rightarrow> Inl (L_null, s)
        | Some t \<Rightarrow>
            bindr (if mntpoint_mounted s then late sys 0 (emit_ev [Ev_umount (the (mntpoint t))] s) else Inr s) (\<lambda>s.
            bindr (case tdev_dev s of
                     Some d \<Rightarrow> if needs_device t then late sys 1 (emit_ev [Ev_release d] s) else Inr s
                   | None \<Rightarrow> Inr s) (\<lambda>s.
            bindr (if tmpdir_created s then late sys 2 (emit_ev [Ev_rmdir] s) else Inr s) (\<lambda>s.
            bindr (late sys 3 (emit_ev [Ev_restore] s)) (\<lambda>s.
            bindr (if restore_wallclock t then late sys 4 (emit_ev [Ev_wallclock_restore] s) else Inr s) (\<lambda>s.
              cleanup_ipc sys s))))))"

definition summary_text :: "results \<Rightarrow> cstr list" where
  "summary_text r =
     [[NEWLINE] @ ''Summary:'' @ [NEWLINE], ''passed   '' @ sdec (sint (passed r)) @ [NEWLINE],
      ''failed   '' @ sdec (sint (failed r)) @ [NEWLINE], ''broken   '' @ sdec (sint (broken r)) @ [NEWLINE],
      ''skipped  '' @ sdec (sint (skipped r)) @ [NEWLINE], ''warnings '' @ sdec (sint (warnings r)) @ [NEWLINE]]"

definition final_status :: "int \<Rightarrow> results \<Rightarrow> int" where
  "final_status ret r =
     (let ret = (if passed r \<noteq> 0 \<and> ret = TCONF then 0 else ret);
          ret = (if failed r \<noteq> 0 then ret OR TFAIL else ret);
          ret = (if skipped r \<noteq> 0 \<and> passed r = 0 then ret OR TCONF else ret);
          ret = (if warnings r \<noteq> 0 then ret OR TWARN else ret)
      in if broken r \<noteq> 0 then ret OR TBROK else ret)"

definition do_exit :: "sys \<Rightarrow> int \<Rightarrow> oper" where
  "do_exit sys ret s =
     (let (ret, s) =
        (case lib_results s of
           None \<Rightarrow> (ret, s)
         | Some r \<Rightarrow>
             (final_status ret r,
              emit_ev (map Ev_out (summary_text r)) (if failed r \<noteq> 0 then print_failure_hints sys s else s)))
      in case do_cleanup sys s of Inl e \<Rightarrow> Inl e | Inr s \<Rightarrow> Inl (L_exit ret, s))"

section \<open>tst_res and tst_brk\<close>

definition do_test_cleanup :: "callbacks \<Rightarrow> oper" where
  "do_test_cleanup cb s =
     (let s = s\<lparr>tst_brk_handler := H_cvres\<rparr> in
      bindr (case cb_cleanup cb of None \<Rightarrow> Inr s | Some f \<Rightarrow> f (emit_ev [Ev_called ''cleanup''] s)) (\<lambda>s.
        Inr (s\<lparr>tst_brk_handler := H_vbrk\<rparr>)))"

text \<open>\<^verbatim>\<open>tst_vbrk_\<close> and \<^verbatim>\<open>tst_cvres\<close> with the printing function as an argument.\<close>

definition vbrk_with ::
  "(int \<Rightarrow> oper) \<Rightarrow> sys \<Rightarrow> callbacks \<Rightarrow> int \<Rightarrow> oper" where
  "vbrk_with print sys cb ttype s =
     bindr (print ttype s) (\<lambda>s.
     let s = update_results (TTYPE_RESULT ttype) s in
     bindr (if pid s = main_pid s then do_test_cleanup cb s else Inr s) (\<lambda>s.
       if pid s = lib_pid s then do_exit sys (TTYPE_RESULT ttype) s else Inl (L_exit (TTYPE_RESULT ttype), s)))"

definition cvres_with :: "(int \<Rightarrow> oper) \<Rightarrow> int \<Rightarrow> oper" where
  "cvres_with print ttype s =
     (let ttype = (if TTYPE_RESULT ttype = TBROK then (ttype AND NOT TTYPE_MASK) OR TWARN else ttype) in
      bindr (print ttype s) (\<lambda>s. Inr (update_results (TTYPE_RESULT ttype) s)))"

definition brk_with :: "(int \<Rightarrow> oper) \<Rightarrow> sys \<Rightarrow> callbacks \<Rightarrow> int \<Rightarrow> oper" where
  "brk_with print sys cb ttype s =
     (case tst_brk_handler s of H_vbrk \<Rightarrow> vbrk_with print sys cb ttype s | H_cvres \<Rightarrow> cvres_with print ttype s)"

definition THIS_FILE :: cstr where "THIS_FILE = ''tst_test.c''"

text \<open>For an invalid type \<^verbatim>\<open>print_result\<close> calls \<^verbatim>\<open>tst_brk\<close> with a valid one, and then \<^verbatim>\<open>abort\<close>.\<close>

definition print_invalid :: "sys \<Rightarrow> callbacks \<Rightarrow> int \<Rightarrow> oper" where
  "print_invalid sys cb bad s =
     bindr (brk_with (\<lambda>ttype. print_with (\<lambda>s. Inl (L_recursion, s)) sys THIS_FILE 223 ttype (''Invalid ttype value '' @ sdec bad))
       sys cb TBROK s) (\<lambda>s. Inl (L_killed 6, s))"

definition print_result :: "sys \<Rightarrow> callbacks \<Rightarrow> cstr \<Rightarrow> int \<Rightarrow> int \<Rightarrow> cstr \<Rightarrow> oper" where
  "print_result sys cb file lineno ttype text = print_with (print_invalid sys cb ttype) sys file lineno ttype text"

definition tst_vres :: "sys \<Rightarrow> callbacks \<Rightarrow> cstr \<Rightarrow> int \<Rightarrow> int \<Rightarrow> cstr \<Rightarrow> oper" where
  "tst_vres sys cb file lineno ttype text s =
     bindr (print_result sys cb file lineno ttype text s) (\<lambda>s. Inr (update_results (TTYPE_RESULT ttype) s))"

definition tst_brk :: "sys \<Rightarrow> callbacks \<Rightarrow> cstr \<Rightarrow> int \<Rightarrow> int \<Rightarrow> cstr \<Rightarrow> oper" where
  "tst_brk sys cb file lineno ttype text =
     brk_with (\<lambda>ttype. print_result sys cb file lineno ttype text) sys cb ttype"

text \<open>Calls in this file.\<close>

definition res :: "sys \<Rightarrow> callbacks \<Rightarrow> int \<Rightarrow> int \<Rightarrow> cstr \<Rightarrow> oper" where
  "res sys cb lineno ttype text = tst_vres sys cb THIS_FILE lineno ttype text"

definition brk :: "sys \<Rightarrow> callbacks \<Rightarrow> int \<Rightarrow> int \<Rightarrow> cstr \<Rightarrow> oper" where
  "brk sys cb lineno ttype text = tst_brk sys cb THIS_FILE lineno ttype text"

definition brk_if :: "sys \<Rightarrow> callbacks \<Rightarrow> bool \<Rightarrow> int \<Rightarrow> int \<Rightarrow> cstr \<Rightarrow> oper" where
  "brk_if sys cb cond lineno ttype text s = (if cond then brk sys cb lineno ttype text s else Inr s)"

section \<open>Children\<close>

definition check_child_status :: "sys \<Rightarrow> callbacks \<Rightarrow> int \<Rightarrow> wait_status \<Rightarrow> oper" where
  "check_child_status sys cb p status s =
     bindr (case status of
              W_signaled sig \<Rightarrow>
                brk sys cb 370 TBROK (''Child ('' @ sdec p @ '') killed by signal '' @ tst_strsig sig) s
            | _ \<Rightarrow> Inr s) (\<lambda>s.
     bindr (case status of
              W_exited ret \<Rightarrow> Inr s
            | _ \<Rightarrow> brk sys cb 375 TBROK (''Child ('' @ sdec p @ '') exited abnormally'') s) (\<lambda>s.
     let ret = (case status of W_exited ret \<Rightarrow> ret | _ \<Rightarrow> 0) in
     if ret = TPASS \<or> ret = TBROK \<or> ret = TCONF then Inr s
     else brk sys cb 384 TBROK (''Invalid child ('' @ sdec p @ '') exit value '' @ sdec ret) s))"

definition errno_ECHILD :: int where "errno_ECHILD = 10"
definition errno_EINTR :: int where "errno_EINTR = 4"

fun reap_loop :: "sys \<Rightarrow> callbacks \<Rightarrow> wait_event list \<Rightarrow> oper" where
  "reap_loop sys cb [] s = Inr (s\<lparr>waits := [], l_errno := errno_ECHILD\<rparr>)"
| "reap_loop sys cb (W_child p status rs # ws) s =
     bindr (check_child_status sys cb p status (fold update_results rs (s\<lparr>waits := ws\<rparr>))) (\<lambda>s. reap_loop sys cb ws s)"
| "reap_loop sys cb (W_error e # ws) s =
     (let s = s\<lparr>waits := ws, l_errno := e\<rparr> in
      if e = errno_ECHILD then Inr s
      else if e = errno_EINTR then reap_loop sys cb ws s
      else bindr (brk sys cb 407 (TBROK OR TERRNO) ''wait() failed'' s) (\<lambda>s. reap_loop sys cb ws s))"

definition tst_reap_children :: "sys \<Rightarrow> callbacks \<Rightarrow> oper" where
  "tst_reap_children sys cb s = reap_loop sys cb (waits s) s"

definition tst_flush :: "sys \<Rightarrow> callbacks \<Rightarrow> oper" where
  "tst_flush sys cb s =
     bindr (brk_if sys cb (err_flush_fails sys) 1444 (TBROK OR TERRNO) ''fflush(stderr) failed'' s) (\<lambda>s.
       brk_if sys cb (out_flush_fails sys) 1448 (TBROK OR TERRNO) ''fflush(stdout) failed'' s)"

text \<open>\<^verbatim>\<open>safe_fork\<close> in the parent: \<open>child\<close> is what \<^verbatim>\<open>fork\<close> returned, \<open>w\<close> what waiting for the child will give.\<close>

definition safe_fork :: "sys \<Rightarrow> callbacks \<Rightarrow> cstr \<Rightarrow> int \<Rightarrow> int \<Rightarrow> wait_event \<Rightarrow> oper" where
  "safe_fork sys cb file lineno child w s =
     bindr (brk_if sys cb (\<not> forks_child (test_of s)) 417 TBROK ''test.forks_child must be set!'' s) (\<lambda>s.
     bindr (tst_flush sys cb s) (\<lambda>s.
     if child < 0 then tst_brk sys cb file lineno (TBROK OR TERRNO) ''fork() failed'' s
     else Inr (s\<lparr>waits := waits s @ [w]\<rparr>)))"

text \<open>Running a list of calls.\<close>

fun run_calls :: "sys \<Rightarrow> callbacks \<Rightarrow> lcall list \<Rightarrow> oper" where
  "run_calls sys cb [] s = Inr s"
| "run_calls sys cb (c # cs) s =
     bindr (case c of
              C_res file lineno ttype text \<Rightarrow> tst_vres sys cb file lineno ttype text s
            | C_brk file lineno ttype text \<Rightarrow> tst_brk sys cb file lineno ttype text s
            | C_reap \<Rightarrow> tst_reap_children sys cb s
            | C_fork file lineno child w \<Rightarrow> safe_fork sys cb file lineno child w s
            | C_exit n \<Rightarrow> Inl (L_exit n, s)
            | C_killed sig \<Rightarrow> Inl (L_killed sig, s)) (\<lambda>s. run_calls sys cb cs s)"

section \<open>Options\<close>

definition lib_options :: "(cstr \<times> cstr) list" where
  "lib_options =
     [(''h'', ''-h       Prints this help''), (''i:'', ''-i n     Execute test n times''),
      (''I:'', ''-I x     Execute test for n seconds''),
      (''C:'', ''-C ARG   Run child process with ARG arguments (used internally)'')]"

definition test_options :: "lib \<Rightarrow> (cstr \<times> cstr) list" where
  "test_options s = (case t_options (test_of s) of None \<Rightarrow> [] | Some os \<Rightarrow> os)"

definition print_help :: "lib \<Rightarrow> lib" where
  "print_help s =
     emit_ev (map (\<lambda>t. Ev_err (t @ [NEWLINE])) ([''Options'', ''-------''] @ map snd lib_options @ map snd (test_options s))) s"

definition tag_line :: "cstr \<times> cstr \<Rightarrow> cstr" where
  "tag_line nv =
     (case nv of (name, val) \<Rightarrow>
        (if name = ''CVE'' then CVE_DB_URL @ val
         else if name = ''linux-git'' then LINUX_GIT_URL @ val
         else if name = ''linux-stable-git'' then LINUX_STABLE_GIT_URL @ val
         else if name = ''glibc-git'' then GLIBC_GIT_URL @ val
         else name @ '': '' @ val) @ [NEWLINE])"

definition print_test_tags :: "lib \<Rightarrow> lib" where
  "print_test_tags s =
     (case tags (test_of s) of
        None \<Rightarrow> s
      | Some tgs \<Rightarrow>
          emit_ev (map Ev_out ([[NEWLINE] @ ''Tags'' @ [NEWLINE], ''----'' @ [NEWLINE]] @ map tag_line tgs @ [[NEWLINE]])) s)"

fun collisions :: "sys \<Rightarrow> callbacks \<Rightarrow> (cstr \<times> cstr) list \<Rightarrow> cstr \<Rightarrow> oper" where
  "collisions sys cb [] opt s = Inr s"
| "collisions sys cb ((optstr, help) # os) opt s =
     bindr (brk_if sys cb (deref opt = deref optstr) 521 TBROK (''Option collision '' @ squoted help) s) (\<lambda>s.
       collisions sys cb os opt s)"

fun check_option_collision :: "sys \<Rightarrow> callbacks \<Rightarrow> (cstr \<times> cstr) list \<Rightarrow> oper" where
  "check_option_collision sys cb [] s = Inr s"
| "check_option_collision sys cb ((optstr, help) # tos) s =
     bindr (collisions sys cb lib_options optstr s) (\<lambda>s. check_option_collision sys cb tos s)"

text \<open>The index of an option of the test; the number of options if there is none.\<close>

fun topt_index :: "(cstr \<times> cstr) list \<Rightarrow> char \<Rightarrow> nat" where
  "topt_index [] opt = 0"
| "topt_index ((optstr, help) # tos) opt = (if deref optstr = opt then 0 else Suc (topt_index tos opt))"

definition parse_topt :: "sys \<Rightarrow> callbacks \<Rightarrow> char \<Rightarrow> cstr option \<Rightarrow> oper" where
  "parse_topt sys cb opt optarg s =
     (let i = topt_index (test_options s) opt in
      bindr (brk_if sys cb (i \<ge> length (test_options s)) 551 TBROK
               (''Invalid option '' @ squoted [opt] @ '' (should not happen)'') s) (\<lambda>s.
      if i \<ge> length (targs s) then Inl (L_overrun, s)
      else
        bindr (if targs s ! i \<noteq> None then res sys cb 554 TWARN (''Option -'' @ [opt] @ '' passed multiple times'') s
               else Inr s) (\<lambda>s.
          Inr (s\<lparr>targs := (targs s)[i := Some (case optarg of None \<Rightarrow> [] | Some a \<Rightarrow> a)]\<rparr>))))"

text \<open>\<^verbatim>\<open>atoi\<close>: \<^verbatim>\<open>strtol\<close> converted to \<^verbatim>\<open>int\<close>.\<close>

definition strtol10 :: "cstr \<Rightarrow> int \<times> cstr \<times> bool" where
  "strtol10 str =
     (case scan_int str of
        None \<Rightarrow> (0, str, False)
      | Some (v, rest) \<Rightarrow> (min LLONG_MAX (max LLONG_MIN v), rest, v < LLONG_MIN \<or> v > LLONG_MAX))"

definition int_arg :: "cstr option \<Rightarrow> int" where
  "int_arg optarg = int_of_long (fst (strtol10 (the optarg)))"

text \<open>The loop over the results of \<^verbatim>\<open>getopt\<close>.\<close>

fun opts_loop :: "sys \<Rightarrow> callbacks \<Rightarrow> (char \<times> cstr option) list \<Rightarrow> oper" where
  "opts_loop sys cb [] s = Inr s"
| "opts_loop sys cb ((opt, optarg) # os) s =
     bindr (if opt = CHR ''?'' then brk sys cb 584 TBROK ''Invalid option'' (print_help s)
            else if opt = CHR ''h'' then Inl (L_exit 0, print_test_tags (print_help s))
            else if opt = CHR ''i'' then Inr (s\<lparr>iterations := int_arg optarg\<rparr>)
            else if opt = CHR ''I'' then Inr (s\<lparr>duration := flt sys (atof sys (the optarg))\<rparr>)
            else if opt = CHR ''C'' then Inr s
            else parse_topt sys cb opt optarg s) (\<lambda>s. opts_loop sys cb os s)"

text \<open>The array for the option string has two characters for each option.\<close>

definition parse_opts :: "sys \<Rightarrow> callbacks \<Rightarrow> oper" where
  "parse_opts sys cb s =
     (let topts = test_options s in
      bindr (check_option_collision sys cb topts s) (\<lambda>s.
      if length (concat (map fst (lib_options @ topts))) + 1 > 2 * length lib_options + 2 * length topts
      then Inl (L_overrun, s)
      else
        bindr (opts_loop sys cb (getopts sys) s) (\<lambda>s.
          case extra_args sys of
            [] \<Rightarrow> Inr s
          | a # _ \<Rightarrow> brk sys cb 607 TBROK (''Unexpected argument(s) '' @ squoted a @ ''...'') s)))"

section \<open>Numbers in arguments\<close>

text \<open>The result and the new value of the variable; a null string leaves it alone.\<close>

definition errno_ERANGE :: int where "errno_ERANGE = 34"

definition tst_parse_long :: "cstr option \<Rightarrow> int \<Rightarrow> int \<Rightarrow> int \<Rightarrow> int \<times> int" where
  "tst_parse_long str val mn mx =
     (case str of
        None \<Rightarrow> (0, val)
      | Some str \<Rightarrow>
          let (rval, rest, range) = strtol10 str in
          if str = rest \<or> rest \<noteq> [] then (EINVAL, val)
          else if range then (errno_ERANGE, val)
          else if rval > mx \<or> rval < mn then (errno_ERANGE, val)
          else (0, rval))"

definition tst_parse_int :: "cstr option \<Rightarrow> int \<Rightarrow> int \<Rightarrow> int \<Rightarrow> int \<times> int" where
  "tst_parse_int str val mn mx =
     (if str = None then (0, val)
      else let (ret, rval) = tst_parse_long str 0 mn mx in if ret \<noteq> 0 then (ret, val) else (0, int_of_long rval))"

definition tst_parse_float :: "sys \<Rightarrow> cstr option \<Rightarrow> rat \<Rightarrow> rat \<Rightarrow> rat \<Rightarrow> int \<times> rat" where
  "tst_parse_float sys str val mn mx =
     (case str of
        None \<Rightarrow> (0, val)
      | Some str \<Rightarrow>
          let (rval, rest, err) = strtod sys str in
          if str = rest \<or> rest \<noteq> [] then (EINVAL, val)
          else if err \<noteq> 0 then (err, val)
          else if rval > mx \<or> rval < mn then (errno_ERANGE, val)
          else (0, flt sys rval))"

section \<open>Shared memory\<close>

definition no_results :: results where
  "no_results = \<lparr>passed = 0, skipped = 0, failed = 0, warnings = 0, broken = 0, r_timeout = 0\<rparr>"

definition make_tmpdir :: "sys \<Rightarrow> callbacks \<Rightarrow> oper" where
  "make_tmpdir sys cb s =
     bindr (run_calls sys cb (tmpdir_calls sys) s) (\<lambda>s. Inr (emit_ev [Ev_tmpdir] (s\<lparr>tmpdir_created := True\<rparr>)))"

definition shm_path :: "sys \<Rightarrow> lib \<Rightarrow> cstr" where
  "shm_path sys s =
     take 1023 ((if shm_present sys then ''/dev/shm'' else tmpdir_path sys) @ ''/ltp_'' @ tid s @ ''_'' @ sdec (pid s))"

text \<open>The shared page holds the counters (24 bytes) and then the futexes (4 bytes each).\<close>

definition max_futexes :: "sys \<Rightarrow> nat" where
  "max_futexes sys = (pagesize sys - 24) div 4"

definition setup_ipc :: "sys \<Rightarrow> callbacks \<Rightarrow> oper" where
  "setup_ipc sys cb s =
     bindr (if shm_present sys \<or> tmpdir_created s then Inr s else make_tmpdir sys cb s) (\<lambda>s.
     bindr (case ipc_open_errno sys of
              None \<Rightarrow> Inr s
            | Some e \<Rightarrow> brk sys cb 109 (TBROK OR TERRNO) (''open('' @ shm_path sys s @ '')'') (s\<lparr>l_errno := e\<rparr>)) (\<lambda>s.
     bindr (run_calls sys cb (ipc_map_calls sys) s) (\<lambda>s.
     let s = emit_ev [Ev_ipc] (s\<lparr>lib_results := Some no_results\<rparr>); t = test_of s in
     bindr (if needs_checkpoints t \<or> child_needs_reinit t
            then Inr (emit_ev [Ev_env (''LTP_IPC_PATH='' @ shm_path sys s)] s)
            else run_calls sys cb (ipc_unlink_calls sys) s) (\<lambda>s.
     bindr (run_calls sys cb (ipc_close_calls sys) s) (\<lambda>s.
       Inr (if needs_checkpoints t then s\<lparr>tst_max_futexes := max_futexes sys\<rparr> else s))))))"

text \<open>A process started with \<^verbatim>\<open>exec\<close>: \<open>path\<close> is the environment variable, \<open>shared\<close> what is in the file if it exists.\<close>

definition tst_reinit :: "sys \<Rightarrow> callbacks \<Rightarrow> cstr option \<Rightarrow> results option \<Rightarrow> oper" where
  "tst_reinit sys cb path shared s =
     bindr (brk_if sys cb (path = None) 156 TBROK ''LTP_IPC_PATH is not defined'' s) (\<lambda>s.
     bindr (brk_if sys cb (shared = None) 159 TBROK (''File '' @ the path @ '' does not exist!'') s) (\<lambda>s.
       Inr (s\<lparr>lib_results := shared, tst_max_futexes := max_futexes sys\<rparr>)))"

section \<open>Preparing the test\<close>

definition check_kver :: "sys \<Rightarrow> callbacks \<Rightarrow> oper" where
  "check_kver sys cb s =
     (let kver = the (min_kver (test_of s)); (bad, v1, v2, v3) = tst_parse_kver kver in
      bindr (if bad \<noteq> 0 then res sys cb 755 TWARN (''Invalid kernel version '' @ kver @ '', expected %d.%d.%d'') s
             else Inr s) (\<lambda>s.
      let (log, cmp) = tst_kvercmp (uname sys) v1 v2 v3 in
      bindr (run_calls sys cb (map (\<lambda>(_, t). C_res ''tst_kvercmp.c'' 90 TWARN t) log) s) (\<lambda>s.
      case cmp of
        None \<Rightarrow> Inl (L_undefined, s)
      | Some c \<Rightarrow> brk_if sys cb (c < 0) 761 TCONF (''The test requires kernel '' @ kver @ '' or newer'') s)))"

definition results_equal :: "results \<Rightarrow> results \<Rightarrow> bool" where
  "results_equal a b \<longleftrightarrow> passed a = passed b \<and> failed a = failed b \<and> skipped a = skipped b \<and> broken a = broken b"

definition needs_tmpdir :: "test \<Rightarrow> bool" where
  "needs_tmpdir t \<longleftrightarrow>
     needs_tmpdir_flag t \<or> needs_device t \<or> mntpoint t \<noteq> None \<or> resource_files t \<noteq> None \<or> needs_checkpoints t"

text \<open>The part of \<^verbatim>\<open>argv[0]\<close> after the last slash.\<close>

definition get_tid :: "sys \<Rightarrow> callbacks \<Rightarrow> oper" where
  "get_tid sys cb s =
     (case argv0 sys of
        Some (c # cs) \<Rightarrow> Inr (s\<lparr>tid := rev (takeWhile (\<lambda>x. x \<noteq> CHR ''/'') (rev (c # cs)))\<rparr>)
      | _ \<Rightarrow> bindr (res sys cb 805 TINFO ''argv[0] is empty!'' s) (\<lambda>s. Inr (s\<lparr>tid := ''ltp_empty_argv''\<rparr>)))"

definition assert_test_fn :: "sys \<Rightarrow> callbacks \<Rightarrow> oper" where
  "assert_test_fn sys cb s =
     (let cnt = of_bool (cb_test cb \<noteq> None) + of_bool (cb_test_all cb \<noteq> None) + of_bool (cb_sample cb) :: nat;
          n = tcnt (test_of s)
      in
      bindr (brk_if sys cb (cnt = 0) 833 TBROK ''No test function specified'' s) (\<lambda>s.
      bindr (brk_if sys cb (cnt \<noteq> 1) 836 TBROK ''You can define only one test function'' s) (\<lambda>s.
      bindr (brk_if sys cb (cb_test cb \<noteq> None \<and> n = 0) 839 TBROK ''Number of tests (tcnt) must be > 0'' s) (\<lambda>s.
        brk_if sys cb (cb_test cb = None \<and> n \<noteq> 0) 842 TBROK ''You can define tcnt only for test()'' s))))"

text \<open>Mounting; a null device is \<open>None\<close>. The result of \<^verbatim>\<open>prepare_and_mount_ro_fs\<close> is 1 if the file system could not be mounted.\<close>

definition show_null :: "cstr option \<Rightarrow> cstr" where
  "show_null d = (case d of None \<Rightarrow> ''(null)'' | Some x \<Rightarrow> x)"

definition prepare_and_mount_ro_fs :: "sys \<Rightarrow> callbacks \<Rightarrow> cstr option \<Rightarrow> cstr \<Rightarrow> lib \<Rightarrow> (nat \<times> lib) outcome" where
  "prepare_and_mount_ro_fs sys cb dev fs_type s =
     (let mp = the (mntpoint (test_of s)) in
      case mount_errno sys dev of
        Some e \<Rightarrow>
          bindr (res sys cb 852 (TINFO OR TERRNO) (''Can'' @ [CHR 0x27] @ ''t mount '' @ show_null dev @ '' at '' @ mp @ '' ('' @ fs_type @ '')'')
                   (s\<lparr>l_errno := e\<rparr>)) (\<lambda>s. Inr (1, s))
      | None \<Rightarrow>
          bindr (run_calls sys cb (rofs_calls sys) (emit_ev [Ev_mount mp] (s\<lparr>mntpoint_mounted := True\<rparr>))) (\<lambda>s. Inr (0, s)))"

definition mount_at_mntpoint :: "sys \<Rightarrow> callbacks \<Rightarrow> cstr option \<Rightarrow> oper" where
  "mount_at_mntpoint sys cb dev s =
     bindr (run_calls sys cb (mount_calls sys dev) s) (\<lambda>s.
       Inr (emit_ev [Ev_mount (the (mntpoint (test_of s)))] (s\<lparr>mntpoint_mounted := True\<rparr>)))"

definition prepare_and_mount_dev_fs :: "sys \<Rightarrow> callbacks \<Rightarrow> oper" where
  "prepare_and_mount_dev_fs sys cb s =
     (if tmp_is_nodev sys then
        bindr (res sys cb 878 TINFO (''tmpdir isn'' @ [CHR 0x27] @ ''t suitable for creating devices, mounting tmpfs without nodev on ''
                 @ the (mntpoint (test_of s))) s) (\<lambda>s. mount_at_mntpoint sys cb None s)
      else Inr s)"

definition prepare_device :: "sys \<Rightarrow> callbacks \<Rightarrow> oper" where
  "prepare_device sys cb s =
     (let t = test_of s in
      bindr (if format_device t then run_calls sys cb (mkfs_calls sys (tdev_fs_type s)) s else Inr s) (\<lambda>s.
      if needs_rofs t then
        bindr (prepare_and_mount_ro_fs sys cb (tdev_dev s) (tdev_fs_type s) s) (\<lambda>(_, s). Inr s)
      else if mount_device t then mount_at_mntpoint sys cb (tdev_dev s) s
      else Inr s))"

text \<open>A loop over a list of names that may be null.\<close>

fun each_name :: "(cstr \<Rightarrow> oper) \<Rightarrow> cstr list \<Rightarrow> oper" where
  "each_name f [] s = Inr s"
| "each_name f (n # rest) s = bindr (f n s) (\<lambda>s. each_name f rest s)"

definition each :: "(cstr \<Rightarrow> oper) \<Rightarrow> cstr list option \<Rightarrow> oper" where
  "each f names s = (case names of None \<Rightarrow> Inr s | Some nm \<Rightarrow> each_name f nm s)"

definition set_test :: "(test \<Rightarrow> test) \<Rightarrow> lib \<Rightarrow> lib" where
  "set_test f s = s\<lparr>tst_test := map_option f (tst_test s)\<rparr>"

text \<open>The four parts of \<^verbatim>\<open>do_setup\<close>: what the test requires; shared memory and directories; devices; the rest.\<close>

definition setup_requirements :: "sys \<Rightarrow> callbacks \<Rightarrow> oper" where
  "setup_requirements sys cb s =
     bindr (brk_if sys cb (tst_test s = None) 908 TBROK ''No tests to run'' s) (\<lambda>s.
     bindr (case tconf_msg (test_of s) of None \<Rightarrow> Inr s | Some m \<Rightarrow> brk sys cb 911 TCONF m s) (\<lambda>s.
     bindr (case needs_kconfigs (test_of s) of None \<Rightarrow> Inr s | Some ks \<Rightarrow> run_calls sys cb (kconfig_calls sys ks) s) (\<lambda>s.
     bindr (assert_test_fn sys cb s) (\<lambda>s.
     bindr (get_tid sys cb s) (\<lambda>s.
     let s = (if cb_sample cb then set_test (timer_test sys) s else s) in
     bindr (parse_opts sys cb s) (\<lambda>s.
     bindr (brk_if sys cb (needs_root (test_of s) \<and> euid sys \<noteq> 0) 926 TCONF ''Test needs to be run as root'' s) (\<lambda>s.
     bindr (if min_kver (test_of s) \<noteq> None then check_kver sys cb s else Inr s) (\<lambda>s.
     bindr (each (\<lambda>cmd s. brk_if sys cb (\<not> in_path sys cmd) 938 TCONF (''Couldn'' @ [CHR 0x27] @ ''t find '' @ squoted cmd @ '' in $PATH'') s)
              (needs_cmds (test_of s)) s) (\<lambda>s.
     bindr (each (\<lambda>name s. brk_if sys cb (\<not> has_driver sys name) 947 TCONF (name @ '' driver not available'') s)
              (needs_drivers (test_of s)) s) (\<lambda>s.
     let s = set_test (\<lambda>t. if mount_device t then t\<lparr>format_device := True\<rparr> else t) s;
         s = set_test (\<lambda>t. if format_device t then t\<lparr>needs_device := True\<rparr> else t) s;
         s = set_test (\<lambda>t. if all_filesystems t then t\<lparr>needs_device := True\<rparr> else t) s
     in
     bindr (brk_if sys cb (min_cpus (test_of s) > ncpus sys) 960 TCONF
              (''Test needs at least '' @ dec (min_cpus (test_of s)) @ '' CPUs online'') s) (\<lambda>s.
       if request_hugepages (test_of s) \<noteq> 0 then run_calls sys cb (hugepages_calls sys (request_hugepages (test_of s))) s
       else Inr s)))))))))))"

definition setup_directories :: "sys \<Rightarrow> callbacks \<Rightarrow> oper" where
  "setup_directories sys cb s =
     bindr (setup_ipc sys cb s) (\<lambda>s.
     bindr (if has_bufs (test_of s) then run_calls sys cb (bufs_calls sys) s else Inr s) (\<lambda>s.
     bindr (if needs_tmpdir (test_of s) \<and> \<not> tmpdir_created s then make_tmpdir sys cb s else Inr s) (\<lambda>s.
     bindr (each (\<lambda>name s. bindr (run_calls sys cb (save_calls sys name) s) (\<lambda>s. Inr (emit_ev [Ev_save name] s)))
              (save_restore (test_of s)) s) (\<lambda>s.
       case mntpoint (test_of s) of None \<Rightarrow> Inr s | Some mp \<Rightarrow> run_calls sys cb (mkdir_calls sys mp) s))))"

definition setup_device :: "sys \<Rightarrow> callbacks \<Rightarrow> oper" where
  "setup_device sys cb s =
     (let t = test_of s in
      bindr (brk_if sys cb ((needs_devfs t \<or> needs_rofs t \<or> mount_device t \<or> all_filesystems t) \<and> mntpoint t = None) 988 TBROK
               ''tst_test->mntpoint must be set!'' s) (\<lambda>s.
      bindr (brk_if sys cb (of_bool (needs_rofs t) + of_bool (needs_devfs t) + of_bool (needs_device t) > (1 :: nat)) 993 TBROK
               ''Two or more of needs_{rofs, devfs, device} are set'' s) (\<lambda>s.
      bindr (if needs_devfs t then prepare_and_mount_dev_fs sys cb s else Inr s) (\<lambda>s.
      bindr (if needs_rofs t then
               bindr (prepare_and_mount_ro_fs sys cb None ''tmpfs'' s) (\<lambda>(r, s).
                 if r \<noteq> 0 then
                   bindr (res sys cb 1005 TINFO (''Can'' @ [CHR 0x27] @ ''t mount tmpfs read-only, falling back to block device...'') s) (\<lambda>s.
                     Inr (set_test (\<lambda>t. t\<lparr>needs_device := True, format_device := True\<rparr>) s))
                 else Inr s)
             else Inr s) (\<lambda>s.
      let t = test_of s in
      if needs_device t \<and> \<not> mntpoint_mounted s then
        let s = (case device sys of None \<Rightarrow> s | Some d \<Rightarrow> emit_ev [Ev_acquire d] (s\<lparr>tdev_dev := Some d\<rparr>)) in
        bindr (brk_if sys cb (device sys = None) 1016 TCONF ''Failed to acquire device'' s) (\<lambda>s.
        let s = s\<lparr>tdev_fs_type := (case dev_fs_type t of None \<Rightarrow> default_fs_type sys | Some f \<Rightarrow> f)\<rparr> in
        if all_filesystems t then Inr s else prepare_device sys cb s)
      else Inr s)))))"

definition setup_rest :: "sys \<Rightarrow> callbacks \<Rightarrow> oper" where
  "setup_rest sys cb s =
     (let t = test_of s in
      bindr (brk_if sys cb (needs_overlay t \<and> \<not> mount_device t) 1030 TBROK ''tst_test->mount_device must be set'' s) (\<lambda>s.
      bindr (brk_if sys cb (needs_overlay t \<and> \<not> mntpoint_mounted s) 1033 TBROK ''tst_test->mntpoint must be mounted'' s) (\<lambda>s.
      bindr (if needs_overlay t \<and> \<not> ovl_mounted s then
               bindr (run_calls sys cb (overlay_calls sys) s) (\<lambda>s. Inr (emit_ev [Ev_mount OVL_MNT] (s\<lparr>ovl_mounted := True\<rparr>)))
             else Inr s) (\<lambda>s.
      bindr (each (\<lambda>f. run_calls sys cb (resource_calls sys f)) (resource_files t) s) (\<lambda>s.
      bindr (if restore_wallclock t then
               bindr (run_calls sys cb (wallclock_calls sys) s) (\<lambda>s. Inr (emit_ev [Ev_wallclock_save] s))
             else Inr s) (\<lambda>s.
        if taint_check t \<noteq> 0 then run_calls sys cb (taint_calls sys (taint_check t)) s else Inr s))))))"

definition do_setup :: "sys \<Rightarrow> callbacks \<Rightarrow> oper" where
  "do_setup sys cb s =
     bindr (setup_requirements sys cb s) (\<lambda>s.
     bindr (setup_directories sys cb s) (\<lambda>s.
     bindr (setup_device sys cb s) (\<lambda>s.
       setup_rest sys cb s)))"

section \<open>The test process\<close>

text \<open>The next answer of the operating system.\<close>

definition tick :: "lib \<Rightarrow> lib" where
  "tick s = s\<lparr>clk := clk s + 1\<rparr>"

definition do_test_setup :: "sys \<Rightarrow> callbacks \<Rightarrow> oper" where
  "do_test_setup sys cb s =
     (let s = s\<lparr>main_pid := pid s\<rparr>; t = test_of s in
      bindr (case skip_filesystems t of
               None \<Rightarrow> Inr s
             | Some skip \<Rightarrow>
                 if all_filesystems t then Inr s
                 else
                   bindr (brk_if sys cb (in_skiplist sys (fs_name sys) skip) 1059 TCONF
                            (fs_name sys @ '' is not supported by the test'') s) (\<lambda>s.
                     res sys cb 1063 TINFO (fs_name sys @ '' is supported by the test'') s)) (\<lambda>s.
      bindr (if has_caps t then run_calls sys cb (caps_calls sys True) s else Inr s) (\<lambda>s.
      bindr (case cb_setup cb of None \<Rightarrow> Inr s | Some f \<Rightarrow> f (emit_ev [Ev_called ''setup''] s)) (\<lambda>s.
      bindr (brk_if sys cb (main_pid s \<noteq> pid s) 1073 TBROK ''Runaway child in setup()!'' s) (\<lambda>s.
        if has_caps t then run_calls sys cb (caps_calls sys False) s else Inr s)))))"

text \<open>One call of the test function with the checks around it; \<open>msg\<close> is the message at line \<open>lineno\<close>.\<close>

definition run_one :: "sys \<Rightarrow> callbacks \<Rightarrow> oper \<Rightarrow> int \<Rightarrow> cstr \<Rightarrow> oper" where
  "run_one sys cb f lineno msg s =
     (case lib_results s of
        None \<Rightarrow> Inl (L_null, s)
      | Some saved \<Rightarrow>
          bindr (f s) (\<lambda>s.
          if pid s \<noteq> main_pid s then Inl (L_exit 0, s)
          else
            bindr (tst_reap_children sys cb s) (\<lambda>s.
              brk_if sys cb (results_equal saved (the (lib_results s))) lineno TBROK msg s)))"

fun run_cases :: "sys \<Rightarrow> callbacks \<Rightarrow> (nat \<Rightarrow> oper) \<Rightarrow> nat list \<Rightarrow> oper" where
  "run_cases sys cb f [] s = Inr s"
| "run_cases sys cb f (i # is) s =
     bindr (run_one sys cb (f i) 1135 (''Test '' @ sdec (int i) @ '' haven'' @ [CHR 0x27] @ ''t reported results!'') s) (\<lambda>s.
       run_cases sys cb f is s)"

definition run_tests :: "sys \<Rightarrow> callbacks \<Rightarrow> oper" where
  "run_tests sys cb s =
     (case cb_test cb of
        None \<Rightarrow>
          run_one sys cb (\<lambda>s. case cb_test_all cb of None \<Rightarrow> Inl (L_null, s) | Some f \<Rightarrow> f (emit_ev [Ev_called ''test''] s))
            1120 (''Test haven'' @ [CHR 0x27] @ ''t reported results!'') s
      | Some f \<Rightarrow> run_cases sys cb (\<lambda>i s. f i (emit_ev [Ev_called ''test''] s)) [0..<tcnt (test_of s)] s)"

text \<open>\<^verbatim>\<open>unsigned long long\<close> values are numbers below \<open>2 ^ 64\<close>.\<close>

definition get_time_ms :: "sys \<Rightarrow> callbacks \<Rightarrow> lib \<Rightarrow> (nat \<times> lib) outcome" where
  "get_time_ms sys cb s =
     (case clock_gettime sys (clk s) of
        Inl e \<Rightarrow>
          bindr (brk sys cb 1144 (TBROK OR TERRNO) ''tst_clock_gettime()'' (tick s\<lparr>l_errno := e\<rparr>)) (\<lambda>s. Inl (L_undefined, s))
      | Inr t \<Rightarrow>
          (case tst_timespec_to_ms t of
             Inl _ \<Rightarrow> Inl (L_undefined, tick s)
           | Inr ms \<Rightarrow> Inr (nat (ms mod 2 ^ 64), tick s)))"

definition add_paths :: "sys \<Rightarrow> lib \<Rightarrow> lib" where
  "add_paths sys s =
     emit_ev [Ev_path ((case path_env sys of None \<Rightarrow> [] | Some p \<Rightarrow> p) @ ''::'' @ start_dir sys)] s"

definition sig_KILL :: int where "sig_KILL = 9"
definition sig_USR1 :: int where "sig_USR1 = 10"

definition heartbeat :: "sys \<Rightarrow> callbacks \<Rightarrow> oper" where
  "heartbeat sys cb s =
     bindr (case clock_gettime sys (clk s) of
              Inl e \<Rightarrow> res sys cb 1169 (TWARN OR TERRNO) ''tst_clock_gettime() failed'' (tick s\<lparr>l_errno := e\<rparr>)
            | Inr t \<Rightarrow> Inr (tick s\<lparr>tst_start_time := t\<rparr>)) (\<lambda>s.
     let ppid = getppid sys (clk s); s = tick s in
     if ppid = 1 then
       bindr (res sys cb 1172 TFAIL ''Main test process might have exit!'' s) (\<lambda>s.
         Inl (L_killed sig_KILL, emit_ev [Ev_kill 0 sig_KILL] s))
     else Inr (emit_ev [Ev_kill ppid sig_USR1] s))"

text \<open>The loop; \<open>i\<close> and \<^verbatim>\<open>(unsigned int)iterations\<close> are numbers below \<open>2 ^ 32\<close>.\<close>

fun test_loop :: "nat \<Rightarrow> sys \<Rightarrow> callbacks \<Rightarrow> nat \<Rightarrow> nat \<Rightarrow> oper" where
  "test_loop 0 sys cb i t_end s = Inl (L_no_fuel, s)"
| "test_loop (Suc fuel) sys cb i t_end s =
     (let more = int i < iterations s mod 2 ^ 32; i = (if more then i + 1 else i) in
      bindr (if t_end \<noteq> 0 then bindr (get_time_ms sys cb s) (\<lambda>(ms, s). Inr (more \<or> ms < t_end, s))
             else Inr (more, s)) (\<lambda>(cont, s).
      if \<not> cont then Inr s
      else
        bindr (run_tests sys cb s) (\<lambda>s.
        bindr (heartbeat sys cb s) (\<lambda>s.
          test_loop fuel sys cb i t_end s))))"

definition testrun :: "nat \<Rightarrow> sys \<Rightarrow> callbacks \<Rightarrow> oper" where
  "testrun fuel sys cb s =
     bindr (heartbeat sys cb s) (\<lambda>s.
     bindr (do_test_setup sys cb (add_paths sys s)) (\<lambda>s.
     bindr (if duration s > 0 then
              bindr (get_time_ms sys cb s) (\<lambda>(ms, s).
                let d = floor (flt sys (duration s * 1000)) in
                if d \<ge> 2 ^ 64 then Inl (L_undefined, s) else Inr ((ms + nat d) mod 2 ^ 64, s))
            else Inr (0, s)) (\<lambda>(t_end, s).
     bindr (test_loop fuel sys cb 0 t_end s) (\<lambda>s.
     bindr (do_test_cleanup cb s) (\<lambda>s.
       Inl (L_exit 0, s))))))"

section \<open>Signals and time limits\<close>

definition WRITE_MSG :: "cstr \<Rightarrow> event" where
  "WRITE_MSG msg = Ev_err (msg @ [NEWLINE])"

definition alarm_handler :: oper where
  "alarm_handler s =
     (let s = emit_ev [WRITE_MSG ''Test timeouted, sending SIGKILL!'', Ev_kill (- test_pid s) sig_KILL, Ev_alarm 5] s;
          s = s\<lparr>sigkill_retries := sigkill_retries s + 1\<rparr>
      in
      if sigkill_retries s > 10 then
        Inl (L_exit TFAIL, emit_ev [WRITE_MSG ''Cannot kill test processes!'',
          WRITE_MSG ''Congratulation, likely test hit a kernel bug.'', WRITE_MSG ''Exiting uncleanly...''] s)
      else Inr s)"

definition heartbeat_handler :: oper where
  "heartbeat_handler s =
     (case lib_results s of
        None \<Rightarrow> Inl (L_null, s)
      | Some r \<Rightarrow> Inr (emit_ev [Ev_alarm (r_timeout r)] (s\<lparr>sigkill_retries := 0\<rparr>)))"

definition sigint_handler :: oper where
  "sigint_handler s =
     Inr (if test_pid s > 0
          then emit_ev [WRITE_MSG ''Sending SIGKILL to test process...'', Ev_kill (- test_pid s) sig_KILL] s else s)"

definition tst_timeout_remaining :: "sys \<Rightarrow> callbacks \<Rightarrow> lib \<Rightarrow> (nat \<times> lib) outcome" where
  "tst_timeout_remaining sys cb s =
     bindr (case clock_gettime sys (clk s) of
              Inl e \<Rightarrow> res sys cb 1264 (TWARN OR TERRNO) ''tst_clock_gettime() failed'' (tick s\<lparr>l_errno := e\<rparr>)
            | Inr t \<Rightarrow> Inr (tick s\<lparr>now := t\<rparr>)) (\<lambda>s.
     case (tst_timespec_diff_ms (now s) (tst_start_time s), lib_results s) of
       (Inr ms, Some r) \<Rightarrow>
         (case i64 (ms + 500) of
            None \<Rightarrow> Inl (L_undefined, s)
          | Some x \<Rightarrow>
              let elapsed = nat (x sdiv 1000 mod 2 ^ 32) in
              Inr (if r_timeout r > elapsed then r_timeout r - elapsed else 0, s))
     | (Inr _, None) \<Rightarrow> Inl (L_null, s)
     | (Inl _, _) \<Rightarrow> Inl (L_undefined, s))"

definition tst_multiply_timeout :: "sys \<Rightarrow> callbacks \<Rightarrow> nat \<Rightarrow> lib \<Rightarrow> (nat \<times> lib) outcome" where
  "tst_multiply_timeout sys cb timeout s =
     bindr (if timeout_mul s = - 1 then
              (case timeout_mul_env sys of
                 None \<Rightarrow> Inr (s\<lparr>timeout_mul := 1\<rparr>)
               | Some mul \<Rightarrow>
                   let (ret, v) = tst_parse_float sys (Some mul) (timeout_mul s) 1 10000; s = s\<lparr>timeout_mul := v\<rparr> in
                   brk_if sys cb (ret \<noteq> 0) 1282 TBROK (''Failed to parse LTP_TIMEOUT_MUL: '' @ tst_strerrno ret) s)
            else Inr s) (\<lambda>s.
     bindr (brk_if sys cb (timeout_mul s < 1) 1290 TBROK
              (''LTP_TIMEOUT_MUL must to be int >= 1! ('' @ fmt2 sys (timeout_mul s) @ '')'') s) (\<lambda>s.
     bindr (brk_if sys cb (timeout < 1) 1294 TBROK (''timeout must to be >= 1! ('' @ dec timeout @ '')'') s) (\<lambda>s.
     let v = floor (flt sys (flt sys (of_nat timeout) * timeout_mul s)) in
     if v \<ge> 2 ^ 32 \<or> v < 0 then Inl (L_undefined, s) else Inr (nat v, s))))"

definition two_digits :: "nat \<Rightarrow> cstr" where
  "two_digits n = (if n < 10 then ''0'' else []) @ dec n"

definition tst_set_timeout :: "sys \<Rightarrow> callbacks \<Rightarrow> int \<Rightarrow> oper" where
  "tst_set_timeout sys cb timeout s =
     (if timeout = - 1 then res sys cb 1302 TINFO ''Timeout per run is disabled'' s
      else
        bindr (brk_if sys cb (timeout < 1) 1307 TBROK (''timeout must to be >= 1! ('' @ sdec timeout @ '')'') s) (\<lambda>s.
        bindr (tst_multiply_timeout sys cb (nat (timeout mod 2 ^ 32)) s) (\<lambda>(v, s).
        case lib_results s of
          None \<Rightarrow> Inl (L_null, s)
        | Some r \<Rightarrow>
            bindr (res sys cb 1311 TINFO (''Timeout per run is '' @ dec (v div 3600) @ ''h '' @ two_digits (v mod 3600 div 60)
                     @ ''m '' @ two_digits (v mod 60) @ ''s'') (s\<lparr>lib_results := Some (r\<lparr>r_timeout := v\<rparr>)\<rparr>)) (\<lambda>s.
            if pid s = lib_pid s then Inr (emit_ev [Ev_alarm v] s) else heartbeat sys cb s))))"

section \<open>The library process\<close>

text \<open>\<^verbatim>\<open>fork\<close>: the child works on a copy of the state; the counters, what was reported, the output and the progress of the
  operating system are shared. The result is the child's status.\<close>

definition run_in_child :: "oper \<Rightarrow> int \<Rightarrow> lib \<Rightarrow> (wait_status \<times> lib) outcome" where
  "run_in_child f child s =
     (case f (s\<lparr>pid := child, waits := []\<rparr>) of
        Inr c \<Rightarrow> Inl (L_undefined, c)
      | Inl (e, c) \<Rightarrow>
          let s = s\<lparr>lib_results := lib_results c, reports := reports c, trace := trace c, clk := clk c\<rparr> in
          (case e of
             L_exit n \<Rightarrow> Inr (W_exited (n mod 256), s)
           | L_killed sig \<Rightarrow> Inr (W_signaled sig, s)
           | _ \<Rightarrow> Inl (e, s)))"

definition fork_testrun :: "nat \<Rightarrow> sys \<Rightarrow> callbacks \<Rightarrow> lib \<Rightarrow> (int \<times> lib) outcome" where
  "fork_testrun fuel sys cb s =
     (let t = test_of s in
      bindr (tst_set_timeout sys cb (if t_timeout t \<noteq> 0 then t_timeout t else 300) s) (\<lambda>s.
      let child = fork_pid sys (clk s); s = tick s\<lparr>test_pid := child\<rparr> in
      bindr (brk_if sys cb (child < 0) 1334 (TBROK OR TERRNO) ''fork()'' (if child < 0 then s\<lparr>l_errno := fork_errno sys (clk s)\<rparr> else s)) (\<lambda>s.
      bindr (run_in_child (testrun fuel sys cb) child (emit_ev [Ev_fork child] s)) (\<lambda>(status, s).
      let s = emit_ev [Ev_alarm 0] s in
      if taint_check t \<noteq> 0 \<and> tainted sys (clk s) then
        bindr (res sys cb 1349 TFAIL ''Kernel is now tainted.'' s) (\<lambda>s. Inr (TFAIL, s))
      else
        case status of
          W_exited n \<Rightarrow> Inr (n, s)
        | W_signaled sig \<Rightarrow>
            bindr (if sig = sig_KILL then
                     bindr (res sys cb 1357 TINFO ''If you are running on slow machine, try exporting LTP_TIMEOUT_MUL > 1'' s) (\<lambda>s.
                       brk sys cb 1359 TBROK ''Test killed! (timeout?)'' s)
                   else Inr s) (\<lambda>s.
            bindr (brk sys cb 1363 TBROK (''Test killed by '' @ tst_strsig sig @ ''!'') s) (\<lambda>s. Inr (0, s)))
        | W_other \<Rightarrow> Inr (0, s)))))"

fun fs_loop :: "nat \<Rightarrow> sys \<Rightarrow> callbacks \<Rightarrow> cstr list \<Rightarrow> int \<Rightarrow> lib \<Rightarrow> (int \<times> lib) outcome" where
  "fs_loop fuel sys cb [] ret s = Inr (ret, s)"
| "fs_loop fuel sys cb (fs # fss) ret s =
     bindr (res sys cb 1379 TINFO (''Testing on '' @ fs) s) (\<lambda>s.
     bindr (prepare_device sys cb (s\<lparr>tdev_fs_type := fs\<rparr>)) (\<lambda>s.
     bindr (fork_testrun fuel sys cb s) (\<lambda>(ret, s).
     bindr (if mntpoint_mounted s then
              bindr (late sys 0 (emit_ev [Ev_umount (the (mntpoint (test_of s)))] s)) (\<lambda>s. Inr (s\<lparr>mntpoint_mounted := False\<rparr>))
            else Inr s) (\<lambda>s.
     if ret = TCONF \<or> ret = 0 then fs_loop fuel sys cb fss ret s
     else bindr (do_exit sys ret s) (\<lambda>s. fs_loop fuel sys cb fss ret s)))))"

definition run_tcases_per_fs :: "nat \<Rightarrow> sys \<Rightarrow> callbacks \<Rightarrow> lib \<Rightarrow> (int \<times> lib) outcome" where
  "run_tcases_per_fs fuel sys cb s =
     (let fss = supported_fs_types sys (skip_filesystems (test_of s)) in
      bindr (brk_if sys cb (fss = []) 1375 TCONF ''There are no supported filesystems'' s) (\<lambda>s.
        fs_loop fuel sys cb fss 0 s))"

fun variants_loop :: "nat \<Rightarrow> sys \<Rightarrow> callbacks \<Rightarrow> nat \<Rightarrow> int \<Rightarrow> lib \<Rightarrow> (int \<times> lib) outcome" where
  "variants_loop fuel sys cb 0 ret s = Inr (ret, s)"
| "variants_loop fuel sys cb (Suc n) ret s =
     bindr (if all_filesystems (test_of s) then run_tcases_per_fs fuel sys cb s else fork_testrun fuel sys cb s) (\<lambda>(r, s).
     let ret = ret OR r in
     if ret AND NOT TCONF \<noteq> 0 then Inr (ret, s) else variants_loop fuel sys cb n ret s)"

text \<open>\<open>cb\<close> has the functions of the test and \<open>timer_cb\<close> those that \<^verbatim>\<open>tst_timer_test_setup\<close> puts in their place for a sampling test.\<close>

definition tst_run_tcases :: "nat \<Rightarrow> sys \<Rightarrow> callbacks \<Rightarrow> callbacks \<Rightarrow> test option \<Rightarrow> oper" where
  "tst_run_tcases fuel sys cb timer_cb self s =
     bindr (do_setup sys cb (s\<lparr>lib_pid := pid s, tst_test := self\<rparr>)) (\<lambda>s.
     let cb = (if cb_sample cb then timer_cb else cb); variants = test_variants (test_of s) in
     bindr (variants_loop fuel sys cb (if variants \<noteq> 0 then variants else 1) 0 s) (\<lambda>(ret, s).
       do_exit sys ret s))"

section \<open>Other functions\<close>

definition safe_clone :: "sys \<Rightarrow> callbacks \<Rightarrow> cstr \<Rightarrow> int \<Rightarrow> int \<Rightarrow> wait_event \<Rightarrow> oper" where
  "safe_clone sys cb file lineno child w s =
     bindr (brk_if sys cb (\<not> forks_child (test_of s)) 437 TBROK ''test.forks_child must be set!'' s) (\<lambda>s.
     if child = - 1 then tst_brk sys cb file lineno (TBROK OR TERRNO) ''clone3 failed'' s
     else if child = - 2 then tst_brk sys cb file lineno (TBROK OR TERRNO) ''clone failed'' s
     else Inr (s\<lparr>waits := waits s @ [w]\<rparr>))"

end
