(* ===== verification/Spec2Isabelle.thy ===== *)
theory Spec2Isabelle
  imports Bool_Expr Kconfig Kvercmp Bitmask Random_Range Timer Splitstr Zoo Pan_Collection Pan_Termination Tst_Res Tst_Checksum
    Data_Pattern Open_Flags Write_Log Tst_Test
begin

text \<open>
  A verification development of the Linux Test Project with device-driver tests.
\<close>

end
